(* ===== verification/GJC_Prelude.thy ===== *)
theory GJC_Prelude
  imports Main "HOL-Library.AList" "HOL-Library.Sublist" "HOL-Library.Char_ord"
    "HOL-Library.List_Lexorder"
begin

text \<open>
  Shared material of the development: how the JavaScript data structures of the sources
  are represented, the lemma collections the component theories extend, and the generic
  facts on lists, options and association lists they use.

  \<^item> A JavaScript \<^verbatim>\<open>Map\<close> (insertion-ordered, unique keys) is an association list:
    \<^verbatim>\<open>get\<close> is \<^const>\<open>map_of\<close>, \<^verbatim>\<open>set\<close> is \<^const>\<open>AList.update\<close> (a present key keeps its
    place, a new key goes to the end) and \<^verbatim>\<open>delete\<close> is \<^const>\<open>AList.delete\<close>.
  \<^item> A call that may throw returns a sum: \<open>Inl\<close> carries the error, \<open>Inr\<close> the value.
  \<^item> \<^verbatim>\<open>undefined\<close> and \<^verbatim>\<open>null\<close> results of typed code are \<open>None\<close>.
\<close>

type_synonym ('k, 'v) jsmap = "('k \<times> 'v) list"
type_synonym ('e, 'a) outcome = "'e + 'a"

named_theorems js_simps \<open>equations of the JavaScript library operations\<close>
named_theorems inv_intros \<open>an operation of a component keeps the component's invariant\<close>

text \<open>The keys of an insertion-ordered map are distinct; this is the invariant every use keeps.\<close>

abbreviation keys_distinct :: "('k, 'v) jsmap \<Rightarrow> bool" where
  "keys_distinct m \<equiv> distinct (map fst m)"

lemma keys_distinct_update [inv_intros]: "keys_distinct m \<Longrightarrow> keys_distinct (AList.update k v m)"
  by (rule distinct_update)

lemma keys_distinct_delete [inv_intros]: "keys_distinct m \<Longrightarrow> keys_distinct (AList.delete k m)"
  by (rule distinct_delete)

lemma keys_distinct_filter [inv_intros]: "keys_distinct m \<Longrightarrow> keys_distinct (filter P m)"
  by (induction m) auto

lemma map_of_update [js_simps]: "map_of (AList.update k v m) j = (if j = k then Some v else map_of m j)"
  by (simp add: update_conv')

lemma map_of_delete [js_simps]: "map_of (AList.delete k m) j = (if j = k then None else map_of m j)"
  by (simp add: delete_conv')

lemma length_delete_le: "length (AList.delete k m) \<le> length m"
  by (simp add: AList.delete_eq)

lemma length_delete_less: "map_of m k = Some v \<Longrightarrow> length (AList.delete k m) < length m"
proof (induction m)
  case Nil
  then show ?case by simp
next
  case (Cons p m)
  then show ?case
    by (cases p) (auto simp: AList.delete_eq split: if_splits intro: le_imp_less_Suc)
qed

lemma length_update_le: "length (AList.update k v m) \<le> Suc (length m)"
  by (induction m) auto

section \<open>Strings\<close>

text \<open>
  A string of the sources is a \<^typ>\<open>string\<close>, one character per code unit; the model's
  characters are the code units up to 255, which holds every character the modelled code
  compares against. \<^verbatim>\<open>\\w\<close> is an ASCII letter, digit or underscore and \<^verbatim>\<open>\\s\<close> the white space
  of that range (tab, line feed, vertical tab, form feed, carriage return, space and
  no-break space).
\<close>

definition word_char :: "char \<Rightarrow> bool" where
  "word_char c \<longleftrightarrow> c \<in> set ''ABCDEFGHIJKLMNOPQRSTUVWXYZabcdefghijklmnopqrstuvwxyz0123456789_''"

definition digit_char :: "char \<Rightarrow> bool" where
  "digit_char c \<longleftrightarrow> c \<in> set ''0123456789''"

definition white_char :: "char \<Rightarrow> bool" where
  "white_char c \<longleftrightarrow>
     c \<in> {CHR 0x09, CHR 0x0A, CHR 0x0B, CHR 0x0C, CHR 0x0D, CHR 0x20, CHR 0xA0}"

text \<open>\<^verbatim>\<open>String.prototype.trim\<close>, \<^verbatim>\<open>Array.prototype.join\<close> and \<^verbatim>\<open>String.prototype.split\<close> at one
  separator character.\<close>

definition trim :: "string \<Rightarrow> string" where
  "trim s = rev (dropWhile white_char (rev (dropWhile white_char s)))"

fun join :: "'a list \<Rightarrow> 'a list list \<Rightarrow> 'a list" where
  "join sep [] = []"
| "join sep [x] = x"
| "join sep (x # y # ys) = x @ sep @ join sep (y # ys)"

fun split_at :: "'a \<Rightarrow> 'a list \<Rightarrow> 'a list list" where
  "split_at c [] = [[]]"
| "split_at c (x # xs) =
     (if x = c then [] # split_at c xs
      else (case split_at c xs of [] \<Rightarrow> [[x]] | w # ws \<Rightarrow> (x # w) # ws))"

lemma split_at_not_Nil [simp]: "split_at c s \<noteq> []"
  by (induction s) (auto split: list.splits)

text \<open>Splitting undoes joining when no piece holds the separator, and joining undoes splitting.\<close>

lemma join_Cons: "ys \<noteq> [] \<Longrightarrow> join sep (x # ys) = x @ sep @ join sep ys"
  by (cases ys) auto

lemma join_split_at [simp]: "join [c] (split_at c s) = s"
proof (induction s)
  case Nil
  then show ?case by simp
next
  case (Cons x xs)
  obtain w ws where w: "split_at c xs = w # ws"
    by (cases "split_at c xs") auto
  with Cons show ?case
    by (cases ws) (auto simp: join_Cons)
qed

lemma split_at_append_sep:
  "c \<notin> set w \<Longrightarrow> split_at c (w @ c # s) = w # split_at c s"
  by (induction w) auto

lemma split_at_no_sep: "c \<notin> set w \<Longrightarrow> split_at c w = [w]"
  by (induction w) auto

lemma split_at_join:
  "ls \<noteq> [] \<Longrightarrow> \<forall>l \<in> set ls. c \<notin> set l \<Longrightarrow> split_at c (join [c] ls) = ls"
proof (induction ls rule: induct_list012)
  case (3 x y zs)
  then show ?case by (simp add: split_at_append_sep)
qed (simp_all add: split_at_no_sep)

lemma split_at_app:
  "split_at c (s @ t) = butlast (split_at c s) @ split_at c (last (split_at c s) @ t)"
proof (induction s)
  case (Cons x s)
  obtain w ws where w: "split_at c s = w # ws" by (cases "split_at c s") auto
  show ?case
  proof (cases "x = c \<or> ws \<noteq> []")
    case True
    then show ?thesis using Cons w by auto
  next
    case False
    then have "split_at c ((x # w) @ t) = (case split_at c (w @ t) of [] \<Rightarrow> [[x]] | v # vs \<Rightarrow> (x # v) # vs)" by simp
    then show ?thesis using Cons w False by simp
  qed
qed simp

lemma split_at_pieces: "p \<in> set (split_at c s) \<Longrightarrow> c \<notin> set p"
proof (induction s arbitrary: p)
  case (Cons x s)
  obtain w ws where "split_at c s = w # ws" by (cases "split_at c s") auto
  then show ?case using Cons by (auto split: if_splits)
qed simp

lemma last_split_at: "c \<notin> set (last (split_at c s))"
  by (rule split_at_pieces [OF last_in_set]) simp

lemma join_ne: "g \<noteq> [] \<Longrightarrow> [] \<notin> set g \<Longrightarrow> join sep g \<noteq> []"
  by (cases g; cases "tl g") auto

lemma join_hd: "ls \<noteq> [] \<Longrightarrow> hd ls \<noteq> [] \<Longrightarrow> join sep ls \<noteq> [] \<and> hd (join sep ls) = hd (hd ls)"
  by (cases ls; cases "tl ls") auto

lemma last_join: "ls \<noteq> [] \<Longrightarrow> last ls \<noteq> [] \<Longrightarrow> join sep ls \<noteq> [] \<and> last (join sep ls) = last (last ls)"
  by (induction sep ls rule: join.induct) auto

lemma join_append: "xs \<noteq> [] \<Longrightarrow> ys \<noteq> [] \<Longrightarrow> join sep (xs @ ys) = join sep xs @ sep @ join sep ys"
  by (induction sep xs rule: join.induct) (auto simp: join_Cons)

text \<open>A word \<open>w\<close> that begins and ends with a word character occurs in a string, without regard to case and between word
  boundaries: \<^verbatim>\<open>/\bw\b/i\<close>. \<open>inside\<close> says whether the character before the string is a word character. And \<^verbatim>\<open>/w/i\<close>.\<close>

definition lower_char :: "char \<Rightarrow> char" where
  "lower_char c = (if 65 \<le> (of_char c :: nat) \<and> (of_char c :: nat) \<le> 90 then char_of ((of_char c :: nat) + 32) else c)"

fun whole_word :: "bool \<Rightarrow> string \<Rightarrow> string \<Rightarrow> bool" where
  "whole_word inside w [] = False"
| "whole_word inside w (c # cs) =
     (\<not> inside \<and> take (length w) (map lower_char (c # cs)) = w
        \<and> (case drop (length w) (c # cs) of [] \<Rightarrow> True | d # _ \<Rightarrow> \<not> word_char d)
      \<or> whole_word (word_char c) w cs)"

fun mentions :: "string \<Rightarrow> string \<Rightarrow> bool" where
  "mentions w [] = (w = [])"
| "mentions w (c # cs) = (take (length w) (map lower_char (c # cs)) = w \<or> mentions w cs)"

section \<open>Decimal numerals\<close>

text \<open>\<^verbatim>\<open>String(n)\<close> of a non-negative integer and its reading by \<^verbatim>\<open>Number\<close> or \<^verbatim>\<open>BigInt\<close>.\<close>

definition digit_of :: "nat \<Rightarrow> char" where
  "digit_of n = ''0123456789'' ! n"

definition digit_val :: "char \<Rightarrow> nat" where
  "digit_val c = of_char c - 48"

fun dec_string :: "nat \<Rightarrow> string" where
  "dec_string n = (if n < 10 then [digit_of n] else dec_string (n div 10) @ [digit_of (n mod 10)])"

declare dec_string.simps [simp del]

definition dec_value :: "string \<Rightarrow> nat" where
  "dec_value s = foldl (\<lambda>a c. 10 * a + digit_val c) 0 s"

lemma less_10_cases: "(n :: nat) < 10 \<Longrightarrow> n \<in> {0, 1, 2, 3, 4, 5, 6, 7, 8, 9}"
  by auto

lemma digit_val_of [simp]: "n < 10 \<Longrightarrow> digit_val (digit_of n) = n"
  using less_10_cases [of n] by (auto simp: digit_val_def digit_of_def)

lemma digit_char_of [simp]: "n < 10 \<Longrightarrow> digit_char (digit_of n)"
  using less_10_cases [of n] by (auto simp: digit_char_def digit_of_def)

lemma dec_value_string [simp]: "dec_value (dec_string n) = n"
proof (induction n rule: dec_string.induct)
  case (1 n)
  then show ?case by (cases "n < 10") (auto simp: dec_string.simps [of n] dec_value_def)
qed

lemma dec_string_digits: "c \<in> set (dec_string n) \<Longrightarrow> digit_char c"
proof (induction n rule: dec_string.induct)
  case (1 n)
  then show ?case by (cases "n < 10") (auto simp: dec_string.simps [of n])
qed

lemma dec_string_not_Nil [simp]: "dec_string n \<noteq> []"
  by (subst dec_string.simps) simp

lemma dec_string_inj [simp]: "dec_string m = dec_string n \<longleftrightarrow> m = n"
  by (metis dec_value_string)

lemma dec_value_zeros [simp]: "dec_value (replicate k (CHR ''0'') @ s) = dec_value s"
  by (induction k) (simp_all add: dec_value_def digit_val_def)

section \<open>Labelled transition systems\<close>

text \<open>
  Components whose operations interleave are relations \<open>step s l s'\<close>; \<open>steps\<close> is a finite run with its labels, oldest
  first. The locale \<open>invariant_system\<close> is the interface between a component that shows its operations keep an
  invariant and the properties of all its runs; \<open>monotone_system\<close> adds a quantity no operation lowers.
\<close>

inductive steps :: "('s \<Rightarrow> 'l \<Rightarrow> 's \<Rightarrow> bool) \<Rightarrow> 's \<Rightarrow> 'l list \<Rightarrow> 's \<Rightarrow> bool" for step where
  steps_Nil: "steps step s [] s"
| steps_snoc: "steps step s ls t \<Longrightarrow> step t l u \<Longrightarrow> steps step s (ls @ [l]) u"

lemma steps_one: "step s l t \<Longrightarrow> steps step s [l] t"
  using steps_snoc [of step s "[]" s l t] by (simp add: steps_Nil)

locale invariant_system =
  fixes step :: "'s \<Rightarrow> 'l \<Rightarrow> 's \<Rightarrow> bool"
    and inv :: "'s \<Rightarrow> bool"
  assumes step_inv: "inv s \<Longrightarrow> step s l s' \<Longrightarrow> inv s'"
begin

lemma steps_inv: "steps step s ls s' \<Longrightarrow> inv s \<Longrightarrow> inv s'"
  by (induction rule: steps.induct) (auto intro: step_inv)

end

locale monotone_system = invariant_system step inv
  for step :: "'s \<Rightarrow> 'l \<Rightarrow> 's \<Rightarrow> bool" and inv :: "'s \<Rightarrow> bool" +
  fixes level :: "'s \<Rightarrow> 'v :: preorder"
  assumes step_level: "inv s \<Longrightarrow> step s l s' \<Longrightarrow> level s \<le> level s'"
begin

lemma steps_level: "steps step s ls s' \<Longrightarrow> inv s \<Longrightarrow> level s \<le> level s'"
proof (induction rule: steps.induct)
  case (steps_snoc s ls t l u)
  then show ?case using steps_inv step_level order_trans by blast
qed simp

end

section \<open>Sources that are consumed in order\<close>

text \<open>The contract of a component whose contents, seen as a list, are handed out one by one from the front.\<close>

locale fifo_source =
  fixes wf :: "'s \<Rightarrow> bool"
    and contents :: "'s \<Rightarrow> 'a list"
    and popFront :: "'s \<Rightarrow> 'a option \<times> 's"
  assumes popFront_wf: "wf s \<Longrightarrow> wf (snd (popFront s))"
    and popFront_contents: "wf s \<Longrightarrow> contents (snd (popFront s)) = tl (contents s)"
    and popFront_item: "wf s \<Longrightarrow> fst (popFront s) = (if contents s = [] then None else Some (hd (contents s)))"
begin

text \<open>Draining returns the contents, oldest first, and leaves nothing.\<close>

primrec drain :: "nat \<Rightarrow> 's \<Rightarrow> 'a list \<times> 's" where
  "drain 0 s = ([], s)"
| "drain (Suc n) s = (case popFront s of
     (None, s') \<Rightarrow> ([], s')
   | (Some x, s') \<Rightarrow> (case drain n s' of (xs, t) \<Rightarrow> (x # xs, t)))"

lemma drain_contents:
  "wf s \<Longrightarrow> length (contents s) \<le> n \<Longrightarrow> fst (drain n s) = contents s \<and> contents (snd (drain n s)) = [] \<and> wf (snd (drain n s))"
proof (induction n arbitrary: s)
  case (Suc n)
  obtain x s' where p: "popFront s = (x, s')" by fastforce
  have "wf s'" "contents s' = tl (contents s)" "x = (if contents s = [] then None else Some (hd (contents s)))"
    using popFront_wf [OF Suc.prems(1)] popFront_contents [OF Suc.prems(1)] popFront_item [OF Suc.prems(1)] p by simp_all
  with Suc.IH [of s'] Suc.prems p show ?case by (cases "contents s") (auto split: prod.splits)
qed simp

end

section \<open>Stores that only grow\<close>

text \<open>The contract of a store whose writes either fail or extend it: \<open>le\<close> says that everything in the first store is still in
  the second. A client that performs writes in any order, some of which fail, never loses anything.\<close>

locale growing_store =
  fixes le :: "'s \<Rightarrow> 's \<Rightarrow> bool"
    and put :: "'w \<Rightarrow> 's \<Rightarrow> ('e, 's) outcome"
  assumes le_refl: "le s s"
    and le_trans: "le s t \<Longrightarrow> le t u \<Longrightarrow> le s u"
    and write_le: "put w s = Inr s' \<Longrightarrow> le s s'"
begin

primrec write_seq :: "'w list \<Rightarrow> 's \<Rightarrow> 's" where
  "write_seq [] s = s"
| "write_seq (w # ws) s = write_seq ws (case put w s of Inl _ \<Rightarrow> s | Inr s' \<Rightarrow> s')"

lemma write_seq_le: "le s (write_seq ws s)"
proof (induction ws arbitrary: s)
  case (Cons w ws)
  then show ?case using write_le [of w s] le_trans by (cases "put w s") auto
qed (simp add: le_refl)

end

end
