(* ===== verification/JS_Values.thy ===== *)
theory JS_Values
  imports GJC_Prelude Complex_Main
begin

text \<open>
  Dynamically typed values. Code that validates untrusted JSON (receipts read back from
  disk, stored goals) tests types at run time, so it is modelled over the datatype of all
  values such code can see: what \<^verbatim>\<open>JSON.parse\<close> yields, plus \<^verbatim>\<open>undefined\<close> and the
  non-finite numbers an in-memory object may hold. Finite numbers are exact rationals
  (IEEE rounding is not modelled). Conversions the engine implements natively are the fields
  of \<open>js_engine\<close>, an argument of the operations that use them: \<^verbatim>\<open>Number::toString\<close>, the
  numeric reading of a string, and SHA-256 of \<^verbatim>\<open>node:crypto\<close>.
\<close>

section \<open>Values\<close>

datatype nonfinite = NaN | PosInf | NegInf

datatype jv =
    JUndef | JNull | JBool bool | JNum rat | JNonFinite nonfinite | JStr string
  | JArr "jv list" | JObj "(string \<times> jv) list"

record js_engine =
  number_to_string :: "rat \<Rightarrow> string"
  string_to_number :: "string \<Rightarrow> rat option"
  sha256_hex :: "string \<Rightarrow> string"

text \<open>\<^verbatim>\<open>Boolean(v)\<close>, the test of \<^verbatim>\<open>if\<close>, \<^verbatim>\<open>!\<close>, \<^verbatim>\<open>&&\<close> and \<^verbatim>\<open>||\<close>.\<close>

fun truthy :: "jv \<Rightarrow> bool" where
  "truthy JUndef = False"
| "truthy JNull = False"
| "truthy (JBool b) = b"
| "truthy (JNum r) = (r \<noteq> 0)"
| "truthy (JNonFinite n) = (n \<noteq> NaN)"
| "truthy (JStr s) = (s \<noteq> [])"
| "truthy (JArr xs) = True"
| "truthy (JObj m) = True"

text \<open>Reading a property of a value that is neither null nor undefined. The keys the modelled code
  reads are not names of the built-in prototypes, so a primitive or an array yields undefined.\<close>

fun get :: "jv \<Rightarrow> string \<Rightarrow> jv" where
  "get (JObj m) k = (case map_of m k of None \<Rightarrow> JUndef | Some v \<Rightarrow> v)"
| "get _ k = JUndef"

text \<open>Optional chaining \<^verbatim>\<open>v?.k\<close> and nullish coalescing \<^verbatim>\<open>v ?? w\<close>.\<close>

definition nullish :: "jv \<Rightarrow> bool" where
  "nullish v \<longleftrightarrow> v = JUndef \<or> v = JNull"

definition get_opt :: "jv \<Rightarrow> string \<Rightarrow> jv" where
  "get_opt v k = (if nullish v then JUndef else get v k)"

definition coalesce :: "jv \<Rightarrow> jv \<Rightarrow> jv" where
  "coalesce v w = (if nullish v then w else v)"

fun is_string :: "jv \<Rightarrow> bool" where
  "is_string (JStr s) = True"
| "is_string _ = False"

fun is_boolean :: "jv \<Rightarrow> bool" where
  "is_boolean (JBool b) = True"
| "is_boolean _ = False"

fun is_number :: "jv \<Rightarrow> bool" where
  "is_number (JNum r) = True"
| "is_number (JNonFinite n) = True"
| "is_number _ = False"

fun is_array :: "jv \<Rightarrow> bool" where
  "is_array (JArr xs) = True"
| "is_array _ = False"

text \<open>\<^verbatim>\<open>v !== null && typeof v === "object" && !Array.isArray(v)\<close>.\<close>

fun is_plain_object :: "jv \<Rightarrow> bool" where
  "is_plain_object (JObj m) = True"
| "is_plain_object _ = False"

text \<open>\<^verbatim>\<open>typeof v === "number" && Number.isFinite(v) && v >= 0\<close>.\<close>

fun nonneg_number :: "jv \<Rightarrow> bool" where
  "nonneg_number (JNum r) = (0 \<le> r)"
| "nonneg_number _ = False"

text \<open>\<^verbatim>\<open>===\<close> where the right operand is a literal or a finite number; there NaN and object identity
  play no part.\<close>

definition is_str :: "jv \<Rightarrow> string \<Rightarrow> bool" where
  "is_str v s \<longleftrightarrow> v = JStr s"

text \<open>\<^verbatim>\<open>Array.prototype.includes\<close> of a string.\<close>

fun arr_includes :: "jv \<Rightarrow> string \<Rightarrow> bool" where
  "arr_includes (JArr xs) s = (JStr s \<in> set xs)"
| "arr_includes _ s = False"

section \<open>Conversions\<close>

text \<open>\<^verbatim>\<open>String(v)\<close>: an array joins its elements, with nothing for null and undefined.\<close>

fun js_to_string :: "js_engine \<Rightarrow> jv \<Rightarrow> string" where
  "js_to_string eng JUndef = ''undefined''"
| "js_to_string eng JNull = ''null''"
| "js_to_string eng (JBool b) = (if b then ''true'' else ''false'')"
| "js_to_string eng (JNum r) = number_to_string eng r"
| "js_to_string eng (JNonFinite n) =
     (case n of NaN \<Rightarrow> ''NaN'' | PosInf \<Rightarrow> ''Infinity'' | NegInf \<Rightarrow> ''-Infinity'')"
| "js_to_string eng (JStr s) = s"
| "js_to_string eng (JArr xs) =
     join '','' (map (\<lambda>x. if nullish x then [] else js_to_string eng x) xs)"
| "js_to_string eng (JObj m) = ''[object Object]''"

text \<open>\<^verbatim>\<open>Number(v)\<close>, as the value it denotes.\<close>

fun js_to_number :: "js_engine \<Rightarrow> jv \<Rightarrow> jv" where
  "js_to_number eng JUndef = JNonFinite NaN"
| "js_to_number eng JNull = JNum 0"
| "js_to_number eng (JBool b) = JNum (if b then 1 else 0)"
| "js_to_number eng (JNum r) = JNum r"
| "js_to_number eng (JNonFinite n) = JNonFinite n"
| "js_to_number eng v =
     (case string_to_number eng (js_to_string eng v) of None \<Rightarrow> JNonFinite NaN | Some r \<Rightarrow> JNum r)"

fun num_gt :: "jv \<Rightarrow> jv \<Rightarrow> bool" where
  "num_gt (JNum a) (JNum b) = (b < a)"
| "num_gt (JNum a) (JNonFinite n) = (n = NegInf)"
| "num_gt (JNonFinite n) (JNum b) = (n = PosInf)"
| "num_gt (JNonFinite n) (JNonFinite k) = (n = PosInf \<and> k = NegInf)"
| "num_gt _ _ = False"

text \<open>The relational operator \<^verbatim>\<open>v > w\<close>: two strings compare by code units, anything else as numbers.\<close>

fun js_gt :: "js_engine \<Rightarrow> jv \<Rightarrow> jv \<Rightarrow> bool" where
  "js_gt eng (JStr a) (JStr b) = (b < a)"
| "js_gt eng v w = num_gt (js_to_number eng v) (js_to_number eng w)"

section \<open>JSON text\<close>

definition hex_digit :: "nat \<Rightarrow> char" where
  "hex_digit n = ''0123456789abcdef'' ! n"

text \<open>\<^verbatim>\<open>JSON.stringify\<close> of a string.\<close>

definition quote_char :: "char \<Rightarrow> string" where
  "quote_char c =
     (if c = CHR 0x22 then [CHR 0x5C, CHR 0x22]
      else if c = CHR 0x5C then [CHR 0x5C, CHR 0x5C]
      else if c = CHR 0x08 then [CHR 0x5C, CHR ''b'']
      else if c = CHR 0x0C then [CHR 0x5C, CHR ''f'']
      else if c = CHR 0x0A then [CHR 0x5C, CHR ''n'']
      else if c = CHR 0x0D then [CHR 0x5C, CHR ''r'']
      else if c = CHR 0x09 then [CHR 0x5C, CHR ''t'']
      else if of_char c < (32 :: nat)
      then CHR 0x5C # ''u00'' @ [hex_digit (of_char c div 16), hex_digit (of_char c mod 16)]
      else [c])"

definition quote :: "string \<Rightarrow> string" where
  "quote s = CHR 0x22 # concat (map quote_char s) @ [CHR 0x22]"

end
