(* ===== verification/Canonical_Json.thy ===== *)
theory Canonical_Json
  imports JS_Values
begin

text \<open>
  The canonical JSON text of \<^verbatim>\<open>receipts.ts\<close>, the basis every receipt hash is computed over, and
  its unique readability: on JSON data two values have the same canonical text exactly when
  they are equal up to the order of object keys.
\<close>

section \<open>The serialiser\<close>

text \<open>\<^verbatim>\<open>JSON.stringify(v) ?? "null"\<close> for the primitive cases; arrays and objects recurse, objects over
  their sorted keys.\<close>

(* coding-agent/src/harness-control-plane/receipts.ts:48-55 canonicalJson *)
fun canonicalJson :: "js_engine \<Rightarrow> jv \<Rightarrow> string" where
  "canonicalJson eng JUndef = ''null''"
| "canonicalJson eng JNull = ''null''"
| "canonicalJson eng (JBool b) = (if b then ''true'' else ''false'')"
| "canonicalJson eng (JNum r) = number_to_string eng r"
| "canonicalJson eng (JNonFinite n) = ''null''"
| "canonicalJson eng (JStr s) = quote s"
| "canonicalJson eng (JArr xs) = ''['' @ join '','' (map (canonicalJson eng) xs) @ '']''"
| "canonicalJson eng (JObj m) =
     ''{'' @ join '',''
        (map (\<lambda>(k, t). quote k @ '':'' @ t)
          (sort_key fst (map (\<lambda>(k, v). (k, canonicalJson eng v)) m))) @ ''}''"

section \<open>JSON data and key order\<close>

text \<open>What \<^verbatim>\<open>JSON.parse\<close> can return: no undefined, no non-finite number, distinct keys.\<close>

fun json_data :: "jv \<Rightarrow> bool" where
  "json_data JUndef = False"
| "json_data (JNonFinite n) = False"
| "json_data (JArr xs) = list_all json_data xs"
| "json_data (JObj m) = (keys_distinct m \<and> list_all (\<lambda>(k, v). json_data v) m)"
| "json_data _ = True"

text \<open>The value with the keys of every object sorted.\<close>

fun sort_keys :: "jv \<Rightarrow> jv" where
  "sort_keys (JArr xs) = JArr (map sort_keys xs)"
| "sort_keys (JObj m) = JObj (sort_key fst (map (\<lambda>(k, v). (k, sort_keys v)) m))"
| "sort_keys v = v"

text \<open>\<^verbatim>\<open>JSON.parse(JSON.stringify(v))\<close>: undefined object fields disappear, undefined array elements and
  non-finite numbers become null.\<close>

fun json_roundtrip :: "jv \<Rightarrow> jv" where
  "json_roundtrip (JNonFinite n) = JNull"
| "json_roundtrip (JArr xs) = JArr (map (\<lambda>x. if x = JUndef then JNull else json_roundtrip x) xs)"
| "json_roundtrip (JObj m) = JObj (map (\<lambda>(k, v). (k, json_roundtrip v)) (filter (\<lambda>(k, v). v \<noteq> JUndef) m))"
| "json_roundtrip v = v"

lemma json_data_not_undef [simp]: "\<not> json_data JUndef"
  by simp

lemma json_roundtrip_id: "json_data v \<Longrightarrow> json_roundtrip v = v"
proof (induction v)
  case (JArr xs)
  then have "x \<in> set xs \<Longrightarrow> (if x = JUndef then JNull else json_roundtrip x) = x" for x
    by (auto simp: list_all_iff)
  then show ?case by (simp add: map_idI)
next
  case (JObj m)
  have ok: "json_data v" if "(k, v) \<in> set m" for k v
    using JObj.prems that by (auto simp: list_all_iff)
  then have "filter (\<lambda>(k, v). v \<noteq> JUndef) m = m" unfolding filter_id_conv by fastforce
  moreover have "map (\<lambda>(k, v). (k, json_roundtrip v)) m = m"
    using JObj.IH ok by (auto intro!: map_idI)
  ultimately show ?case by simp
qed simp_all

text \<open>Sorted JSON data: keys strictly ascending at every level.\<close>

fun normal :: "jv \<Rightarrow> bool" where
  "normal JUndef = False"
| "normal (JNonFinite n) = False"
| "normal (JArr xs) = list_all normal xs"
| "normal (JObj m) = (sorted_wrt (<) (map fst m) \<and> list_all (\<lambda>(k, v). normal v) m)"
| "normal _ = True"

lemma sort_key_map_snd:
  "sort_key fst (map (\<lambda>(k, v). (k, f v)) m) = map (\<lambda>(k, v). (k, f v)) (sort_key fst m)"
proof (induction m)
  case (Cons p m)
  obtain k v where p: "p = (k, v)" by (cases p)
  have ins: "insort_key fst (k, f v) (map (\<lambda>(k, v). (k, f v)) xs)
      = map (\<lambda>(k, v). (k, f v)) (insort_key fst (k, v) xs)" for xs
    by (induction xs) auto
  from Cons p show ?case by (simp add: ins)
qed simp

lemma sorted_wrt_less_sort_key:
  fixes m :: "('k::linorder \<times> 'v) list"
  shows "keys_distinct m \<Longrightarrow> sorted_wrt (<) (map fst (sort_key fst m))"
  by (simp add: strict_sorted_iff distinct_map)

lemma sort_key_idem [simp]: "sort_key f (sort_key f xs) = sort_key f xs"
  by (rule sort_key_id_if_sorted) simp

lemma normal_sort_keys: "json_data v \<Longrightarrow> normal (sort_keys v)"
proof (induction v rule: sort_keys.induct)
  case (2 m)
  have "keys_distinct (map (\<lambda>(k, v). (k, sort_keys v)) m)"
    using 2 by (simp add: split_def comp_def)
  moreover have "\<forall>(k, v) \<in> set m. normal (sort_keys v)"
    using 2 by (fastforce simp: list_all_iff)
  ultimately show ?case
    by (auto simp: list_all_iff sorted_wrt_less_sort_key)
qed (auto simp: list_all_iff)

lemma canonicalJson_sort_keys: "canonicalJson eng (sort_keys v) = canonicalJson eng v"
proof (induction v rule: sort_keys.induct)
  case (2 m)
  have "map (\<lambda>(k, v). (k, canonicalJson eng (sort_keys v))) m = map (\<lambda>(k, v). (k, canonicalJson eng v)) m"
    using 2 by auto
  then have eq: "map (\<lambda>(k, v). (k, canonicalJson eng v)) (map (\<lambda>(k, v). (k, sort_keys v)) m)
      = map (\<lambda>(k, v). (k, canonicalJson eng v)) m"
    by (simp add: split_def comp_def)
  have "sort_key fst (map (\<lambda>(k, v). (k, canonicalJson eng v)) (sort_key fst (map (\<lambda>(k, v). (k, sort_keys v)) m)))
      = map (\<lambda>(k, v). (k, canonicalJson eng v)) (sort_key fst (map (\<lambda>(k, v). (k, sort_keys v)) m))"
    by (simp add: sort_key_map_snd [of "canonicalJson eng"])
  also have "\<dots> = sort_key fst (map (\<lambda>(k, v). (k, canonicalJson eng v)) m)"
    by (simp only: sort_key_map_snd [symmetric] eq)
  finally show ?case by simp
qed (auto cong: map_cong)

lemma canonicalJson_normal_obj:
  "sorted_wrt (<) (map fst m) \<Longrightarrow> canonicalJson eng (JObj m) =
     ''{'' @ join '','' (map (\<lambda>(k, v). quote k @ '':'' @ canonicalJson eng v) m) @ ''}''"
  by (simp add: sort_key_map_snd sorted_sort_id strict_sorted_iff sort_key_id_if_sorted split_def comp_def)

section \<open>Unique readability\<close>

text \<open>
  What the proof needs of \<^verbatim>\<open>Number::toString\<close> on finite numbers, all documented in ECMA-262: it is
  injective, its result is not empty, and it is written with digits, a point, a sign and an
  exponent letter.
\<close>

definition number_format :: "js_engine \<Rightarrow> bool" where
  "number_format eng \<longleftrightarrow>
     inj (number_to_string eng) \<and>
     (\<forall>r. number_to_string eng r \<noteq> [] \<and> set (number_to_string eng r) \<subseteq> set ''0123456789.e+-'')"

definition num_char :: "char \<Rightarrow> bool" where
  "num_char c \<longleftrightarrow> c \<in> set ''0123456789.e+-''"

text \<open>A text that can follow a value: the end, or one of the closing and separating characters.\<close>

definition delimited :: "string \<Rightarrow> bool" where
  "delimited r \<longleftrightarrow> (case r of [] \<Rightarrow> True | c # _ \<Rightarrow> c \<in> set '',]}'')"

lemma delimited_simps [simp]: "delimited []" "delimited (c # r) \<longleftrightarrow> c \<in> set '',]}''"
  by (auto simp: delimited_def)

lemma takeWhile_num:
  "number_format eng \<Longrightarrow> delimited r \<Longrightarrow> takeWhile num_char (number_to_string eng x @ r) = number_to_string eng x"
proof -
  assume f: "number_format eng" and d: "delimited r"
  have "takeWhile num_char r = []"
    using d by (cases r) (auto simp: num_char_def)
  moreover have "\<forall>c \<in> set (number_to_string eng x). num_char c"
    using f unfolding number_format_def num_char_def by blast
  ultimately show ?thesis by (simp add: takeWhile_append2)
qed

lemma number_unique:
  assumes "number_format eng" "delimited r" "delimited r'"
    and "number_to_string eng x @ r = number_to_string eng y @ r'"
  shows "x = y \<and> r = r'"
proof -
  have "number_to_string eng x = number_to_string eng y"
    using takeWhile_num [OF assms(1,2), of x] takeWhile_num [OF assms(1,3), of y] assms(4) by simp
  then have "x = y" using assms(1) unfolding number_format_def inj_def by blast
  with assms(4) show ?thesis by simp
qed

lemma number_head:
  assumes "number_format eng"
  obtains c t where "number_to_string eng r = c # t" "num_char c"
proof -
  from assms have "number_to_string eng r \<noteq> []" "set (number_to_string eng r) \<subseteq> set ''0123456789.e+-''"
    by (simp_all add: number_format_def)
  then show ?thesis
    using that unfolding num_char_def by (cases "number_to_string eng r") auto
qed

lemma hex_digit_inj: "m < 16 \<Longrightarrow> n < 16 \<Longrightarrow> hex_digit m = hex_digit n \<Longrightarrow> m = n"
  unfolding hex_digit_def by (subst (asm) nth_eq_iff_index_eq) simp_all

lemma quote_char_control:
  assumes "of_char c < (32 :: nat)" "of_char d < (32 :: nat)"
    and "hex_digit (of_char c div 16) = hex_digit (of_char d div 16)"
    and "hex_digit (of_char c mod 16) = hex_digit (of_char d mod 16)"
  shows "c = d"
proof -
  have "of_char c div 16 = (of_char d div 16 :: nat)" "of_char c mod 16 = (of_char d mod 16 :: nat)"
    using assms hex_digit_inj by auto
  then have "of_char c = (of_char d :: nat)" by (metis div_mult_mod_eq)
  then show ?thesis by simp
qed

lemma quote_char_prefix: "quote_char c @ x = quote_char d @ y \<Longrightarrow> c = d \<and> x = y"
  by (auto simp: quote_char_def split: if_splits dest: quote_char_control)

lemma quote_char_head: "CHR 0x22 # t \<noteq> quote_char c" "quote_char c \<noteq> CHR 0x22 # t"
  by (auto simp: quote_char_def split: if_splits)

lemma quote_char_not_Nil [simp]: "quote_char c \<noteq> []"
  by (simp add: quote_char_def)

lemma quoted_body_unique:
  "concat (map quote_char s) @ CHR 0x22 # r = concat (map quote_char s') @ CHR 0x22 # r' \<Longrightarrow> s = s' \<and> r = r'"
proof (induction s arbitrary: s')
  case Nil
  then show ?case
    by (cases s') (auto simp: append_eq_Cons_conv Cons_eq_append_conv quote_char_head)
next
  case (Cons c s)
  show ?case
  proof (cases s')
    case Nil
    with Cons.prems show ?thesis
      by (auto simp: append_eq_Cons_conv quote_char_head)
  next
    case (Cons d t)
    with Cons.prems quote_char_prefix [of c "concat (map quote_char s) @ CHR 0x22 # r" d
        "concat (map quote_char t) @ CHR 0x22 # r'"] Cons.IH [of t]
    show ?thesis by auto
  qed
qed

lemma quote_unique: "quote s @ r = quote s' @ r' \<Longrightarrow> s = s' \<and> r = r'"
  using quoted_body_unique [of s r s' r'] by (simp add: quote_def)

text \<open>A text function whose image can be read back item by item: an item followed by a delimiter
  determines the item and the rest.\<close>

definition readable :: "('a \<Rightarrow> string) \<Rightarrow> 'a \<Rightarrow> 'a set \<Rightarrow> bool" where
  "readable f x ok \<longleftrightarrow>
     (\<forall>y \<in> ok. \<forall>r r'. delimited r \<longrightarrow> delimited r' \<longrightarrow> f x @ r = f y @ r' \<longrightarrow> x = y \<and> r = r')"

definition starts_item :: "string \<Rightarrow> bool" where
  "starts_item s \<longleftrightarrow> s \<noteq> [] \<and> hd s \<notin> set '',]}''"

definition items_tail :: "('a \<Rightarrow> string) \<Rightarrow> 'a list \<Rightarrow> string \<Rightarrow> string" where
  "items_tail f xs r = (if xs = [] then r else CHR '','' # join '','' (map f xs) @ r)"

lemma join_items: "join '','' (map f (x # xs)) @ r = f x @ items_tail f xs r"
  by (cases xs) (auto simp: items_tail_def)

lemma delimited_items_tail: "delimited r \<Longrightarrow> delimited (items_tail f xs r)"
  by (simp add: items_tail_def)

lemma items_unique:
  assumes "\<forall>x \<in> set xs. readable f x (set ys)" "\<forall>x \<in> set xs \<union> set ys. starts_item (f x)"
    and "close \<in> set '']}''"
    and "join '','' (map f xs) @ close # r = join '','' (map f ys) @ close # r'"
  shows "xs = ys \<and> r = r'"
  using assms
proof (induction xs arbitrary: ys)
  case Nil
  show ?case
  proof (cases ys)
    case (Cons y zs)
    with Nil have "close # r = f y @ items_tail f zs (close # r')" "starts_item (f y)"
      using join_items [of f y zs] by auto
    with Nil.prems(3) show ?thesis by (cases "f y") (auto simp: starts_item_def)
  qed (use Nil in auto)
next
  case (Cons x xs)
  have close: "delimited (close # s)" for s using Cons.prems(3) by auto
  show ?case
  proof (cases ys)
    case Nil
    then have "close # r' = f x @ items_tail f xs (close # r)" "starts_item (f x)"
      using Cons.prems join_items [of f x xs "close # r"] by auto
    with Cons.prems(3) show ?thesis by (cases "f x") (auto simp: starts_item_def)
  next
    case ys: (Cons y zs)
    have eq: "f x @ items_tail f xs (close # r) = f y @ items_tail f zs (close # r')"
      using Cons.prems(4) ys join_items [of f x xs "close # r"] join_items [of f y zs "close # r'"] by simp
    have "readable f x (set ys)" "y \<in> set ys" using Cons.prems(1) ys by auto
    with eq have xy: "x = y" and tl: "items_tail f xs (close # r) = items_tail f zs (close # r')"
      unfolding readable_def using delimited_items_tail [OF close] by blast+
    have nc: "close \<noteq> CHR '',''" using Cons.prems(3) by auto
    have "xs = zs \<and> r = r'"
    proof (cases "xs = [] \<or> zs = []")
      case True
      with tl nc show ?thesis by (auto simp: items_tail_def split: if_splits)
    next
      case False
      with tl have "join '','' (map f xs) @ close # r = join '','' (map f zs) @ close # r'"
        by (simp add: items_tail_def)
      moreover have "\<forall>x \<in> set xs. readable f x (set zs)"
        using Cons.prems(1) ys by (auto simp: readable_def)
      ultimately show ?thesis using Cons.IH [of zs] Cons.prems(2,3) ys by auto
    qed
    with xy ys show ?thesis by simp
  qed
qed

text \<open>The first character of a text tells the kind of the value.\<close>

fun val_kind :: "jv \<Rightarrow> nat" where
  "val_kind (JNum r) = 0"
| "val_kind (JBool b) = (if b then 1 else 2)"
| "val_kind (JStr s) = 3"
| "val_kind (JArr xs) = 4"
| "val_kind (JObj m) = 5"
| "val_kind _ = 6"

definition head_kind :: "char \<Rightarrow> nat" where
  "head_kind c =
     (if c = CHR ''t'' then 1 else if c = CHR ''f'' then 2 else if c = CHR 0x22 then 3
      else if c = CHR ''['' then 4 else if c = CHR ''{'' then 5 else if c = CHR ''n'' then 6 else 0)"

lemma num_char_kind: "num_char c \<Longrightarrow> head_kind c = 0 \<and> c \<notin> set '',]}''"
  by (auto simp: num_char_def head_kind_def)

lemma canonicalJson_head:
  assumes "number_format eng"
  obtains c t where "canonicalJson eng v = c # t" "head_kind c = val_kind v" "c \<notin> set '',]}''"
proof (cases v)
  case (JNum r)
  obtain c t where "number_to_string eng r = c # t" "num_char c" by (rule number_head [OF assms])
  with JNum num_char_kind show ?thesis by (intro that [of c t]) auto
next
  case (JBool b)
  then show ?thesis using that by (cases b) (auto simp: head_kind_def)
qed (use that in \<open>simp_all add: head_kind_def quote_def\<close>)

lemma starts_item_canonicalJson: "number_format eng \<Longrightarrow> starts_item (canonicalJson eng v)"
proof -
  assume "number_format eng"
  then obtain c t where "canonicalJson eng v = c # t" "c \<notin> set '',]}''" by (rule canonicalJson_head)
  then show ?thesis by (simp add: starts_item_def)
qed

lemma canonicalJson_same_kind:
  assumes "number_format eng" "canonicalJson eng v @ r = canonicalJson eng w @ r'"
  shows "val_kind v = val_kind w"
proof -
  obtain c t where v: "canonicalJson eng v = c # t" "head_kind c = val_kind v"
    by (rule canonicalJson_head [OF assms(1)])
  obtain d u where w: "canonicalJson eng w = d # u" "head_kind d = val_kind w"
    by (rule canonicalJson_head [OF assms(1)])
  from assms(2) v w show ?thesis by simp
qed

definition entry_text :: "js_engine \<Rightarrow> string \<times> jv \<Rightarrow> string" where
  "entry_text eng p = quote (fst p) @ '':'' @ canonicalJson eng (snd p)"

lemma canonicalJson_obj_text:
  "normal (JObj m) \<Longrightarrow> canonicalJson eng (JObj m) = ''{'' @ join '','' (map (entry_text eng) m) @ ''}''"
  by (simp only: canonicalJson_normal_obj normal.simps entry_text_def [abs_def] split_def)

lemma readable_entry:
  assumes "readable (canonicalJson eng) v {w. normal w}"
  shows "readable (entry_text eng) (k, v) {p. normal (snd p)}"
  unfolding readable_def
proof (intro ballI allI impI)
  fix y r r'
  assume y: "y \<in> {p. normal (snd p)}" and d: "delimited r" "delimited r'"
    and eq: "entry_text eng (k, v) @ r = entry_text eng y @ r'"
  have "k = fst y \<and> '':'' @ canonicalJson eng v @ r = '':'' @ canonicalJson eng (snd y) @ r'"
    by (rule quote_unique) (use eq in \<open>simp add: entry_text_def\<close>)
  then have k: "k = fst y" and eqv: "canonicalJson eng v @ r = canonicalJson eng (snd y) @ r'" by simp_all
  have "v = snd y \<and> r = r'"
    using assms y d eqv unfolding readable_def by blast
  with k show "(k, v) = y \<and> r = r'" by (cases y) simp
qed

lemma val_kindE:
  "0 = val_kind w \<Longrightarrow> (\<And>y. w = JNum y \<Longrightarrow> P) \<Longrightarrow> P"
  "3 = val_kind w \<Longrightarrow> (\<And>s. w = JStr s \<Longrightarrow> P) \<Longrightarrow> P"
  "4 = val_kind w \<Longrightarrow> (\<And>xs. w = JArr xs \<Longrightarrow> P) \<Longrightarrow> P"
  "5 = val_kind w \<Longrightarrow> (\<And>m. w = JObj m \<Longrightarrow> P) \<Longrightarrow> P"
  by (cases w; simp split: if_splits)+

lemma val_kind_const:
  "normal w \<Longrightarrow> 6 = val_kind w \<Longrightarrow> w = JNull"
  "(if b then 1 else 2) = val_kind w \<Longrightarrow> w = JBool b"
  by (cases w; simp split: if_splits)+

lemma starts_item_entry: "starts_item (entry_text eng p)"
  by (simp add: starts_item_def entry_text_def quote_def)

lemma readable_subset: "readable f x B \<Longrightarrow> A \<subseteq> B \<Longrightarrow> readable f x A"
  by (auto simp: readable_def)

lemma canonicalJson_readable:
  assumes fmt: "number_format eng"
  shows "normal v \<Longrightarrow> readable (canonicalJson eng) v {w. normal w}"
proof (induction v)
  case (JNum x)
  show ?case
    unfolding readable_def
  proof (intro ballI allI impI)
    fix w r r'
    assume d: "delimited r" "delimited r'" and eq: "canonicalJson eng (JNum x) @ r = canonicalJson eng w @ r'"
    obtain y where "w = JNum y"
      using canonicalJson_same_kind [OF fmt eq] val_kindE(1) by (metis val_kind.simps(1))
    with number_unique [OF fmt d, of x y] eq show "JNum x = w \<and> r = r'" by simp
  qed
next
  case (JArr xs)
  show ?case
    unfolding readable_def
  proof (intro ballI allI impI)
    fix w r r'
    assume nw: "w \<in> {w. normal w}" and eq: "canonicalJson eng (JArr xs) @ r = canonicalJson eng w @ r'"
    obtain ys where w: "w = JArr ys"
      using canonicalJson_same_kind [OF fmt eq] val_kindE(3) by (metis val_kind.simps(4))
    have "\<forall>x \<in> set xs. readable (canonicalJson eng) x (set ys)"
      using JArr nw w by (auto simp: list_all_iff intro: readable_subset)
    moreover have "\<forall>x \<in> set xs \<union> set ys. starts_item (canonicalJson eng x)"
      using starts_item_canonicalJson [OF fmt] by blast
    ultimately have "xs = ys \<and> r = r'"
      by (rule items_unique [where close = "CHR '']''"]) (use eq w in simp_all)
    with w show "JArr xs = w \<and> r = r'" by simp
  qed
next
  case (JObj m)
  show ?case
    unfolding readable_def
  proof (intro ballI allI impI)
    fix w r r'
    assume nw: "w \<in> {w. normal w}" and eq: "canonicalJson eng (JObj m) @ r = canonicalJson eng w @ r'"
    obtain ms where w: "w = JObj ms"
      using canonicalJson_same_kind [OF fmt eq] val_kindE(4) by (metis val_kind.simps(5))
    have "readable (entry_text eng) p (set ms)" if "p \<in> set m" for p
    proof -
      have "normal (snd p)" using JObj.prems that by (auto simp: list_all_iff)
      then have "readable (canonicalJson eng) (snd p) {w. normal w}"
        using JObj.IH [OF that, of "snd p"] by (cases p) auto
      then have "readable (entry_text eng) (fst p, snd p) {q. normal (snd q)}" by (rule readable_entry)
      moreover have "set ms \<subseteq> {q. normal (snd q)}" using nw w by (auto simp: list_all_iff)
      ultimately show ?thesis using readable_subset by auto
    qed
    moreover have "join '','' (map (entry_text eng) m) @ CHR ''}'' # r = join '','' (map (entry_text eng) ms) @ CHR ''}'' # r'"
      using eq w canonicalJson_obj_text [OF JObj.prems] canonicalJson_obj_text [of ms] nw by simp
    ultimately have "m = ms \<and> r = r'"
      using items_unique [of m "entry_text eng" ms "CHR ''}''" r r'] starts_item_entry by simp
    with w show "JObj m = w \<and> r = r'" by simp
  qed
next
  case (JStr s)
  show ?case
    unfolding readable_def
  proof (intro ballI allI impI)
    fix w r r'
    assume eq: "canonicalJson eng (JStr s) @ r = canonicalJson eng w @ r'"
    obtain s' where "w = JStr s'"
      using canonicalJson_same_kind [OF fmt eq] val_kindE(2) by (metis val_kind.simps(3))
    with quote_unique [of s r s' r'] eq show "JStr s = w \<and> r = r'" by simp
  qed
next
  case (JBool b)
  show ?case
    unfolding readable_def
  proof (intro ballI allI impI)
    fix w r r'
    assume eq: "canonicalJson eng (JBool b) @ r = canonicalJson eng w @ r'"
    have "w = JBool b"
      using canonicalJson_same_kind [OF fmt eq] by (intro val_kind_const) simp
    with eq show "JBool b = w \<and> r = r'" by simp
  qed
next
  case JNull
  show ?case
    unfolding readable_def
  proof (intro ballI allI impI)
    fix w r r'
    assume nw: "w \<in> {w. normal w}" and eq: "canonicalJson eng JNull @ r = canonicalJson eng w @ r'"
    have "w = JNull"
      using canonicalJson_same_kind [OF fmt eq] nw by (intro val_kind_const) simp_all
    with eq show "JNull = w \<and> r = r'" by simp
  qed
qed simp_all

text \<open>On JSON data the canonical text determines the value up to key order.\<close>

lemma canonicalJson_eq_iff:
  assumes "number_format eng" "json_data v" "json_data w"
  shows "canonicalJson eng v = canonicalJson eng w \<longleftrightarrow> sort_keys v = sort_keys w"
proof
  assume "canonicalJson eng v = canonicalJson eng w"
  then have "canonicalJson eng (sort_keys v) @ [] = canonicalJson eng (sort_keys w) @ []"
    by (simp add: canonicalJson_sort_keys)
  moreover have "readable (canonicalJson eng) (sort_keys v) {w. normal w}"
    using assms canonicalJson_readable normal_sort_keys by blast
  ultimately show "sort_keys v = sort_keys w"
    unfolding readable_def using normal_sort_keys [OF assms(3)] delimited_simps(1) by blast
next
  assume "sort_keys v = sort_keys w"
  then show "canonicalJson eng v = canonicalJson eng w" using canonicalJson_sort_keys [of eng v] canonicalJson_sort_keys [of eng w] by simp
qed
section \<open>A concrete engine\<close>

text \<open>An engine for evaluating the model on concrete inputs: numbers print as numerator and denominator
  around an exponent letter, and the digest is constant. It meets \<open>number_format\<close>.\<close>

definition print_rat :: "rat \<Rightarrow> string" where
  "print_rat r = (case quotient_of r of (p, q) \<Rightarrow>
     (if p < 0 then ''-'' else []) @ dec_string (nat \<bar>p\<bar>) @ ''e'' @ dec_string (nat q))"

definition sample_engine :: js_engine where
  "sample_engine = \<lparr>number_to_string = print_rat, string_to_number = (\<lambda>_. None),
     sha256_hex = (\<lambda>_. replicate 64 CHR ''0'')\<rparr>"

lemma dec_string_chars: "c \<in> set (dec_string n) \<Longrightarrow> c \<in> set ''0123456789''"
  using dec_string_digits [of c n] unfolding digit_char_def by simp

lemma split_at_char_unique:
  assumes "c \<notin> set x" "c \<notin> set x'" "x @ c # y = x' @ c # y'"
  shows "x = x' \<and> y = y'"
  using assms by (induction x arbitrary: x') (auto simp: Cons_eq_append_conv append_eq_Cons_conv)

lemma print_rat_inj: "inj print_rat"
proof (rule injI)
  fix r s
  assume eq: "print_rat r = print_rat s"
  obtain p q where r: "quotient_of r = (p, q)" by (cases "quotient_of r")
  obtain p' q' where s: "quotient_of s = (p', q')" by (cases "quotient_of s")
  have e: "CHR ''e'' \<notin> set (dec_string n)" "CHR ''-'' \<notin> set (dec_string n)" for n
    using dec_string_chars [of _ n] by fastforce+
  define x where "x = (if p < 0 then ''-'' else []) @ dec_string (nat \<bar>p\<bar>)"
  define x' where "x' = (if p' < 0 then ''-'' else []) @ dec_string (nat \<bar>p'\<bar>)"
  have nx: "CHR ''e'' \<notin> set x" "CHR ''e'' \<notin> set x'" using e(1) by (simp_all add: x_def x'_def)
  have "x @ CHR ''e'' # dec_string (nat q) = x' @ CHR ''e'' # dec_string (nat q')"
    using eq r s by (simp add: print_rat_def x_def x'_def)
  from split_at_char_unique [OF nx this] have 1: "x = x'" and 2: "dec_string (nat q) = dec_string (nat q')" by auto
  from 2 have "nat q = nat q'" by simp
  then have q: "q = q'" using quotient_of_denom_pos [OF r] quotient_of_denom_pos [OF s] by simp
  have hd: "dec_string n = CHR ''-'' # t \<Longrightarrow> False" for n t using e(2) [of n] by simp
  have hd': "CHR ''-'' # t = dec_string n \<Longrightarrow> False" for n t using hd [of n t] by simp
  from 1 have "dec_string (nat \<bar>p\<bar>) = dec_string (nat \<bar>p'\<bar>) \<and> (p < 0 \<longleftrightarrow> p' < 0)"
    unfolding x_def x'_def by (cases "p < 0"; cases "p' < 0") (use hd hd' in simp_all)
  then have "p = p'" by (auto simp: eq_nat_nat_iff split: if_splits)
  with q r s show "r = s" by (metis quotient_of_inject)
qed

lemma number_format_sample: "number_format sample_engine"
proof -
  have "set (print_rat r) \<subseteq> set ''0123456789.e+-''" for r
    using dec_string_chars by (fastforce simp: print_rat_def split: prod.splits if_splits)
  moreover have "print_rat r \<noteq> []" for r by (simp add: print_rat_def split: prod.splits)
  ultimately show ?thesis
    using print_rat_inj unfolding number_format_def sample_engine_def by simp
qed

end
