(* ===== verification/Harness_Lifecycle.thy ===== *)
theory Harness_Lifecycle
  imports GJC_Prelude
begin

text \<open>
  The vocabulary, the lifecycle state machine, the recovery classifier and the owner
  reconciliation of the harness control plane
  (\<^verbatim>\<open>packages/coding-agent/src/harness-control-plane/\<close>: \<^verbatim>\<open>types.ts\<close>, \<^verbatim>\<open>state-machine.ts\<close>,
  \<^verbatim>\<open>classifier.ts\<close>, \<^verbatim>\<open>seams.ts\<close>, \<^verbatim>\<open>lifecycle-reconciliation.ts\<close>).

  String-literal unions become datatypes, with a \<open>_name\<close> function giving the literal where
  the source interpolates it into a message. A comment before each definition names the
  source lines it translates.
\<close>

section \<open>Vocabulary\<close>

(* coding-agent/src/harness-control-plane/types.ts:13-14 Harness *)
datatype harness = GajaeCode | Codex | Omx

(* coding-agent/src/harness-control-plane/types.ts:16-17 SessionMode *)
datatype session_mode = Implement | Review

(* coding-agent/src/harness-control-plane/types.ts:19-20 ReviewVerdict *)
datatype review_verdict = APPROVE_MERGE_READY | REQUEST_CHANGES | OWNER_CONFIRMATION_REQUIRED

(* coding-agent/src/harness-control-plane/types.ts:59-70 HarnessLifecycle *)
datatype lifecycle =
    New | Started | Submitted | Observing | Recovering | Validating | Finalizing
  | Completed | Blocked | Retired

(* coding-agent/src/harness-control-plane/types.ts:72-73 Severity *)
datatype severity = Info | Warn | Critical

(* coding-agent/src/harness-control-plane/types.ts:75-76 GitDelta *)
datatype git_delta = Clean | Dirty | ZeroDelta | UnknownDelta

(* coding-agent/src/harness-control-plane/types.ts:78-79 RiskKind *)
datatype risk_kind = NormalRisk | PromptNotAccepted | DeletedWorktree | VanishedDirty

(* coding-agent/src/harness-control-plane/types.ts:81-89 RecoveryClassification *)
datatype recovery_classification =
    Continue | SendEnter | ReinjectPrompt | RestartClean | RestartPreserveDelta
  | FallbackCodexExec | HumanCheck

(* coding-agent/src/harness-control-plane/types.ts:91-99 ReceiptFamily *)
datatype receipt_family =
    VanishFamily | PromptAcceptanceFamily | ValidationFamily | CompletionFamily
  | ReviewVerdictFamily | ReviewFailureFamily | PhaseRollupFamily

(* coding-agent/src/harness-control-plane/types.ts:101-113 HarnessVerb *)
datatype harness_verb =
    Start | Submit | Observe | Classify | Recover | Validate | Finalize | Retire | Events
  | Monitor | Operate

(* coding-agent/src/harness-control-plane/types.ts:60-70 HarnessLifecycle *)
fun lifecycle_name :: "lifecycle \<Rightarrow> string" where
  "lifecycle_name New = ''new''"
| "lifecycle_name Started = ''started''"
| "lifecycle_name Submitted = ''submitted''"
| "lifecycle_name Observing = ''observing''"
| "lifecycle_name Recovering = ''recovering''"
| "lifecycle_name Validating = ''validating''"
| "lifecycle_name Finalizing = ''finalizing''"
| "lifecycle_name Completed = ''completed''"
| "lifecycle_name Blocked = ''blocked''"
| "lifecycle_name Retired = ''retired''"

(* coding-agent/src/harness-control-plane/types.ts:76-76 GitDelta *)
fun git_delta_name :: "git_delta \<Rightarrow> string" where
  "git_delta_name Clean = ''clean''"
| "git_delta_name Dirty = ''dirty''"
| "git_delta_name ZeroDelta = ''zero-delta''"
| "git_delta_name UnknownDelta = ''unknown''"

(* coding-agent/src/harness-control-plane/types.ts:82-89 RecoveryClassification *)
fun classification_name :: "recovery_classification \<Rightarrow> string" where
  "classification_name Continue = ''continue''"
| "classification_name SendEnter = ''send-enter''"
| "classification_name ReinjectPrompt = ''reinject-prompt''"
| "classification_name RestartClean = ''restart-clean''"
| "classification_name RestartPreserveDelta = ''restart-preserve-delta''"
| "classification_name FallbackCodexExec = ''fallback-codex-exec''"
| "classification_name HumanCheck = ''human-check''"

(* coding-agent/src/harness-control-plane/types.ts:92-99 ReceiptFamily *)
fun family_name :: "receipt_family \<Rightarrow> string" where
  "family_name VanishFamily = ''vanish''"
| "family_name PromptAcceptanceFamily = ''prompt-acceptance''"
| "family_name ValidationFamily = ''validation''"
| "family_name CompletionFamily = ''completion''"
| "family_name ReviewVerdictFamily = ''review-verdict''"
| "family_name ReviewFailureFamily = ''review-failure''"
| "family_name PhaseRollupFamily = ''phase-rollup''"

(* coding-agent/src/harness-control-plane/types.ts:22-26 REVIEW_VERDICTS *)
fun verdict_name :: "review_verdict \<Rightarrow> string" where
  "verdict_name APPROVE_MERGE_READY = ''APPROVE_MERGE_READY''"
| "verdict_name REQUEST_CHANGES = ''REQUEST_CHANGES''"
| "verdict_name OWNER_CONFIRMATION_REQUIRED = ''OWNER_CONFIRMATION_REQUIRED''"

(* coding-agent/src/harness-control-plane/types.ts:22-26 REVIEW_VERDICTS *)
definition REVIEW_VERDICTS :: "review_verdict list" where
  "REVIEW_VERDICTS = [APPROVE_MERGE_READY, REQUEST_CHANGES, OWNER_CONFIRMATION_REQUIRED]"

text \<open>
  The type guard \<^verbatim>\<open>isReviewVerdict\<close> both tests membership in the vocabulary and narrows
  the type, so it is modelled as the partial map from strings to verdicts.
\<close>

(* coding-agent/src/harness-control-plane/types.ts:28-30 isReviewVerdict *)
definition isReviewVerdict :: "string \<Rightarrow> review_verdict option" where
  "isReviewVerdict s = find (\<lambda>v. verdict_name v = s) REVIEW_VERDICTS"

(* coding-agent/src/harness-control-plane/types.ts:118-124 NextAllowedAction *)
record next_allowed_action =
  na_verb :: harness_verb
  na_available :: bool
  na_reason :: "string option"

(* coding-agent/src/harness-control-plane/types.ts:126-133 SessionStateView *)
record session_state_view =
  v_sessionId :: string
  v_lifecycle :: lifecycle
  v_harness :: harness
  v_ownerLive :: bool
  v_blockers :: "string list"

(* coding-agent/src/harness-control-plane/types.ts:146-164 SessionHandle *)
record session_handle =
  h_sessionId :: string
  h_harness :: harness
  h_mode :: "session_mode option"
  h_repo :: "string option"
  h_workspace :: string
  h_branch :: "string option"
  h_base :: "string option"
  h_issueOrPr :: "string option"
  h_ownerId :: "string option"
  h_pid :: "int option"
  h_leasePath :: string
  h_endpoint :: "string option"
  h_heartbeatAt :: "string option"
  h_policy :: string
  h_eventsPath :: string
  h_tmuxSessionName :: "string option"
  h_startedAt :: string
  h_updatedAt :: string

(* coding-agent/src/harness-control-plane/types.ts:166-178 SessionState *)
record session_state =
  s_schemaVersion :: int
  s_sessionId :: string
  s_lifecycle :: lifecycle
  s_harness :: harness
  s_handle :: session_handle
  s_retries :: "(string, int) jsmap"
  s_blockers :: "string list"
  s_createdAt :: string
  s_updatedAt :: string

(* coding-agent/src/harness-control-plane/types.ts:199-217 Observation *)
record observation =
  o_lifecycle :: lifecycle
  o_ownerLive :: bool
  o_cwd :: string
  o_branch :: "string option"
  o_gitDelta :: git_delta
  o_lastActivityAt :: "string option"
  o_observedSignals :: "string list"
  o_risk :: risk_kind
  o_rpcLive :: "bool option"
  o_rpcLastFrameAt :: "string option"
  o_readyForSubmit :: "bool option"
  o_submitUnavailableReason :: "string option"

(* coding-agent/src/harness-control-plane/types.ts:228-234 RetryBudget *)
record retry_budget =
  b_reinjectPrompt :: int
  b_zeroDeltaVanish :: int
  b_dirtyVanishPreserve :: int
  b_validationRepair :: int

(* coding-agent/src/harness-control-plane/types.ts:219-226 ClassifyInput *)
record classify_input =
  ci_observation :: observation
  ci_retryBudget :: retry_budget
  ci_acceptedPromptActive :: "bool option"

(* coding-agent/src/harness-control-plane/types.ts:236-245 RecoveryDecision *)
record recovery_decision =
  d_classification :: recovery_classification
  d_reason :: string
  d_severity :: severity
  d_ownerRequired :: bool
  d_requiredReceiptFamily :: "receipt_family option"

(* coding-agent/src/harness-control-plane/types.ts:262-267 DEFAULT_RETRY_BUDGET *)
definition DEFAULT_RETRY_BUDGET :: retry_budget where
  "DEFAULT_RETRY_BUDGET =
     \<lparr> b_reinjectPrompt = 2, b_zeroDeltaVanish = 1, b_dirtyVanishPreserve = 1,
       b_validationRepair = 2 \<rparr>"

section \<open>Extracting a review verdict from free text\<close>

text \<open>
  The pattern \<^verbatim>\<open>\b(T1|T2|...)\b\<close> with the \<^verbatim>\<open>g\<close> flag, run over the text by
  \<^verbatim>\<open>matchAll\<close>. A word boundary \<^verbatim>\<open>\b\<close> holds between a word character (ASCII letter, digit
  or underscore) and a non-word character or an end of the text. At each position the
  alternatives are tried in order and backtracking takes the first one after which the
  closing boundary holds; the scan continues behind a match, and one character further
  where nothing matches.
\<close>

definition at_word :: "string \<Rightarrow> bool" where
  "at_word s \<longleftrightarrow> (case s of [] \<Rightarrow> False | c # _ \<Rightarrow> word_char c)"

(* coding-agent/src/harness-control-plane/types.ts:32-38 VERDICT_ALIASES *)
definition VERDICT_ALIASES :: "(string, review_verdict) jsmap" where
  "VERDICT_ALIASES = [(''MERGE_READY'', APPROVE_MERGE_READY)]"

definition verdict_tokens :: "string list" where
  "verdict_tokens = map verdict_name REVIEW_VERDICTS @ map fst VERDICT_ALIASES"

definition match_token :: "string \<Rightarrow> string option" where
  "match_token s = find (\<lambda>t. prefix t s \<and> \<not> at_word (drop (length t) s)) verdict_tokens"

lemma match_token_SomeD: "match_token s = Some t \<Longrightarrow> t \<in> set verdict_tokens \<and> prefix t s"
  by (auto simp: match_token_def find_Some_iff in_set_conv_nth)

lemma verdict_tokens_not_Nil: "t \<in> set verdict_tokens \<Longrightarrow> t \<noteq> []"
  by (auto simp: verdict_tokens_def REVIEW_VERDICTS_def VERDICT_ALIASES_def)

lemma match_token_pos: "match_token s = Some t \<Longrightarrow> 0 < length t"
  using match_token_SomeD verdict_tokens_not_Nil by blast

function scan_tokens :: "bool \<Rightarrow> string \<Rightarrow> string list" where
  "scan_tokens after_word [] = []"
| "scan_tokens after_word (c # cs) =
     (case (if after_word then None else match_token (c # cs)) of
        Some t \<Rightarrow> t # scan_tokens True (drop (length t) (c # cs))
      | None \<Rightarrow> scan_tokens (word_char c) cs)"
  by pat_completeness auto
termination
  by (relation "measure (\<lambda>(b, s). length s)")
    (auto dest!: match_token_pos split: if_splits)

(* coding-agent/src/harness-control-plane/types.ts:40-57 extractReviewVerdict *)
definition extractReviewVerdict :: "string option \<Rightarrow> review_verdict option" where
  "extractReviewVerdict txt =
     (case txt of
        None \<Rightarrow> None
      | Some s \<Rightarrow>
          if s = [] then None
          else foldl (\<lambda>lst token.
                 case map_of VERDICT_ALIASES token of
                   Some v \<Rightarrow> Some v
                 | None \<Rightarrow> isReviewVerdict token) None (scan_tokens False s))"

section \<open>The lifecycle state machine\<close>

(* coding-agent/src/harness-control-plane/state-machine.ts:10-10 TERMINAL_LIFECYCLES *)
definition TERMINAL_LIFECYCLES :: "lifecycle list" where
  "TERMINAL_LIFECYCLES = [Completed, Retired]"

(* coding-agent/src/harness-control-plane/state-machine.ts:11-11 SUBMIT_READY_LIFECYCLES *)
definition SUBMIT_READY_LIFECYCLES :: "lifecycle list" where
  "SUBMIT_READY_LIFECYCLES = [Started, Observing]"

(* coding-agent/src/harness-control-plane/state-machine.ts:13-24 TRANSITIONS *)
fun TRANSITIONS :: "lifecycle \<Rightarrow> lifecycle list" where
  "TRANSITIONS New = [Started, Blocked, Retired]"
| "TRANSITIONS Started = [Submitted, Observing, Recovering, Blocked, Retired]"
| "TRANSITIONS Submitted = [Observing, Recovering, Validating, Blocked, Retired]"
| "TRANSITIONS Observing = [Submitted, Recovering, Validating, Finalizing, Blocked, Retired]"
| "TRANSITIONS Recovering = [Started, Submitted, Observing, Blocked, Retired]"
| "TRANSITIONS Validating = [Finalizing, Observing, Blocked, Retired]"
| "TRANSITIONS Finalizing = [Completed, Blocked, Retired]"
| "TRANSITIONS Completed = [Retired]"
| "TRANSITIONS Blocked = [Started, Submitted, Observing, Recovering, Validating, Retired]"
| "TRANSITIONS Retired = []"

(* coding-agent/src/harness-control-plane/state-machine.ts:26-28 isTerminal *)
definition isTerminal :: "lifecycle \<Rightarrow> bool" where
  "isTerminal l \<longleftrightarrow> l \<in> set TERMINAL_LIFECYCLES"

(* coding-agent/src/harness-control-plane/state-machine.ts:30-32 canTransition *)
definition canTransition :: "lifecycle \<Rightarrow> lifecycle \<Rightarrow> bool" where
  "canTransition from to' \<longleftrightarrow> to' \<in> set (TRANSITIONS from)"

(* coding-agent/src/harness-control-plane/state-machine.ts:34-39 assertTransition *)
definition assertTransition :: "lifecycle \<Rightarrow> lifecycle \<Rightarrow> (string, unit) outcome" where
  "assertTransition from to' =
     (if from = to' then Inr ()
      else if \<not> canTransition from to'
      then Inl (''invalid_transition:'' @ lifecycle_name from @ ''->'' @ lifecycle_name to')
      else Inr ())"

(* coding-agent/src/harness-control-plane/state-machine.ts:46-56 submitUnavailableReason *)
definition submitUnavailableReason :: "lifecycle \<Rightarrow> bool \<Rightarrow> string option \<Rightarrow> string option" where
  "submitUnavailableReason l ownerLive gateReason =
     (if isTerminal l then Some (''lifecycle-terminal:'' @ lifecycle_name l)
      else if l = Blocked then Some ''lifecycle-blocked''
      else if l \<notin> set SUBMIT_READY_LIFECYCLES then Some (''lifecycle-not-idle:'' @ lifecycle_name l)
      else if \<not> ownerLive then Some ''owner-not-live''
      else gateReason)"

text \<open>The local closure \<^verbatim>\<open>add\<close> of \<^verbatim>\<open>nextAllowedActions\<close>: the action it pushes.\<close>

definition action :: "harness_verb \<Rightarrow> bool \<Rightarrow> string option \<Rightarrow> next_allowed_action" where
  "action verb available reason =
     (if available then \<lparr> na_verb = verb, na_available = available, na_reason = None \<rparr>
      else \<lparr> na_verb = verb, na_available = available,
             na_reason = Some (case reason of None \<Rightarrow> ''unavailable'' | Some r \<Rightarrow> r) \<rparr>)"

(* coding-agent/src/harness-control-plane/state-machine.ts:58-97 nextAllowedActions *)
definition nextAllowedActions :: "lifecycle \<Rightarrow> bool \<Rightarrow> string option \<Rightarrow> next_allowed_action list" where
  "nextAllowedActions l ownerLive gateReason =
     (let terminal = isTerminal l;
          submitReason = submitUnavailableReason l ownerLive gateReason;
          terminalReason = (if terminal then Some (''lifecycle-terminal:'' @ lifecycle_name l) else None)
      in [action Observe True None,
          action Classify True None,
          action Events True None,
          action Monitor True None,
          action Start False (Some ''session-already-exists''),
          action Submit (submitReason = None) submitReason,
          action Recover (\<not> terminal) terminalReason,
          action Validate (\<not> terminal) terminalReason,
          action Finalize (\<not> terminal) terminalReason,
          action Retire (l \<noteq> Retired) (if l = Retired then Some ''already-retired'' else None)])"

(* coding-agent/src/harness-control-plane/state-machine.ts:99-107 buildStateView *)
definition buildStateView :: "session_state \<Rightarrow> bool \<Rightarrow> session_state_view" where
  "buildStateView st ownerLive =
     \<lparr> v_sessionId = s_sessionId st, v_lifecycle = s_lifecycle st, v_harness = s_harness st,
       v_ownerLive = ownerLive, v_blockers = s_blockers st \<rparr>"

(* coding-agent/src/harness-control-plane/types.ts:135-144 PrimitiveResponse *)
record 'e primitive_response =
  pr_ok :: bool
  pr_state :: session_state_view
  pr_evidence :: 'e
  pr_nextAllowedActions :: "next_allowed_action list"

(* coding-agent/src/harness-control-plane/state-machine.ts:109-119 buildResponse *)
definition buildResponse :: "session_state \<Rightarrow> bool \<Rightarrow> 'e \<Rightarrow> bool \<Rightarrow> 'e primitive_response" where
  "buildResponse st ownerLive evidence ok =
     \<lparr> pr_ok = ok, pr_state = buildStateView st ownerLive, pr_evidence = evidence,
       pr_nextAllowedActions = nextAllowedActions (s_lifecycle st) ownerLive None \<rparr>"

section \<open>The recovery classifier\<close>

text \<open>One decision record; the fields in the order of the object literals of the source.\<close>

definition decision ::
  "recovery_classification \<Rightarrow> string \<Rightarrow> severity \<Rightarrow> bool \<Rightarrow> receipt_family option \<Rightarrow> recovery_decision" where
  "decision c r sev own fam =
     \<lparr> d_classification = c, d_reason = r, d_severity = sev, d_ownerRequired = own,
       d_requiredReceiptFamily = fam \<rparr>"

(* coding-agent/src/harness-control-plane/classifier.ts:14-127 classifyRecovery *)
definition classifyRecovery :: "classify_input \<Rightarrow> recovery_decision" where
  "classifyRecovery inp =
     (let ob = ci_observation inp; budget = ci_retryBudget inp in
      if o_risk ob = DeletedWorktree then
        decision HumanCheck ''deleted-worktree-or-path-mismatch'' Critical False (Some VanishFamily)
      else if o_ownerLive ob then
        (if o_risk ob = PromptNotAccepted then
           (if b_reinjectPrompt budget > 0 then
              decision ReinjectPrompt ''prompt-ack-without-agent-start'' Warn True
                (Some PromptAcceptanceFamily)
            else decision HumanCheck ''prompt-not-accepted-budget-exhausted'' Critical False None)
         else if ''validation-failed'' \<in> set (o_observedSignals ob) then
           (if b_validationRepair budget > 0 then
              decision Continue ''validation-failed-repair-budget-remains'' Warn True
                (Some ValidationFamily)
            else decision HumanCheck ''validation-failed-budget-exhausted'' Critical False
                   (Some ValidationFamily))
         else decision Continue ''owner-live-active'' Info True None)
      else
        (case o_gitDelta ob of
           Dirty \<Rightarrow>
             (if b_dirtyVanishPreserve budget > 0 then
                decision RestartPreserveDelta ''owner-vanished-dirty-delta'' Critical True (Some VanishFamily)
              else decision FallbackCodexExec ''dirty-vanish-preserve-budget-exhausted'' Critical True
                     (Some VanishFamily))
         | ZeroDelta \<Rightarrow>
             (if b_zeroDeltaVanish budget > 0 then
                decision RestartClean ''owner-vanished-zero-delta'' Warn True (Some VanishFamily)
              else decision FallbackCodexExec ''zero-delta-vanish-budget-exhausted'' Critical True
                     (Some VanishFamily))
         | Clean \<Rightarrow> decision RestartClean ''owner-vanished-clean'' Warn True (Some VanishFamily)
         | UnknownDelta \<Rightarrow>
             decision HumanCheck ''owner-vanished-unknown-delta'' Critical False (Some VanishFamily)))"

section \<open>Seams\<close>

(* coding-agent/src/harness-control-plane/seams.ts:8-8 SUPPORTED_HARNESSES *)
definition SUPPORTED_HARNESSES :: "harness list" where
  "SUPPORTED_HARNESSES = [GajaeCode]"

(* coding-agent/src/harness-control-plane/types.ts:14-14 Harness *)
fun harness_name :: "harness \<Rightarrow> string" where
  "harness_name GajaeCode = ''gajae-code''"
| "harness_name Codex = ''codex''"
| "harness_name Omx = ''omx''"

(* coding-agent/src/harness-control-plane/seams.ts:23-25 isHarnessSupported *)
definition isHarnessSupported :: "string \<Rightarrow> bool" where
  "isHarnessSupported h \<longleftrightarrow> h \<in> set (map harness_name SUPPORTED_HARNESSES)"

section \<open>Reconciling the stored lifecycle with the observed owner\<close>

(* coding-agent/src/harness-control-plane/lifecycle-reconciliation.ts:3-3 OWNER_STARTUP_BLOCKER *)
definition OWNER_STARTUP_BLOCKER :: string where
  "OWNER_STARTUP_BLOCKER = ''owner-died-before-first-prompt''"

(* coding-agent/src/harness-control-plane/lifecycle-reconciliation.ts:5-9 CompletedTerminalEvent *)
record completed_terminal_event =
  ct_cursor :: int
  ct_createdAt :: string
  ct_kind :: string

(* coding-agent/src/harness-control-plane/lifecycle-reconciliation.ts:11-13 isOwnerLivenessBlocker *)
definition isOwnerLivenessBlocker :: "string \<Rightarrow> bool" where
  "isOwnerLivenessBlocker b \<longleftrightarrow> b = ''detached-owner-not-live'' \<or> prefix ''owner-vanished:'' b"

(* coding-agent/src/harness-control-plane/lifecycle-reconciliation.ts:15-25 needsVanishedOwnerBlock *)
definition needsVanishedOwnerBlock ::
  "session_state \<Rightarrow> observation \<Rightarrow> completed_terminal_event option \<Rightarrow> bool" where
  "needsVanishedOwnerBlock st ob terminal \<longleftrightarrow>
     (if o_ownerLive ob \<or> s_lifecycle st \<noteq> Observing then False
      else if terminal \<noteq> None \<or> ''completed'' \<in> set (o_observedSignals ob) then False
      else list_ex (\<lambda>sig. sig = ''prompt-accepted'' \<or> sig = ''tool-call'' \<or> sig = ''streaming'')
             (o_observedSignals ob))"

text \<open>
  Reconciliation mutates the state record and persists it after each of its three
  updates. The model threads the state and the list of states written, oldest first;
  \<open>nowIso i\<close> is the value of the \<open>i\<close>-th clock reading, and each update reads the clock once.
\<close>

definition add_blocker :: "string \<Rightarrow> string list \<Rightarrow> string list" where
  "add_blocker b bs = (if b \<in> set bs then bs else bs @ [b])"

definition persist_update ::
  "lifecycle \<Rightarrow> string list \<Rightarrow> (nat \<Rightarrow> string) \<Rightarrow> session_state \<times> session_state list
   \<Rightarrow> session_state \<times> session_state list" where
  "persist_update l bs nowIso sw =
     (let st = (fst sw)\<lparr> s_lifecycle := l, s_blockers := bs, s_updatedAt := nowIso (length (snd sw)) \<rparr>
      in (st, snd sw @ [st]))"

(* coding-agent/src/harness-control-plane/lifecycle-reconciliation.ts:36-47 reconcileOwnerLifecycle *)
definition reconcile_completion ::
  "observation \<Rightarrow> completed_terminal_event option \<Rightarrow> (nat \<Rightarrow> string)
   \<Rightarrow> session_state \<times> session_state list \<Rightarrow> session_state \<times> session_state list" where
  "reconcile_completion ob terminal nowIso sw =
     (let st = fst sw in
      if terminal \<noteq> None \<and> \<not> o_ownerLive ob \<and> o_gitDelta ob = Clean
         \<and> s_lifecycle st \<noteq> Completed \<and> s_lifecycle st \<noteq> Retired
      then persist_update Completed (filter (\<lambda>b. \<not> isOwnerLivenessBlocker b) (s_blockers st)) nowIso sw
      else sw)"

(* coding-agent/src/harness-control-plane/lifecycle-reconciliation.ts:48-54 reconcileOwnerLifecycle *)
definition reconcile_vanished ::
  "observation \<Rightarrow> completed_terminal_event option \<Rightarrow> (nat \<Rightarrow> string)
   \<Rightarrow> session_state \<times> session_state list \<Rightarrow> session_state \<times> session_state list" where
  "reconcile_vanished ob terminal nowIso sw =
     (let st = fst sw in
      if needsVanishedOwnerBlock st ob terminal
      then persist_update Blocked
             (add_blocker (''owner-vanished:'' @ git_delta_name (o_gitDelta ob)) (s_blockers st)) nowIso sw
      else sw)"

(* coding-agent/src/harness-control-plane/lifecycle-reconciliation.ts:55-62 reconcileOwnerLifecycle *)
definition reconcile_startup ::
  "bool \<Rightarrow> (nat \<Rightarrow> string) \<Rightarrow> session_state \<times> session_state list \<Rightarrow> session_state \<times> session_state list" where
  "reconcile_startup startupBlocked nowIso sw =
     (let st = fst sw in
      if startupBlocked \<and> s_lifecycle st \<noteq> Completed \<and> s_lifecycle st \<noteq> Retired
      then persist_update Blocked (add_blocker OWNER_STARTUP_BLOCKER (s_blockers st)) nowIso sw
      else sw)"

(* coding-agent/src/harness-control-plane/lifecycle-reconciliation.ts:27-64 reconcileOwnerLifecycle *)
definition reconcileOwnerLifecycle ::
  "session_state \<Rightarrow> observation \<Rightarrow> completed_terminal_event option \<Rightarrow> bool \<Rightarrow> (nat \<Rightarrow> string)
   \<Rightarrow> session_state \<times> session_state list" where
  "reconcileOwnerLifecycle st ob terminal startupBlocked nowIso =
     reconcile_startup startupBlocked nowIso
       (reconcile_vanished ob terminal nowIso (reconcile_completion ob terminal nowIso (st, [])))"

section \<open>Verdict extraction takes the last whole-word token\<close>

text \<open>
  The reference: the maximal runs of word characters of a text. The regular expression is
  proved to select exactly the runs that are verdict tokens, in order, so a token glued to
  other word characters (\<^verbatim>\<open>UNAPPROVE_MERGE_READY\<close>) never counts and the last stated
  decision wins.
\<close>

function word_runs :: "string \<Rightarrow> string list" where
  "word_runs s =
     (case dropWhile (\<lambda>c. \<not> word_char c) s of
        [] \<Rightarrow> []
      | c # cs \<Rightarrow> takeWhile word_char (c # cs) # word_runs (dropWhile word_char cs))"
  by pat_completeness auto
termination
proof (relation "measure length", goal_cases)
  case (2 s c cs)
  have "length (dropWhile word_char cs) \<le> length cs" by (rule length_dropWhile_le)
  also have "\<dots> < length (c # cs)" by simp
  also have "\<dots> \<le> length s" using 2 length_dropWhile_le by metis
  finally show ?case by simp
qed simp

declare word_runs.simps [simp del]

lemma verdict_tokens_word: "t \<in> set verdict_tokens \<Longrightarrow> \<forall>c \<in> set t. word_char c"
  by (auto simp: verdict_tokens_def REVIEW_VERDICTS_def VERDICT_ALIASES_def word_char_def)

lemma token_prefix_iff:
  assumes "t \<in> set verdict_tokens"
  shows "prefix t s \<and> \<not> at_word (drop (length t) s) \<longleftrightarrow> t = takeWhile word_char s"
proof
  assume "prefix t s \<and> \<not> at_word (drop (length t) s)"
  then obtain u where "s = t @ u" "\<not> at_word u" by (auto simp: prefix_def)
  with verdict_tokens_word [OF assms] show "t = takeWhile word_char s"
    by (cases u) (auto simp: at_word_def takeWhile_append2 takeWhile_eq_all_conv [THEN iffD2])
next
  assume t: "t = takeWhile word_char s"
  have "drop (length t) s = dropWhile word_char s"
    by (simp add: t dropWhile_eq_drop)
  moreover have "\<not> at_word (dropWhile word_char s)"
    by (induction s) (auto simp: at_word_def)
  ultimately show "prefix t s \<and> \<not> at_word (drop (length t) s)"
    by (simp add: t takeWhile_is_prefix)
qed

lemma match_token_eq:
  "match_token s =
     (if takeWhile word_char s \<in> set verdict_tokens then Some (takeWhile word_char s) else None)"
proof -
  have "find (\<lambda>t. prefix t s \<and> \<not> at_word (drop (length t) s)) xs =
          (if takeWhile word_char s \<in> set xs then Some (takeWhile word_char s) else None)"
    if "set xs \<subseteq> set verdict_tokens" for xs
    using that by (induction xs) (auto simp: token_prefix_iff)
  then show ?thesis by (simp add: match_token_def)
qed

lemma Nil_not_token [simp]: "[] \<notin> set verdict_tokens"
  using verdict_tokens_not_Nil by blast

lemma scan_tokens_after_word: "scan_tokens True s = scan_tokens False (dropWhile word_char s)"
  by (induction s) (auto simp: match_token_eq)

lemma scan_tokens_skip: "scan_tokens False (dropWhile (\<lambda>c. \<not> word_char c) s) = scan_tokens False s"
  by (induction s) (auto simp: match_token_eq)

lemma scan_tokens_at_word:
  assumes "word_char c"
  shows "scan_tokens False (c # cs) =
     filter (\<lambda>w. w \<in> set verdict_tokens) [takeWhile word_char (c # cs)]
       @ scan_tokens False (dropWhile word_char cs)"
  using assms
  by (auto simp: match_token_eq scan_tokens_after_word dropWhile_eq_drop [symmetric] simp flip: dropWhile_eq_drop)

lemma scan_tokens_word_runs:
  "scan_tokens False s = filter (\<lambda>w. w \<in> set verdict_tokens) (word_runs s)"
proof (induction s rule: word_runs.induct)
  case (1 s)
  show ?case
  proof (cases "dropWhile (\<lambda>c. \<not> word_char c) s")
    case Nil
    then have "scan_tokens False s = []" by (metis scan_tokens_skip scan_tokens.simps(1))
    then show ?thesis unfolding word_runs.simps [of s] Nil by simp
  next
    case (Cons c cs)
    then have c: "word_char c" using hd_dropWhile [of "\<lambda>c. \<not> word_char c" s] by auto
    have "scan_tokens False s = scan_tokens False (c # cs)"
      using scan_tokens_skip [of s] Cons by simp
    also have "\<dots> = filter (\<lambda>w. w \<in> set verdict_tokens) [takeWhile word_char (c # cs)]
                   @ filter (\<lambda>w. w \<in> set verdict_tokens) (word_runs (dropWhile word_char cs))"
      using scan_tokens_at_word [OF c] 1 [OF Cons] by simp
    finally show ?thesis unfolding word_runs.simps [of s] Cons by simp
  qed
qed

text \<open>The verdict a token stands for: an alias first, otherwise the canonical spelling.\<close>

definition token_verdict :: "string \<Rightarrow> review_verdict option" where
  "token_verdict t = (case map_of VERDICT_ALIASES t of Some v \<Rightarrow> Some v | None \<Rightarrow> isReviewVerdict t)"

lemma foldl_last: "foldl (\<lambda>_ x. f x) a xs = (if xs = [] then a else f (last xs))"
  by (induction xs arbitrary: a) auto

text \<open>C40. Verdict extraction scans free text with a boundary-guarded alternation; its result is
  the verdict of the last maximal word of the text that is a verdict token, and nothing when
  no such word occurs. Text in which a token is only part of a longer word yields nothing.\<close>

theorem extract_last_whole_word:
  "extractReviewVerdict (Some s) =
     (let ws = filter (\<lambda>w. w \<in> set verdict_tokens) (word_runs s)
      in if ws = [] then None else token_verdict (last ws))"
  by (auto simp: extractReviewVerdict_def scan_tokens_word_runs foldl_last token_verdict_def
      word_runs.simps [of "[]"] Let_def)

section \<open>Runs of the lifecycle\<close>

text \<open>
  A run applies \<^const>\<open>assertTransition\<close> before each move, as the callers of the state
  machine do; the list records the states entered, oldest first.
\<close>

inductive lifecycle_run :: "lifecycle \<Rightarrow> lifecycle list \<Rightarrow> lifecycle \<Rightarrow> bool" where
  run_start: "lifecycle_run l [] l"
| run_step: "lifecycle_run l tr m \<Longrightarrow> assertTransition m n = Inr () \<Longrightarrow> lifecycle_run l (tr @ [n]) n"

inductive_cases lifecycle_run_NilE: "lifecycle_run l [] m"

lemma assertTransition_ok: "assertTransition m n = Inr () \<longleftrightarrow> m = n \<or> n \<in> set (TRANSITIONS m)"
  by (simp add: assertTransition_def canTransition_def)

definition run_inv :: "lifecycle list \<Rightarrow> lifecycle \<Rightarrow> bool" where
  "run_inv tr m \<longleftrightarrow>
     (m = Completed \<longrightarrow> Finalizing \<in> set tr) \<and>
     (Finalizing \<in> set tr \<longrightarrow> Observing \<in> set tr \<or> Validating \<in> set tr) \<and>
     (Validating \<in> set tr \<longrightarrow> Submitted \<in> set tr \<or> Observing \<in> set tr \<or> Blocked \<in> set tr) \<and>
     (Retired \<in> set tr \<longrightarrow> m = Retired) \<and>
     (Completed \<in> set tr \<longrightarrow> m = Completed \<or> m = Retired) \<and>
     (m \<noteq> New \<longrightarrow> m \<in> set tr)"

lemma run_inv_step: "run_inv tr m \<Longrightarrow> n \<in> set (TRANSITIONS m) \<or> m = n \<Longrightarrow> run_inv (tr @ [n]) n"
  by (cases m; cases n) (auto simp: run_inv_def)

lemma lifecycle_run_inv: "lifecycle_run New tr m \<Longrightarrow> run_inv tr m"
proof (induction New tr m rule: lifecycle_run.induct)
  case run_start
  then show ?case by (simp add: run_inv_def)
next
  case (run_step tr m n)
  then show ?case using run_inv_step assertTransition_ok by blast
qed

text \<open>On every run of a fresh session that respects the transition table, completion is
  reached only through \<^const>\<open>Finalizing\<close>, which itself is entered only after the session
  was observed or validated; a completed session can only be retired, and a retired one
  never moves again.\<close>

theorem completion_is_gated:
  assumes "lifecycle_run New tr m"
  shows "(m = Completed \<longrightarrow> Finalizing \<in> set tr \<and> (Observing \<in> set tr \<or> Validating \<in> set tr))
       \<and> (Completed \<in> set tr \<longrightarrow> m \<in> {Completed, Retired}) \<and> (Retired \<in> set tr \<longrightarrow> m = Retired)"
  using lifecycle_run_inv [OF assms] by (auto simp: run_inv_def)

lemma run_snoc:
  "lifecycle_run l tr m \<Longrightarrow> assertTransition m n = Inr () \<Longrightarrow> tr' = tr @ [n] \<Longrightarrow> lifecycle_run l tr' n"
  by (simp add: lifecycle_run.run_step)

lemma run_example: "lifecycle_run New [Started, Observing, Finalizing, Completed] Completed"
  by (rule run_snoc [of _ "[Started, Observing, Finalizing]" Finalizing],
      rule run_snoc [of _ "[Started, Observing]" Observing],
      rule run_snoc [of _ "[Started]" Started],
      rule run_snoc [of _ "[]" New],
      rule lifecycle_run.run_start) (simp_all add: assertTransition_ok)

theorem completion_is_gated_witness:
  "lifecycle_run New [Started, Observing, Finalizing, Completed] Completed
     \<and> Finalizing \<in> set [Started, Observing, Finalizing, Completed]"
  using run_example completion_is_gated [OF run_example] by simp

section \<open>The forcing function\<close>

lemma na_simps [simp]:
  "na_verb (action v a r) = v" "na_available (action v a r) = a"
  by (simp_all add: action_def)

text \<open>Every response lists ten verbs, each once, and every refused verb carries a reason. A prompt
  may be submitted exactly when the session is started or observing, a live owner holds it
  and no gate reason is given; recovery, validation and finalisation are open exactly on
  sessions that are neither completed nor retired; and only retirement is left for a
  completed session besides the four read-only verbs.\<close>

theorem nextAllowedActions_spec:
  "map na_verb (nextAllowedActions l ownerLive gate)
     = [Observe, Classify, Events, Monitor, Start, Submit, Recover, Validate, Finalize, Retire]
   \<and> list_all (\<lambda>a. na_available a = (na_reason a = None)) (nextAllowedActions l ownerLive gate)
   \<and> map na_verb (filter na_available (nextAllowedActions l ownerLive gate)) =
       [Observe, Classify, Events, Monitor]
         @ (if l \<in> {Started, Observing} \<and> ownerLive \<and> gate = None then [Submit] else [])
         @ (if l \<in> {Completed, Retired} then [] else [Recover, Validate, Finalize])
         @ (if l = Retired then [] else [Retire])"
  by (cases l) (simp_all add: nextAllowedActions_def Let_def action_def submitUnavailableReason_def
        isTerminal_def TERMINAL_LIFECYCLES_def SUBMIT_READY_LIFECYCLES_def)

section \<open>The classifier never loses data\<close>

lemmas classifier_defs = classifyRecovery_def decision_def Let_def

text \<open>The data-loss rule of the recovery classifier, as an exact characterisation: a clean
  restart is chosen only for a vanished owner whose worktree exists and whose delta is clean
  or zero with budget left; a dirty delta of a vanished owner is preserved while there is
  budget; an unknown delta or a deleted worktree goes to a human; the unsupported blind key
  press is never emitted; and a decision for a vanished owner always demands a vanish receipt.\<close>

theorem classifier_data_loss:
  "(d_classification (classifyRecovery inp) = RestartClean \<longleftrightarrow>
      o_risk (ci_observation inp) \<noteq> DeletedWorktree \<and> \<not> o_ownerLive (ci_observation inp)
      \<and> (o_gitDelta (ci_observation inp) = Clean
         \<or> o_gitDelta (ci_observation inp) = ZeroDelta \<and> b_zeroDeltaVanish (ci_retryBudget inp) > 0))
   \<and> (d_classification (classifyRecovery inp) = RestartPreserveDelta \<longleftrightarrow>
      o_risk (ci_observation inp) \<noteq> DeletedWorktree \<and> \<not> o_ownerLive (ci_observation inp)
      \<and> o_gitDelta (ci_observation inp) = Dirty \<and> b_dirtyVanishPreserve (ci_retryBudget inp) > 0)
   \<and> (d_classification (classifyRecovery inp) = HumanCheck \<longleftrightarrow>
      o_risk (ci_observation inp) = DeletedWorktree
      \<or> (if o_ownerLive (ci_observation inp)
         then (if o_risk (ci_observation inp) = PromptNotAccepted
               then b_reinjectPrompt (ci_retryBudget inp) \<le> 0
               else ''validation-failed'' \<in> set (o_observedSignals (ci_observation inp))
                    \<and> b_validationRepair (ci_retryBudget inp) \<le> 0)
         else o_gitDelta (ci_observation inp) = UnknownDelta))
   \<and> d_classification (classifyRecovery inp) \<noteq> SendEnter
   \<and> (d_requiredReceiptFamily (classifyRecovery inp) = Some VanishFamily \<longleftrightarrow>
      (if o_ownerLive (ci_observation inp) then o_risk (ci_observation inp) = DeletedWorktree else True))"
  by (auto simp: classifier_defs split: git_delta.splits)

section \<open>What reconciliation can do\<close>

lemma persist_update_simps [simp]:
  "s_lifecycle (fst (persist_update l bs nowIso sw)) = l"
  "s_blockers (fst (persist_update l bs nowIso sw)) = bs"
  "snd (persist_update l bs nowIso sw) = snd sw @ [fst (persist_update l bs nowIso sw)]"
  by (simp_all add: persist_update_def Let_def)

text \<open>Whether an observation shows a vanished working owner does not depend on the stored state
  beyond its lifecycle.\<close>

definition owner_vanished :: "observation \<Rightarrow> completed_terminal_event option \<Rightarrow> bool" where
  "owner_vanished ob terminal \<longleftrightarrow>
     \<not> o_ownerLive ob \<and> terminal = None \<and> ''completed'' \<notin> set (o_observedSignals ob)
     \<and> {''prompt-accepted'', ''tool-call'', ''streaming''} \<inter> set (o_observedSignals ob) \<noteq> {}"

lemma needsVanishedOwnerBlock_eq:
  "needsVanishedOwnerBlock st ob terminal \<longleftrightarrow> s_lifecycle st = Observing \<and> owner_vanished ob terminal"
  by (auto simp: needsVanishedOwnerBlock_def owner_vanished_def list_ex_iff)

lemma stage_lifecycles:
  "s_lifecycle (fst (reconcile_completion ob terminal nowIso sw)) =
     (if terminal \<noteq> None \<and> \<not> o_ownerLive ob \<and> o_gitDelta ob = Clean
         \<and> s_lifecycle (fst sw) \<noteq> Completed \<and> s_lifecycle (fst sw) \<noteq> Retired
      then Completed else s_lifecycle (fst sw))"
  "s_lifecycle (fst (reconcile_vanished ob terminal nowIso sw)) =
     (if s_lifecycle (fst sw) = Observing \<and> owner_vanished ob terminal then Blocked else s_lifecycle (fst sw))"
  "s_lifecycle (fst (reconcile_startup startupBlocked nowIso sw)) =
     (if startupBlocked \<and> s_lifecycle (fst sw) \<noteq> Completed \<and> s_lifecycle (fst sw) \<noteq> Retired
      then Blocked else s_lifecycle (fst sw))"
  by (auto simp: reconcile_completion_def reconcile_vanished_def reconcile_startup_def Let_def
      needsVanishedOwnerBlock_eq)

lemma stage_writes:
  "snd (reconcile_completion ob terminal nowIso sw) = [] \<longleftrightarrow>
     snd sw = [] \<and> \<not> (terminal \<noteq> None \<and> \<not> o_ownerLive ob \<and> o_gitDelta ob = Clean
         \<and> s_lifecycle (fst sw) \<noteq> Completed \<and> s_lifecycle (fst sw) \<noteq> Retired)"
  "snd (reconcile_vanished ob terminal nowIso sw) = [] \<longleftrightarrow>
     snd sw = [] \<and> \<not> (s_lifecycle (fst sw) = Observing \<and> owner_vanished ob terminal)"
  "snd (reconcile_startup startupBlocked nowIso sw) = [] \<longleftrightarrow>
     snd sw = [] \<and> \<not> (startupBlocked \<and> s_lifecycle (fst sw) \<noteq> Completed \<and> s_lifecycle (fst sw) \<noteq> Retired)"
  by (auto simp: reconcile_completion_def reconcile_vanished_def reconcile_startup_def Let_def
      needsVanishedOwnerBlock_eq)

lemma stage_last:
  assumes "last (st # snd sw) = fst sw"
  shows "last (st # snd (reconcile_completion ob terminal nowIso sw)) = fst (reconcile_completion ob terminal nowIso sw)"
    and "last (st # snd (reconcile_vanished ob terminal nowIso sw)) = fst (reconcile_vanished ob terminal nowIso sw)"
    and "last (st # snd (reconcile_startup b nowIso sw)) = fst (reconcile_startup b nowIso sw)"
  using assms
  by (auto simp: reconcile_completion_def reconcile_vanished_def reconcile_startup_def Let_def
      split: if_splits)

lemma reconcile_lifecycle:
  "s_lifecycle (fst (reconcileOwnerLifecycle st ob terminal startupBlocked nowIso)) =
     (if s_lifecycle st \<in> {Completed, Retired} then s_lifecycle st
      else if terminal \<noteq> None \<and> \<not> o_ownerLive ob \<and> o_gitDelta ob = Clean then Completed
      else if startupBlocked \<or> needsVanishedOwnerBlock st ob terminal then Blocked
      else s_lifecycle st)"
  by (cases terminal; cases "s_lifecycle st")
    (simp_all add: reconcileOwnerLifecycle_def stage_lifecycles needsVanishedOwnerBlock_eq
      owner_vanished_def)

lemma reconcile_writes:
  "snd (reconcileOwnerLifecycle st ob terminal startupBlocked nowIso) = [] \<longleftrightarrow>
     s_lifecycle st \<in> {Completed, Retired}
     \<or> \<not> startupBlocked \<and> \<not> needsVanishedOwnerBlock st ob terminal
        \<and> \<not> (terminal \<noteq> None \<and> \<not> o_ownerLive ob \<and> o_gitDelta ob = Clean)"
  by (cases "s_lifecycle st \<in> {Completed, Retired}")
    (auto simp: reconcileOwnerLifecycle_def stage_lifecycles stage_writes needsVanishedOwnerBlock_eq
      split: if_splits)

lemma reconcile_last_write:
  "last (st # snd (reconcileOwnerLifecycle st ob terminal startupBlocked nowIso))
     = fst (reconcileOwnerLifecycle st ob terminal startupBlocked nowIso)"
  unfolding reconcileOwnerLifecycle_def by (intro stage_last) simp

text \<open>Reconciliation decides the final lifecycle in one way: a terminal session (completed or retired)
  is left exactly as it is and nothing is written; a session with a recorded completion,
  a dead owner and a clean tree becomes completed; otherwise a failed start-up or a vanished
  working owner blocks it; otherwise it is unchanged. A write happens exactly when one of
  those rules fires, and the last state written (the old one if there is none) is the state
  returned.\<close>

theorem reconcile_outcome:
  "s_lifecycle (fst (reconcileOwnerLifecycle st ob terminal startupBlocked nowIso)) =
     (if s_lifecycle st \<in> {Completed, Retired} then s_lifecycle st
      else if terminal \<noteq> None \<and> \<not> o_ownerLive ob \<and> o_gitDelta ob = Clean then Completed
      else if startupBlocked \<or> needsVanishedOwnerBlock st ob terminal then Blocked
      else s_lifecycle st)
   \<and> (snd (reconcileOwnerLifecycle st ob terminal startupBlocked nowIso) = [] \<longleftrightarrow>
        s_lifecycle st \<in> {Completed, Retired}
        \<or> \<not> startupBlocked \<and> \<not> needsVanishedOwnerBlock st ob terminal
           \<and> \<not> (terminal \<noteq> None \<and> \<not> o_ownerLive ob \<and> o_gitDelta ob = Clean))
   \<and> last (st # snd (reconcileOwnerLifecycle st ob terminal startupBlocked nowIso))
       = fst (reconcileOwnerLifecycle st ob terminal startupBlocked nowIso)"
  by (intro conjI reconcile_lifecycle reconcile_writes reconcile_last_write)

end
