(* ===== verification/Harness_Receipts.thy ===== *)
theory Harness_Receipts
  imports Canonical_Json Harness_Lifecycle
begin

text \<open>
  Harness receipts (\<^verbatim>\<open>harness-control-plane/receipts.ts\<close> and \<^verbatim>\<open>phase-rollup.ts\<close>): the builder, the
  fail-closed validators of the envelope and of every evidence family, and the phase
  rollup (a receipt over child receipts).

  A receipt read back from disk is an arbitrary value, so validators take \<open>jv\<close>, test types the way
  the source does and return the list of reasons they push; a receipt is valid when that list is
  empty.
\<close>

section \<open>Building a receipt\<close>

(* coding-agent/src/harness-control-plane/receipts.ts:24-29 ReceiptSubject *)
record receipt_subject =
  rs_workspace :: string
  rs_branch :: "string option"
  rs_head :: "string option"
  rs_commit :: "string option"

(* coding-agent/src/harness-control-plane/receipts.ts:66-76 BuildReceiptInput *)
record build_receipt_input =
  br_receiptId :: string
  br_sessionId :: string
  br_family :: receipt_family
  br_source :: string
  br_subject :: receipt_subject
  br_evidence :: jv
  br_artifactHashes :: "(string \<times> string) list option"
  br_createdAt :: "string option"
  br_valid :: "bool option"

(* coding-agent/src/harness-control-plane/receipts.ts:46-46 RECEIPT_SCHEMA_VERSION *)
definition RECEIPT_SCHEMA_VERSION :: rat where
  "RECEIPT_SCHEMA_VERSION = 1"

text \<open>A \<^verbatim>\<open>T | null\<close> field as a value.\<close>

definition str_or_null :: "string option \<Rightarrow> jv" where
  "str_or_null x = (case x of None \<Rightarrow> JNull | Some s \<Rightarrow> JStr s)"

definition subject_value :: "receipt_subject \<Rightarrow> jv" where
  "subject_value s = JObj
     [(''workspace'', JStr (rs_workspace s)), (''branch'', str_or_null (rs_branch s)),
      (''head'', str_or_null (rs_head s)), (''commit'', str_or_null (rs_commit s))]"

(* coding-agent/src/harness-control-plane/receipts.ts:57-59 sha256Hex *)
definition sha256Hex :: "js_engine \<Rightarrow> string \<Rightarrow> string" where
  "sha256Hex eng input = sha256_hex eng input"

(* coding-agent/src/harness-control-plane/receipts.ts:61-64 hashBasis *)
definition hashBasis :: "js_engine \<Rightarrow> jv \<Rightarrow> string" where
  "hashBasis eng receipt = canonicalJson eng receipt"

text \<open>The fields of the receipt without the hash; \<open>now\<close> is the reading of \<^verbatim>\<open>new Date().toISOString()\<close>.\<close>

(* coding-agent/src/harness-control-plane/receipts.ts:79-90 base *)
definition receipt_base :: "string \<Rightarrow> build_receipt_input \<Rightarrow> (string \<times> jv) list" where
  "receipt_base now input =
     [(''receiptId'', JStr (br_receiptId input)),
      (''schemaVersion'', JNum RECEIPT_SCHEMA_VERSION),
      (''sessionId'', JStr (br_sessionId input)),
      (''family'', JStr (family_name (br_family input))),
      (''valid'', JBool (case br_valid input of None \<Rightarrow> True | Some b \<Rightarrow> b)),
      (''createdAt'', JStr (case br_createdAt input of None \<Rightarrow> now | Some t \<Rightarrow> t)),
      (''source'', JStr (br_source input)),
      (''subject'', subject_value (br_subject input)),
      (''evidence'', br_evidence input),
      (''artifactHashes'', JObj (map (\<lambda>(k, h). (k, JStr h))
          (case br_artifactHashes input of None \<Rightarrow> [] | Some hs \<Rightarrow> hs)))]"

(* coding-agent/src/harness-control-plane/receipts.ts:78-92 buildReceipt *)
definition buildReceipt :: "js_engine \<Rightarrow> string \<Rightarrow> build_receipt_input \<Rightarrow> jv" where
  "buildReceipt eng now input =
     (let base = receipt_base now input
      in JObj (base @ [(''sha256'', JStr (sha256Hex eng (hashBasis eng (JObj base))))]))"

section \<open>Family validators\<close>

text \<open>\<^verbatim>\<open>if (c) reasons.push(r)\<close>.\<close>

definition push_if :: "bool \<Rightarrow> string \<Rightarrow> string list" where
  "push_if c r = (if c then [r] else [])"

lemma push_if_simps [simp]: "push_if c r = [] \<longleftrightarrow> \<not> c" "push_if True r = [r]" "push_if False r = []"
  by (simp_all add: push_if_def)

(* coding-agent/src/harness-control-plane/receipts.ts:413-430 validateVanish *)
definition validateVanish :: "jv \<Rightarrow> string list" where
  "validateVanish e =
     (if \<not> truthy e \<or> \<not> is_string (get e ''gitDelta'') then [''vanish-missing-evidence'']
      else let protectedDelta = is_str (get e ''gitDelta'') ''dirty'' \<or> is_str (get e ''gitDelta'') ''unknown''
           in (if protectedDelta
               then push_if (is_str (get e ''preservation'') ''block'') ''vanish-dirty-must-preserve-not-block''
                 @ concat (map (\<lambda>act. push_if (\<not> is_array (get e ''forbiddenActions'')
                                               \<or> \<not> arr_includes (get e ''forbiddenActions'') act)
                                             (''vanish-must-forbid-'' @ act))
                     [''restart-clean'', ''delete'', ''reset''])
               else [])
             @ push_if (is_str (get e ''preservation'') ''snapshot'' \<and> \<not> truthy (get e ''snapshotComplete''))
                 ''vanish-snapshot-incomplete''
             @ push_if (is_str (get e ''preservation'') ''stash'' \<and> \<not> truthy (get e ''stashRef''))
                 ''vanish-stash-missing-ref'')"

(* coding-agent/src/harness-control-plane/receipts.ts:432-441 validatePromptAcceptance *)
definition validatePromptAcceptance :: "js_engine \<Rightarrow> jv \<Rightarrow> string list" where
  "validatePromptAcceptance eng e =
     (if \<not> truthy e then [''acceptance-missing-evidence'']
      else let pre = get e ''preSubmitState'' in
        push_if (get e ''singleFlight'' \<noteq> JBool True) ''acceptance-not-single-flight''
      @ push_if (truthy (get_opt pre ''isStreaming'')) ''acceptance-pre-state-streaming''
      @ push_if (coalesce (get_opt pre ''steeringQueueDepth'') (JNum 1) \<noteq> JNum 0) ''acceptance-steering-queue-nonempty''
      @ push_if (coalesce (get_opt pre ''followupQueueDepth'') (JNum 1) \<noteq> JNum 0) ''acceptance-followup-queue-nonempty''
      @ push_if (\<not> js_gt eng (get e ''agentStartCursor'') (get e ''preSubmitCursor''))
          ''acceptance-agent-start-not-after-cursor'')"

(* coding-agent/src/harness-control-plane/receipts.ts:443-446 validateValidation *)
definition validateValidation :: "jv \<Rightarrow> string list" where
  "validateValidation e =
     (if \<not> truthy e \<or> \<not> is_string (get e ''exactCommand'') then [''validation-missing-evidence'']
      else if truthy (get e ''pass'') then [] else [''validation-failed''])"

text \<open>\<^verbatim>\<open>Array.isArray(v) && v.length > 0\<close>.\<close>

fun nonempty_array :: "jv \<Rightarrow> bool" where
  "nonempty_array (JArr xs) = (xs \<noteq> [])"
| "nonempty_array _ = False"

(* coding-agent/src/harness-control-plane/receipts.ts:448-461 validateCompletion *)
definition validateCompletion :: "jv \<Rightarrow> string list" where
  "validateCompletion e =
     (if \<not> truthy e then [''completion-missing-evidence'']
      else push_if (\<not> truthy (get e ''finalCommit'')) ''completion-missing-commit''
         @ push_if (\<not> truthy (get e ''prUrl'') \<and> \<not> truthy (get e ''issueArtifact'')) ''completion-missing-pr-or-issue''
         @ push_if (\<not> nonempty_array (get e ''requiredValidationReceiptIds'')) ''completion-missing-validation-receipts''
         @ push_if (nonempty_array (get e ''blockers'')) ''completion-has-blockers'')"

(* coding-agent/src/harness-control-plane/receipts.ts:463-467 validateReviewVerdict *)
definition validateReviewVerdict :: "jv \<Rightarrow> string list" where
  "validateReviewVerdict e =
     (if \<not> truthy e then [''review-verdict-missing-evidence'']
      else case get e ''verdict'' of
        JStr s \<Rightarrow> (if isReviewVerdict s = None then [''review-verdict-not-in-vocabulary''] else [])
      | _ \<Rightarrow> [''review-verdict-not-in-vocabulary''])"

text \<open>\<^verbatim>\<open>typeof v === "string" && v.length > 0\<close>.\<close>

(* coding-agent/src/harness-control-plane/receipts.ts:99-102 isNonEmptyString *)
definition isNonEmptyString :: "jv \<Rightarrow> bool" where
  "isNonEmptyString v = (case v of JStr s \<Rightarrow> s \<noteq> [] | _ \<Rightarrow> False)"

(* coding-agent/src/harness-control-plane/receipts.ts:469-472 validateReviewFailure *)
definition validateReviewFailure :: "jv \<Rightarrow> string list" where
  "validateReviewFailure e =
     (if \<not> truthy e \<or> \<not> isNonEmptyString (get e ''reason'') then [''review-failure-missing-reason''] else [])"

(* coding-agent/src/harness-control-plane/receipts.ts:474-481 requiresVanishBeforeAction *)
definition requiresVanishBeforeAction :: "recovery_classification \<Rightarrow> bool" where
  "requiresVanishBeforeAction c \<longleftrightarrow> c = RestartClean \<or> c = RestartPreserveDelta \<or> c = FallbackCodexExec"

section \<open>Phase rollup validator\<close>

(* coding-agent/src/harness-control-plane/receipts.ts:278-278 SHA256_HEX *)
definition SHA256_HEX :: "string \<Rightarrow> bool" where
  "SHA256_HEX s \<longleftrightarrow> length s = 64 \<and> list_all (\<lambda>c. c \<in> set ''0123456789abcdef'') s"

(* coding-agent/src/harness-control-plane/receipts.ts:280-280 PHASE_ROLLUP_CHILD_STATUSES *)
definition PHASE_ROLLUP_CHILD_STATUSES :: "string list" where
  "PHASE_ROLLUP_CHILD_STATUSES = [''completed'', ''failed'', ''aborted'', ''merge_failed'', ''paused'']"

text \<open>\<^verbatim>\<open>Math.abs(actual - expected) <= 1e-9\<close> converts the reported total to a number first.\<close>

(* coding-agent/src/harness-control-plane/receipts.ts:282-286 numbersReconcile *)
definition numbersReconcile :: "js_engine \<Rightarrow> jv \<Rightarrow> rat option \<Rightarrow> bool" where
  "numbersReconcile eng actual expected =
     (case expected of
        None \<Rightarrow> actual = JNull
      | Some x \<Rightarrow> actual \<noteq> JNull \<and>
          (case js_to_number eng actual of JNum a \<Rightarrow> \<bar>a - x\<bar> \<le> 1 / 10 ^ 9 | _ \<Rightarrow> False))"

(* coding-agent/src/harness-control-plane/receipts.ts:288-296 sameIdSet *)
definition sameIdSet :: "jv list \<Rightarrow> string list \<Rightarrow> bool" where
  "sameIdSet actual expected \<longleftrightarrow>
     length actual = length expected \<and>
     list_all (\<lambda>a. a \<in> JStr ` set expected) actual \<and>
     length (remdups actual) = length (remdups expected)"

text \<open>The running totals of the loop over the children.\<close>

(* coding-agent/src/harness-control-plane/receipts.ts:305-313 validatePhaseRollup *)
record rollup_totals =
  rt_seenIds :: "string list"
  rt_completed :: nat
  rt_failed :: nat
  rt_tokens :: rat
  rt_cost :: rat
  rt_cloned :: rat
  rt_anyCost :: bool
  rt_anyCloned :: bool
  rt_lowRoi :: "string list"
  rt_reasons :: "string list"

definition empty_totals :: rollup_totals where
  "empty_totals = \<lparr>rt_seenIds = [], rt_completed = 0, rt_failed = 0, rt_tokens = 0, rt_cost = 0, rt_cloned = 0,
     rt_anyCost = False, rt_anyCloned = False, rt_lowRoi = [], rt_reasons = []\<rparr>"

text \<open>The reasons one child with a usable id pushes, in the order of the source.\<close>

(* coding-agent/src/harness-control-plane/receipts.ts:319-371 validatePhaseRollup *)
definition child_reasons :: "js_engine \<Rightarrow> string list \<Rightarrow> string \<Rightarrow> jv \<Rightarrow> string list" where
  "child_reasons eng seen cid child =
     push_if (cid \<in> set seen) (''phase-rollup-duplicate-child-id:'' @ cid)
   @ push_if (get child ''status'' \<notin> JStr ` set PHASE_ROLLUP_CHILD_STATUSES) (''phase-rollup-child-bad-status:'' @ cid)
   @ push_if (case get child ''receiptSha256'' of JStr h \<Rightarrow> \<not> SHA256_HEX h | _ \<Rightarrow> True)
       (''phase-rollup-child-bad-receipt-hash:'' @ cid)
   @ push_if (get child ''outputUri'' \<noteq> JNull \<and> \<not> isNonEmptyString (get child ''outputUri''))
       (''phase-rollup-child-bad-output-uri:'' @ cid)
   @ push_if (get child ''outputSha256'' \<noteq> JNull \<and> \<not> SHA256_HEX (js_to_string eng (get child ''outputSha256'')))
       (''phase-rollup-child-bad-output-hash:'' @ cid)
   @ push_if (get child ''outputSha256'' \<noteq> JNull \<and> get child ''outputUri'' = JNull)
       (''phase-rollup-child-orphan-output-hash:'' @ cid)
   @ push_if (get child ''outputUri'' \<noteq> JNull \<and> get child ''outputSha256'' = JNull)
       (''phase-rollup-child-orphan-output-uri:'' @ cid)
   @ push_if (\<not> nonneg_number (get child ''tokens'')) (''phase-rollup-child-bad-tokens:'' @ cid)
   @ push_if (get child ''costTotal'' \<noteq> JNull \<and> \<not> nonneg_number (get child ''costTotal''))
       (''phase-rollup-child-bad-cost:'' @ cid)
   @ push_if (get child ''clonedTokens'' \<noteq> JNull \<and> \<not> nonneg_number (get child ''clonedTokens''))
       (''phase-rollup-child-bad-cloned-tokens:'' @ cid)
   @ push_if (\<not> is_boolean (get child ''lowRoi'')) (''phase-rollup-child-bad-low-roi:'' @ cid)"

text \<open>The number a well-formed field adds to a running total.\<close>

fun summand :: "jv \<Rightarrow> rat" where
  "summand (JNum r) = (if 0 \<le> r then r else 0)"
| "summand _ = 0"

(* coding-agent/src/harness-control-plane/receipts.ts:314-372 validatePhaseRollup *)
definition rollup_child :: "js_engine \<Rightarrow> rollup_totals \<Rightarrow> jv \<Rightarrow> rollup_totals" where
  "rollup_child eng t child =
     (if \<not> truthy child \<or> \<not> isNonEmptyString (get child ''id'')
      then t\<lparr>rt_reasons := rt_reasons t @ [''phase-rollup-child-missing-id'']\<rparr>
      else let cid = js_to_string eng (get child ''id'') in
        \<lparr>rt_seenIds = List.insert cid (rt_seenIds t),
         rt_completed = rt_completed t + (if is_str (get child ''status'') ''completed'' then 1 else 0),
         rt_failed = rt_failed t
           + (if is_str (get child ''status'') ''failed'' \<or> is_str (get child ''status'') ''merge_failed'' then 1 else 0),
         rt_tokens = rt_tokens t + summand (get child ''tokens''),
         rt_cost = rt_cost t + summand (get child ''costTotal''),
         rt_cloned = rt_cloned t + summand (get child ''clonedTokens''),
         rt_anyCost = (rt_anyCost t \<or> nonneg_number (get child ''costTotal'')),
         rt_anyCloned = (rt_anyCloned t \<or> nonneg_number (get child ''clonedTokens'')),
         rt_lowRoi = rt_lowRoi t @ (if get child ''lowRoi'' = JBool True then [cid] else []),
         rt_reasons = rt_reasons t @ child_reasons eng (rt_seenIds t) cid child\<rparr>)"

definition reported :: "bool \<Rightarrow> rat \<Rightarrow> rat option" where
  "reported present x = (if present then Some x else None)"

(* coding-agent/src/harness-control-plane/receipts.ts:373-411 validatePhaseRollup *)
definition aggregate_reasons :: "js_engine \<Rightarrow> nat \<Rightarrow> rollup_totals \<Rightarrow> jv \<Rightarrow> string list" where
  "aggregate_reasons eng count t agg =
     (if \<not> truthy agg \<or> \<not> is_number (get agg ''childCount'') then [''phase-rollup-missing-aggregate'']
      else
        push_if (get agg ''childCount'' \<noteq> JNum (of_nat count)) ''phase-rollup-child-count-mismatch''
      @ push_if (get agg ''completed'' \<noteq> JNum (of_nat (rt_completed t))) ''phase-rollup-aggregate-completed-mismatch''
      @ push_if (get agg ''failed'' \<noteq> JNum (of_nat (rt_failed t))) ''phase-rollup-aggregate-failed-mismatch''
      @ concat (map (\<lambda>field. push_if (\<not> nonneg_number (get agg field)) (''phase-rollup-aggregate-bad-'' @ field))
          [''totalTokens'', ''completed'', ''failed''])
      @ concat (map (\<lambda>field. push_if (get agg field \<noteq> JNull \<and> \<not> nonneg_number (get agg field))
                              (''phase-rollup-aggregate-bad-'' @ field))
          [''totalCostTotal'', ''totalClonedTokens''])
      @ push_if (get agg ''totalTokens'' \<noteq> JNum (rt_tokens t)) ''phase-rollup-aggregate-tokens-mismatch''
      @ push_if (\<not> numbersReconcile eng (get agg ''totalCostTotal'') (reported (rt_anyCost t) (rt_cost t)))
          ''phase-rollup-aggregate-cost-mismatch''
      @ push_if (\<not> numbersReconcile eng (get agg ''totalClonedTokens'') (reported (rt_anyCloned t) (rt_cloned t)))
          ''phase-rollup-aggregate-cloned-tokens-mismatch''
      @ (case get agg ''lowRoiChildIds'' of
           JArr xs \<Rightarrow> push_if (\<not> sameIdSet xs (rt_lowRoi t)) ''phase-rollup-aggregate-low-roi-mismatch''
         | _ \<Rightarrow> [''phase-rollup-aggregate-bad-lowRoiChildIds'']))"

(* coding-agent/src/harness-control-plane/receipts.ts:298-304 validatePhaseRollup *)
definition validatePhaseRollup :: "js_engine \<Rightarrow> jv \<Rightarrow> string list" where
  "validatePhaseRollup eng e =
     (if \<not> truthy e \<or> \<not> isNonEmptyString (get e ''phase'') then [''phase-rollup-missing-phase'']
      else case get e ''children'' of
        JArr (c # cs) \<Rightarrow>
          (let t = fold (\<lambda>child t. rollup_child eng t child) (c # cs) empty_totals
           in rt_reasons t @ aggregate_reasons eng (length (c # cs)) t (get e ''aggregate''))
      | _ \<Rightarrow> [''phase-rollup-empty-children''])"

section \<open>The envelope\<close>

(* coding-agent/src/harness-control-plane/receipts.ts:94-97 ValidationOutcome *)
record validation_outcome =
  vo_valid :: bool
  vo_reasons :: "string list"

(* coding-agent/src/harness-control-plane/receipts.ts:218-237 validateFamily *)
definition validateFamily :: "js_engine \<Rightarrow> jv \<Rightarrow> string list" where
  "validateFamily eng receipt =
     (let f = get receipt ''family''; e = get receipt ''evidence'' in
      if is_str f ''vanish'' then validateVanish e
      else if is_str f ''prompt-acceptance'' then validatePromptAcceptance eng e
      else if is_str f ''validation'' then validateValidation e
      else if is_str f ''completion'' then validateCompletion e
      else if is_str f ''review-verdict'' then validateReviewVerdict e
      else if is_str f ''review-failure'' then validateReviewFailure e
      else if is_str f ''phase-rollup'' then validatePhaseRollup eng e
      else [''unknown-family:'' @ js_to_string eng f])"

text \<open>\<^verbatim>\<open>typeof v === "object"\<close> is also true of null and of arrays; an undefined evidence fails the same test.\<close>

(* coding-agent/src/harness-control-plane/receipts.ts:110-132 validateStructure *)
definition validateStructure :: "jv \<Rightarrow> string list" where
  "validateStructure receipt =
     push_if (\<not> isNonEmptyString (get receipt ''receiptId'')) ''envelope-missing-receiptId''
   @ push_if (\<not> isNonEmptyString (get receipt ''sessionId'')) ''envelope-missing-sessionId''
   @ push_if (\<not> isNonEmptyString (get receipt ''source'')) ''envelope-missing-source''
   @ push_if (\<not> isNonEmptyString (get receipt ''createdAt'')) ''envelope-missing-createdAt''
   @ push_if (\<not> isNonEmptyString (get receipt ''family'')) ''envelope-missing-family''
   @ push_if (\<not> is_boolean (get receipt ''valid'')) ''envelope-bad-valid''
   @ push_if (\<not> is_string (get receipt ''sha256'')) ''envelope-missing-sha256''
   @ push_if (\<not> is_plain_object (get receipt ''subject'')
              \<or> \<not> isNonEmptyString (get (get receipt ''subject'') ''workspace'')) ''envelope-bad-subject''
   @ push_if (\<not> is_plain_object (get receipt ''evidence'')) ''envelope-bad-evidence''
   @ push_if (\<not> is_plain_object (get receipt ''artifactHashes'')) ''envelope-bad-artifactHashes''"

text \<open>\<^verbatim>\<open>const { sha256, ...rest } = receipt\<close>.\<close>

fun omit :: "string \<Rightarrow> jv \<Rightarrow> jv" where
  "omit k (JObj m) = JObj (AList.delete k m)"
| "omit k v = v"

(* coding-agent/src/harness-control-plane/receipts.ts:134-149 validateReceipt *)
definition validateReceipt :: "js_engine \<Rightarrow> jv \<Rightarrow> validation_outcome" where
  "validateReceipt eng receipt =
     (if \<not> is_plain_object receipt then \<lparr>vo_valid = False, vo_reasons = [''malformed-envelope'']\<rparr>
      else let reasons =
          validateStructure receipt
        @ push_if (JStr (sha256Hex eng (hashBasis eng (omit ''sha256'' receipt))) \<noteq> get receipt ''sha256'') ''hash-mismatch''
        @ push_if (get receipt ''schemaVersion'' \<noteq> JNum RECEIPT_SCHEMA_VERSION) ''schema-version-mismatch''
        @ validateFamily eng receipt
      in \<lparr>vo_valid = (reasons = []), vo_reasons = reasons\<rparr>)"

section \<open>Phase rollup builder\<close>

text \<open>
  A child task receipt: the fields the rollup reads, typed, and the remaining ones as values
  (\<open>tr_other\<close>), since the child hash covers the whole object.
\<close>

(* coding-agent/src/task/receipt.ts:26-26 TaskResultReceipt *)
datatype task_status = TaskCompleted | TaskFailed | TaskAborted | TaskMergeFailed | TaskPaused

(* coding-agent/src/task/receipt.ts:26-26 TaskResultReceipt *)
fun task_status_name :: "task_status \<Rightarrow> string" where
  "task_status_name TaskCompleted = ''completed''"
| "task_status_name TaskFailed = ''failed''"
| "task_status_name TaskAborted = ''aborted''"
| "task_status_name TaskMergeFailed = ''merge_failed''"
| "task_status_name TaskPaused = ''paused''"

(* coding-agent/src/task/receipt.ts:7-17 TaskRoi *)
record task_roi =
  roi_tokens :: rat
  roi_clonedTokens :: "rat option"
  roi_costTotal :: "rat option"
  roi_lowRoi :: bool
  roi_other :: "(string \<times> jv) list"

(* coding-agent/src/task/receipt.ts:50-57 TaskResultReceipt *)
record task_output_ref =
  or_uri :: string
  or_sha256 :: "string option"
  or_other :: "(string \<times> jv) list"

(* coding-agent/src/task/receipt.ts:18-72 TaskResultReceipt *)
record task_result_receipt =
  tr_id :: string
  tr_status :: task_status
  tr_tokens :: rat
  tr_outputRef :: "task_output_ref option"
  tr_roi :: "task_roi option"
  tr_other :: "(string \<times> jv) list"

definition num_or_undef :: "rat option \<Rightarrow> jv" where
  "num_or_undef x = (case x of None \<Rightarrow> JUndef | Some r \<Rightarrow> JNum r)"

definition num_or_null :: "rat option \<Rightarrow> jv" where
  "num_or_null x = (case x of None \<Rightarrow> JNull | Some r \<Rightarrow> JNum r)"

definition task_receipt_value :: "task_result_receipt \<Rightarrow> jv" where
  "task_receipt_value r = JObj
     ([(''id'', JStr (tr_id r)), (''status'', JStr (task_status_name (tr_status r))), (''tokens'', JNum (tr_tokens r)),
       (''outputRef'', case tr_outputRef r of None \<Rightarrow> JUndef
          | Some f \<Rightarrow> JObj ([(''uri'', JStr (or_uri f)),
                            (''sha256'', case or_sha256 f of None \<Rightarrow> JUndef | Some h \<Rightarrow> JStr h)] @ or_other f)),
       (''roi'', case tr_roi r of None \<Rightarrow> JUndef
          | Some q \<Rightarrow> JObj ([(''tokens'', JNum (roi_tokens q)), (''clonedTokens'', num_or_undef (roi_clonedTokens q)),
                            (''costTotal'', num_or_undef (roi_costTotal q)), (''lowRoi'', JBool (roi_lowRoi q))]
                           @ roi_other q))] @ tr_other r)"

text \<open>\<^verbatim>\<open>receipt.roi?.x\<close> and \<^verbatim>\<open>receipt.roi?.tokens ?? receipt.tokens\<close>.\<close>

definition effective_tokens :: "task_result_receipt \<Rightarrow> rat" where
  "effective_tokens r = (case tr_roi r of None \<Rightarrow> tr_tokens r | Some q \<Rightarrow> roi_tokens q)"

definition roi_cost :: "task_result_receipt \<Rightarrow> rat option" where
  "roi_cost r = Option.bind (tr_roi r) roi_costTotal"

definition roi_cloned :: "task_result_receipt \<Rightarrow> rat option" where
  "roi_cloned r = Option.bind (tr_roi r) roi_clonedTokens"

definition low_roi :: "task_result_receipt \<Rightarrow> bool" where
  "low_roi r = (case tr_roi r of None \<Rightarrow> False | Some q \<Rightarrow> roi_lowRoi q)"

text \<open>The output URI and hash of a child that has both, non-empty; a one-sided reference is dropped.\<close>

(* coding-agent/src/harness-control-plane/phase-rollup.ts:20-30 childPointer *)
definition verifiable_ref :: "task_result_receipt \<Rightarrow> (string \<times> string) option" where
  "verifiable_ref r =
     (case tr_outputRef r of
        None \<Rightarrow> None
      | Some f \<Rightarrow> (case or_sha256 f of
            None \<Rightarrow> None
          | Some h \<Rightarrow> if or_uri f \<noteq> [] \<and> h \<noteq> [] then Some (or_uri f, h) else None))"

(* coding-agent/src/harness-control-plane/phase-rollup.ts:19-45 childPointer *)
definition childPointer :: "js_engine \<Rightarrow> task_result_receipt \<Rightarrow> jv" where
  "childPointer eng r = JObj
       [(''id'', JStr (tr_id r)),
        (''status'', JStr (task_status_name (tr_status r))),
        (''outputUri'', str_or_null (map_option fst (verifiable_ref r))),
        (''outputSha256'', str_or_null (map_option snd (verifiable_ref r))),
        (''receiptSha256'', JStr (sha256Hex eng (canonicalJson eng (json_roundtrip (task_receipt_value r))))),
        (''tokens'', JNum (effective_tokens r)),
        (''costTotal'', num_or_null (roi_cost r)),
        (''clonedTokens'', num_or_null (roi_cloned r)),
        (''lowRoi'', JBool (low_roi r))]"

(* coding-agent/src/harness-control-plane/phase-rollup.ts:47-56 BuildPhaseRollupInput *)
record phase_rollup_input =
  pr_receiptId :: string
  pr_sessionId :: string
  pr_source :: string
  pr_subject :: receipt_subject
  pr_phase :: string
  pr_children :: "task_result_receipt list"
  pr_createdAt :: "string option"

text \<open>\<^verbatim>\<open>anyX ? children.reduce((total, child) => total + (child.roi?.x ?? 0), 0) : null\<close>.\<close>

definition total_reported :: "(task_result_receipt \<Rightarrow> rat option) \<Rightarrow> task_result_receipt list \<Rightarrow> rat option" where
  "total_reported f cs =
     (if \<exists>c \<in> set cs. f c \<noteq> None
      then Some (foldl (\<lambda>total c. total + (case f c of None \<Rightarrow> 0 | Some x \<Rightarrow> x)) 0 cs) else None)"

(* coding-agent/src/harness-control-plane/phase-rollup.ts:59-83 buildPhaseRollupReceipt *)
definition rollup_evidence :: "js_engine \<Rightarrow> string \<Rightarrow> task_result_receipt list \<Rightarrow> jv" where
  "rollup_evidence eng phase cs = JObj
     [(''phase'', JStr phase),
      (''children'', JArr (map (childPointer eng) cs)),
      (''aggregate'', JObj
        [(''childCount'', JNum (of_nat (length cs))),
         (''completed'', JNum (of_nat (length (filter (\<lambda>c. tr_status c = TaskCompleted) cs)))),
         (''failed'', JNum (of_nat (length (filter (\<lambda>c. tr_status c \<in> {TaskFailed, TaskMergeFailed}) cs)))),
         (''totalTokens'', JNum (foldl (\<lambda>total c. total + effective_tokens c) 0 cs)),
         (''totalCostTotal'', num_or_null (total_reported roi_cost cs)),
         (''totalClonedTokens'', num_or_null (total_reported roi_cloned cs)),
         (''lowRoiChildIds'', JArr (map (\<lambda>c. JStr (tr_id c)) (filter low_roi cs)))])]"

(* coding-agent/src/harness-control-plane/phase-rollup.ts:84-93 buildPhaseRollupReceipt *)
definition buildPhaseRollupReceipt :: "js_engine \<Rightarrow> string \<Rightarrow> phase_rollup_input \<Rightarrow> jv" where
  "buildPhaseRollupReceipt eng now input = buildReceipt eng now
     \<lparr>br_receiptId = pr_receiptId input, br_sessionId = pr_sessionId input, br_family = PhaseRollupFamily,
      br_source = pr_source input, br_subject = pr_subject input,
      br_evidence = rollup_evidence eng (pr_phase input) (pr_children input),
      br_artifactHashes = None, br_createdAt = pr_createdAt input, br_valid = None\<rparr>"

section \<open>Envelope lemmas\<close>

lemma isNonEmptyString_simps [simp]:
  "isNonEmptyString (JStr s) \<longleftrightarrow> s \<noteq> []"
  "isNonEmptyString JUndef = False" "isNonEmptyString JNull = False"
  by (simp_all add: isNonEmptyString_def)

lemma isNonEmptyString_cases: "isNonEmptyString v \<longleftrightarrow> (\<exists>s. v = JStr s \<and> s \<noteq> [])"
  by (cases v) (simp_all add: isNonEmptyString_def)

lemma vo_valid_iff: "vo_valid (validateReceipt eng r) \<longleftrightarrow> vo_reasons (validateReceipt eng r) = []"
  by (simp add: validateReceipt_def Let_def)

lemma valid_iff:
  "vo_valid (validateReceipt eng r) \<longleftrightarrow>
     is_plain_object r \<and> validateStructure r = []
     \<and> get r ''sha256'' = JStr (sha256Hex eng (hashBasis eng (omit ''sha256'' r)))
     \<and> get r ''schemaVersion'' = JNum RECEIPT_SCHEMA_VERSION
     \<and> validateFamily eng r = []"
  by (auto simp: validateReceipt_def Let_def)

text \<open>The validator the family of a built receipt selects.\<close>

definition family_reasons :: "js_engine \<Rightarrow> receipt_family \<Rightarrow> jv \<Rightarrow> string list" where
  "family_reasons eng f e =
     (case f of VanishFamily \<Rightarrow> validateVanish e | PromptAcceptanceFamily \<Rightarrow> validatePromptAcceptance eng e
      | ValidationFamily \<Rightarrow> validateValidation e | CompletionFamily \<Rightarrow> validateCompletion e
      | ReviewVerdictFamily \<Rightarrow> validateReviewVerdict e | ReviewFailureFamily \<Rightarrow> validateReviewFailure e
      | PhaseRollupFamily \<Rightarrow> validatePhaseRollup eng e)"

lemma get_buildReceipt:
  "get (buildReceipt eng now i) k =
     (case map_of (receipt_base now i) k of
        Some v \<Rightarrow> v
      | None \<Rightarrow> if k = ''sha256'' then JStr (sha256Hex eng (hashBasis eng (JObj (receipt_base now i)))) else JUndef)"
  by (auto simp: buildReceipt_def Let_def map_add_def split: option.splits)

lemma omit_buildReceipt: "omit ''sha256'' (buildReceipt eng now i) = JObj (receipt_base now i)"
  by (simp add: buildReceipt_def Let_def receipt_base_def)

lemma family_name_inj [simp]: "family_name f = family_name g \<longleftrightarrow> f = g"
  by (cases f; cases g; simp)

lemma validateFamily_build: "validateFamily eng (buildReceipt eng now i) = family_reasons eng (br_family i) (br_evidence i)"
  by (cases "br_family i") (simp_all add: validateFamily_def get_buildReceipt receipt_base_def family_reasons_def is_str_def)

lemma family_name_not_Nil [simp]: "family_name f \<noteq> []"
  by (cases f) simp_all

lemma buildReceipt_valid_iff:
  "vo_valid (validateReceipt eng (buildReceipt eng now i)) \<longleftrightarrow>
     br_receiptId i \<noteq> [] \<and> br_sessionId i \<noteq> [] \<and> br_source i \<noteq> []
     \<and> (case br_createdAt i of None \<Rightarrow> now | Some t \<Rightarrow> t) \<noteq> []
     \<and> rs_workspace (br_subject i) \<noteq> [] \<and> is_plain_object (br_evidence i)
     \<and> family_reasons eng (br_family i) (br_evidence i) = []"
proof -
  have "is_plain_object (buildReceipt eng now i)" by (simp add: buildReceipt_def Let_def)
  moreover have "validateStructure (buildReceipt eng now i) = [] \<longleftrightarrow>
     br_receiptId i \<noteq> [] \<and> br_sessionId i \<noteq> [] \<and> br_source i \<noteq> []
     \<and> (case br_createdAt i of None \<Rightarrow> now | Some t \<Rightarrow> t) \<noteq> []
     \<and> rs_workspace (br_subject i) \<noteq> [] \<and> is_plain_object (br_evidence i)"
    by (simp add: validateStructure_def get_buildReceipt receipt_base_def subject_value_def)
  moreover have "get (buildReceipt eng now i) ''sha256'' = JStr (sha256Hex eng (hashBasis eng (omit ''sha256'' (buildReceipt eng now i))))"
    unfolding omit_buildReceipt by (simp add: get_buildReceipt receipt_base_def)
  moreover have "get (buildReceipt eng now i) ''schemaVersion'' = JNum RECEIPT_SCHEMA_VERSION"
    by (simp add: get_buildReceipt receipt_base_def)
  ultimately show ?thesis by (simp only: valid_iff validateFamily_build) blast
qed

lemma json_data_str_or_null [simp]: "json_data (str_or_null x)"
  by (cases x) (simp_all add: str_or_null_def)

text \<open>Inputs whose evidence is JSON data, as the harness passes them.\<close>

definition input_data :: "build_receipt_input \<Rightarrow> bool" where
  "input_data i \<longleftrightarrow> json_data (br_evidence i) \<and>
     (case br_artifactHashes i of None \<Rightarrow> True | Some hs \<Rightarrow> keys_distinct hs)"

lemma json_data_buildReceipt: "input_data i \<Longrightarrow> json_data (buildReceipt eng now i)"
  by (auto simp: buildReceipt_def Let_def receipt_base_def subject_value_def input_data_def list_all_iff comp_def split_def
           split: option.splits)

section \<open>Rollup lemmas\<close>

text \<open>A child whose id the validator can use, the id itself, and what the validator demands of the rest.\<close>

definition usable_child :: "jv \<Rightarrow> bool" where
  "usable_child c \<longleftrightarrow> truthy c \<and> isNonEmptyString (get c ''id'')"

definition child_id :: "jv \<Rightarrow> string" where
  "child_id c = (case get c ''id'' of JStr s \<Rightarrow> s | _ \<Rightarrow> [])"

lemma usable_child_id: "usable_child c \<Longrightarrow> js_to_string eng (get c ''id'') = child_id c"
  by (auto simp: usable_child_def child_id_def isNonEmptyString_cases)

definition child_ok :: "js_engine \<Rightarrow> jv \<Rightarrow> bool" where
  "child_ok eng c \<longleftrightarrow> usable_child c \<and> child_reasons eng [] (child_id c) c = []"

lemma child_reasons_seen:
  "child_reasons eng seen cid c = [] \<longleftrightarrow> cid \<notin> set seen \<and> child_reasons eng [] cid c = []"
  by (auto simp: child_reasons_def)

lemma rollup_child_usable:
  "usable_child c \<Longrightarrow> rollup_child eng t c =
     \<lparr>rt_seenIds = List.insert (child_id c) (rt_seenIds t),
      rt_completed = rt_completed t + (if get c ''status'' = JStr ''completed'' then 1 else 0),
      rt_failed = rt_failed t + (if get c ''status'' \<in> {JStr ''failed'', JStr ''merge_failed''} then 1 else 0),
      rt_tokens = rt_tokens t + summand (get c ''tokens''),
      rt_cost = rt_cost t + summand (get c ''costTotal''),
      rt_cloned = rt_cloned t + summand (get c ''clonedTokens''),
      rt_anyCost = (rt_anyCost t \<or> nonneg_number (get c ''costTotal'')),
      rt_anyCloned = (rt_anyCloned t \<or> nonneg_number (get c ''clonedTokens'')),
      rt_lowRoi = rt_lowRoi t @ (if get c ''lowRoi'' = JBool True then [child_id c] else []),
      rt_reasons = rt_reasons t @ child_reasons eng (rt_seenIds t) (child_id c) c\<rparr>"
  by (simp add: rollup_child_def usable_child_id usable_child_def [symmetric] is_str_def Let_def del: js_to_string.simps)
     (simp add: usable_child_def)

lemma rollup_child_unusable:
  "\<not> usable_child c \<Longrightarrow> rollup_child eng t c = t\<lparr>rt_reasons := rt_reasons t @ [''phase-rollup-child-missing-id'']\<rparr>"
  by (auto simp: rollup_child_def usable_child_def)

abbreviation "rollup_fold eng cs t \<equiv> fold (\<lambda>child t. rollup_child eng t child) cs t"

lemma rollup_fold_reasons:
  "rt_reasons (rollup_fold eng cs t) = [] \<longleftrightarrow>
     rt_reasons t = [] \<and> list_all (child_ok eng) cs \<and> distinct (map child_id cs)
     \<and> set (rt_seenIds t) \<inter> set (map child_id cs) = {}"
proof (induction cs arbitrary: t)
  case (Cons c cs)
  show ?case
  proof (cases "usable_child c")
    case True
    then show ?thesis
      by (auto simp: Cons.IH rollup_child_usable child_ok_def child_reasons_seen [of eng "rt_seenIds t"])
  next
    case False
    then show ?thesis by (simp add: Cons.IH rollup_child_unusable child_ok_def)
  qed
qed simp

lemma rollup_fold_totals:
  "list_all usable_child cs \<Longrightarrow>
     rt_completed (rollup_fold eng cs t) = rt_completed t + length (filter (\<lambda>c. get c ''status'' = JStr ''completed'') cs)
   \<and> rt_failed (rollup_fold eng cs t)
       = rt_failed t + length (filter (\<lambda>c. get c ''status'' \<in> {JStr ''failed'', JStr ''merge_failed''}) cs)
   \<and> rt_tokens (rollup_fold eng cs t) = rt_tokens t + sum_list (map (\<lambda>c. summand (get c ''tokens'')) cs)
   \<and> rt_cost (rollup_fold eng cs t) = rt_cost t + sum_list (map (\<lambda>c. summand (get c ''costTotal'')) cs)
   \<and> rt_cloned (rollup_fold eng cs t) = rt_cloned t + sum_list (map (\<lambda>c. summand (get c ''clonedTokens'')) cs)"
  by (induction cs arbitrary: t) (simp_all add: rollup_child_usable)

lemma rollup_fold_presence:
  "list_all usable_child cs \<Longrightarrow>
     rt_anyCost (rollup_fold eng cs t) = (rt_anyCost t \<or> (\<exists>c \<in> set cs. nonneg_number (get c ''costTotal'')))
   \<and> rt_anyCloned (rollup_fold eng cs t) = (rt_anyCloned t \<or> (\<exists>c \<in> set cs. nonneg_number (get c ''clonedTokens'')))
   \<and> rt_lowRoi (rollup_fold eng cs t) = rt_lowRoi t @ map child_id (filter (\<lambda>c. get c ''lowRoi'' = JBool True) cs)"
  by (induction cs arbitrary: t) (auto simp: rollup_child_usable)

lemma child_ok_usable: "list_all (child_ok eng) cs \<Longrightarrow> list_all usable_child cs"
  by (auto simp: list_all_iff child_ok_def)

lemma sameIdSet_set: "sameIdSet xs ys \<Longrightarrow> set xs = JStr ` set ys"
proof -
  assume s: "sameIdSet xs ys"
  then have "set xs \<subseteq> JStr ` set ys" "card (set xs) = card (set ys)"
    by (auto simp: sameIdSet_def list_all_iff length_remdups_card_conv)
  moreover have "card (JStr ` set ys) = card (set ys)" by (rule card_image) (simp add: inj_on_def)
  ultimately show ?thesis by (intro card_subset_eq) auto
qed

lemma sameIdSet_self: "sameIdSet (map JStr ys) ys"
proof -
  have "length (remdups (map JStr ys)) = card (JStr ` set ys)" by (simp add: length_remdups_card_conv)
  also have "\<dots> = card (set ys)" by (rule card_image) (simp add: inj_on_def)
  finally show ?thesis by (simp add: sameIdSet_def list_all_iff length_remdups_card_conv)
qed

text \<open>What the accepted aggregate reports, against the children.\<close>

definition aggregate_ok :: "js_engine \<Rightarrow> jv list \<Rightarrow> jv \<Rightarrow> bool" where
  "aggregate_ok eng cs agg \<longleftrightarrow>
     get agg ''childCount'' = JNum (of_nat (length cs))
   \<and> get agg ''completed'' = JNum (of_nat (length (filter (\<lambda>c. get c ''status'' = JStr ''completed'') cs)))
   \<and> get agg ''failed'' = JNum (of_nat (length (filter (\<lambda>c. get c ''status'' \<in> {JStr ''failed'', JStr ''merge_failed''}) cs)))
   \<and> get agg ''totalTokens'' = JNum (sum_list (map (\<lambda>c. summand (get c ''tokens'')) cs))
   \<and> (get agg ''totalCostTotal'' = JNull \<or> nonneg_number (get agg ''totalCostTotal''))
   \<and> (get agg ''totalClonedTokens'' = JNull \<or> nonneg_number (get agg ''totalClonedTokens''))
   \<and> numbersReconcile eng (get agg ''totalCostTotal'')
       (reported (\<exists>c \<in> set cs. nonneg_number (get c ''costTotal'')) (sum_list (map (\<lambda>c. summand (get c ''costTotal'')) cs)))
   \<and> numbersReconcile eng (get agg ''totalClonedTokens'')
       (reported (\<exists>c \<in> set cs. nonneg_number (get c ''clonedTokens'')) (sum_list (map (\<lambda>c. summand (get c ''clonedTokens'')) cs)))
   \<and> (\<exists>xs. get agg ''lowRoiChildIds'' = JArr xs
        \<and> sameIdSet xs (map child_id (filter (\<lambda>c. get c ''lowRoi'' = JBool True) cs)))"

lemma summand_nonneg: "0 \<le> summand v"
  by (cases v) simp_all

lemma aggregate_reasons_totals:
  assumes "0 \<le> rt_tokens t"
  shows "aggregate_reasons eng n t agg = [] \<longleftrightarrow>
     get agg ''childCount'' = JNum (of_nat n)
   \<and> get agg ''completed'' = JNum (of_nat (rt_completed t))
   \<and> get agg ''failed'' = JNum (of_nat (rt_failed t))
   \<and> get agg ''totalTokens'' = JNum (rt_tokens t)
   \<and> (get agg ''totalCostTotal'' = JNull \<or> nonneg_number (get agg ''totalCostTotal''))
   \<and> (get agg ''totalClonedTokens'' = JNull \<or> nonneg_number (get agg ''totalClonedTokens''))
   \<and> numbersReconcile eng (get agg ''totalCostTotal'') (reported (rt_anyCost t) (rt_cost t))
   \<and> numbersReconcile eng (get agg ''totalClonedTokens'') (reported (rt_anyCloned t) (rt_cloned t))
   \<and> (\<exists>xs. get agg ''lowRoiChildIds'' = JArr xs \<and> sameIdSet xs (rt_lowRoi t))" (is "?L = ?R")
proof -
  have low: "(case v of JArr xs \<Rightarrow> push_if (\<not> P xs) a | _ \<Rightarrow> [b]) = [] \<longleftrightarrow> (\<exists>xs. v = JArr xs \<and> P xs)" for v P a b
    by (cases v) simp_all
  have obj: "get agg k = JNum r \<Longrightarrow> truthy agg" for k r by (cases agg) simp_all
  have "?L \<longleftrightarrow> truthy agg \<and> is_number (get agg ''childCount'') \<and> ?R \<and>
     nonneg_number (get agg ''totalTokens'') \<and> nonneg_number (get agg ''completed'') \<and> nonneg_number (get agg ''failed'')"
    by (cases "truthy agg \<and> is_number (get agg ''childCount'')")
       (simp add: aggregate_reasons_def low, blast, auto simp: aggregate_reasons_def)
  also have "\<dots> \<longleftrightarrow> ?R" using assms obj by auto
  finally show ?thesis .
qed

lemma aggregate_reasons_iff:
  assumes "list_all usable_child cs"
  shows "aggregate_reasons eng (length cs) (rollup_fold eng cs empty_totals) agg = [] \<longleftrightarrow>
     aggregate_ok eng cs agg"
proof -
  note totals = rollup_fold_totals [OF assms, of eng empty_totals] rollup_fold_presence [OF assms, of eng empty_totals]
  have "0 \<le> sum_list (map (\<lambda>c. summand (get c ''tokens'')) cs)"
    by (rule sum_list_nonneg) (auto simp: summand_nonneg)
  with totals have "0 \<le> rt_tokens (rollup_fold eng cs empty_totals)" by (simp add: empty_totals_def)
  from aggregate_reasons_totals [OF this, of eng "length cs" agg] totals show ?thesis
    by (simp add: aggregate_ok_def empty_totals_def)
qed

lemma validatePhaseRollup_iff:
  "validatePhaseRollup eng e = [] \<longleftrightarrow>
     (\<exists>cs. truthy e \<and> isNonEmptyString (get e ''phase'') \<and> get e ''children'' = JArr cs \<and> cs \<noteq> []
        \<and> list_all (child_ok eng) cs \<and> distinct (map child_id cs) \<and> aggregate_ok eng cs (get e ''aggregate''))"
proof (cases "get e ''children''")
  case (JArr cs)
  have "cs \<noteq> [] \<Longrightarrow> rt_reasons (rollup_fold eng cs empty_totals) = [] \<and>
      aggregate_reasons eng (length cs) (rollup_fold eng cs empty_totals) (get e ''aggregate'') = [] \<longleftrightarrow>
      list_all (child_ok eng) cs \<and> distinct (map child_id cs) \<and> aggregate_ok eng cs (get e ''aggregate'')"
    using aggregate_reasons_iff [OF child_ok_usable] rollup_fold_reasons [of eng cs empty_totals]
    by (auto simp: empty_totals_def)
  with JArr show ?thesis
    by (cases cs) (auto simp: validatePhaseRollup_def Let_def simp del: fold.simps)
qed (simp_all add: validatePhaseRollup_def)

text \<open>A child task receipt with an id, non-negative accounting, and an output hash that is absent, empty or
  a SHA-256 digest.\<close>

definition task_ok :: "task_result_receipt \<Rightarrow> bool" where
  "task_ok c \<longleftrightarrow> tr_id c \<noteq> [] \<and> 0 \<le> effective_tokens c
     \<and> (case roi_cost c of None \<Rightarrow> True | Some x \<Rightarrow> 0 \<le> x)
     \<and> (case roi_cloned c of None \<Rightarrow> True | Some x \<Rightarrow> 0 \<le> x)
     \<and> (case Option.bind (tr_outputRef c) or_sha256 of None \<Rightarrow> True | Some h \<Rightarrow> h = [] \<or> SHA256_HEX h)"

lemma get_childPointer [simp]:
  "get (childPointer eng c) ''id'' = JStr (tr_id c)"
  "get (childPointer eng c) ''status'' = JStr (task_status_name (tr_status c))"
  "get (childPointer eng c) ''tokens'' = JNum (effective_tokens c)"
  "get (childPointer eng c) ''costTotal'' = num_or_null (roi_cost c)"
  "get (childPointer eng c) ''clonedTokens'' = num_or_null (roi_cloned c)"
  "get (childPointer eng c) ''lowRoi'' = JBool (low_roi c)"
  "get (childPointer eng c) ''receiptSha256'' = JStr (sha256Hex eng (canonicalJson eng (json_roundtrip (task_receipt_value c))))"
  "truthy (childPointer eng c)"
  by (simp_all add: childPointer_def)

lemma get_childPointer_output:
  "get (childPointer eng c) ''outputUri'' = str_or_null (map_option fst (verifiable_ref c))"
  "get (childPointer eng c) ''outputSha256'' = str_or_null (map_option snd (verifiable_ref c))"
  by (simp_all add: childPointer_def)

lemma verifiable_ref_ok: "task_ok c \<Longrightarrow> verifiable_ref c = Some (u, h) \<Longrightarrow> u \<noteq> [] \<and> SHA256_HEX h"
  by (auto simp: verifiable_ref_def task_ok_def split: option.splits if_splits)

lemma child_id_childPointer [simp]: "child_id (childPointer eng c) = tr_id c"
  by (simp add: child_id_def)

lemma task_status_known: "JStr (task_status_name s) \<in> JStr ` set PHASE_ROLLUP_CHILD_STATUSES"
  by (cases s) (simp_all add: PHASE_ROLLUP_CHILD_STATUSES_def)

lemma nonneg_num_or_null: "num_or_null x \<noteq> JNull \<and> \<not> nonneg_number (num_or_null x) \<longleftrightarrow> (\<exists>r. x = Some r \<and> r < 0)"
  by (cases x) (simp_all add: num_or_null_def not_le)

lemma child_ok_childPointer:
  assumes "\<forall>s. SHA256_HEX (sha256_hex eng s)" "task_ok c"
  shows "child_ok eng (childPointer eng c)"
proof -
  consider "verifiable_ref c = None" | u h where "verifiable_ref c = Some (u, h)" "u \<noteq> []" "SHA256_HEX h"
    using verifiable_ref_ok [OF assms(2)] by (cases "verifiable_ref c") auto
  then show ?thesis
    using assms task_status_known [of "tr_status c"]
    by cases (auto simp: get_childPointer_output str_or_null_def child_ok_def usable_child_def child_reasons_def nonneg_num_or_null task_ok_def sha256Hex_def)
qed

lemma foldl_add: "foldl (\<lambda>total c. total + f c) a cs = a + sum_list (map f cs)" for f :: "'a \<Rightarrow> rat"
  by (induction cs arbitrary: a) (simp_all add: add.assoc)

lemma reported_total:
  assumes "\<forall>c \<in> set cs. case f c of None \<Rightarrow> True | Some x \<Rightarrow> 0 \<le> x"
  shows "reported (\<exists>c \<in> set cs. nonneg_number (num_or_null (f c))) (sum_list (map (\<lambda>c. summand (num_or_null (f c))) cs))
       = total_reported f cs"
    and "case total_reported f cs of None \<Rightarrow> True | Some x \<Rightarrow> 0 \<le> x"
proof -
  have *: "summand (num_or_null (f c)) = (case f c of None \<Rightarrow> 0 | Some x \<Rightarrow> x)"
      "nonneg_number (num_or_null (f c)) \<longleftrightarrow> f c \<noteq> None" if "c \<in> set cs" for c
    using assms that by (auto simp: num_or_null_def split: option.splits)
  have s: "sum_list (map (\<lambda>c. summand (num_or_null (f c))) cs) = sum_list (map (\<lambda>c. case f c of None \<Rightarrow> 0 | Some x \<Rightarrow> x) cs)"
    using * by (auto cong: map_cong)
  show "reported (\<exists>c \<in> set cs. nonneg_number (num_or_null (f c))) (sum_list (map (\<lambda>c. summand (num_or_null (f c))) cs))
       = total_reported f cs"
    unfolding s using * by (simp add: reported_def total_reported_def foldl_add)
  have "0 \<le> sum_list (map (\<lambda>c. case f c of None \<Rightarrow> 0 | Some x \<Rightarrow> x) cs)"
    by (rule sum_list_nonneg) (use assms in \<open>auto split: option.splits\<close>)
  then show "case total_reported f cs of None \<Rightarrow> True | Some x \<Rightarrow> 0 \<le> x"
    by (simp add: total_reported_def foldl_add)
qed

lemma numbersReconcile_self: "numbersReconcile eng (num_or_null x) x"
  by (cases x) (simp_all add: numbersReconcile_def num_or_null_def)

lemma status_eq:
  "task_status_name s = ''completed'' \<longleftrightarrow> s = TaskCompleted"
  "task_status_name s = ''failed'' \<longleftrightarrow> s = TaskFailed"
  "task_status_name s = ''merge_failed'' \<longleftrightarrow> s = TaskMergeFailed"
  by (cases s; simp)+

lemma aggregate_ok_build:
  assumes "\<forall>c \<in> set cs. task_ok c"
  shows "aggregate_ok eng (map (childPointer eng) cs) (get (rollup_evidence eng phase cs) ''aggregate'')"
proof -
  have tok: "sum_list (map ((\<lambda>c. summand (get c ''tokens'')) \<circ> childPointer eng) cs) = sum_list (map effective_tokens cs)"
    using assms by (intro arg_cong [of _ _ sum_list] map_cong) (auto simp: task_ok_def)
  have cost: "\<forall>c \<in> set cs. case roi_cost c of None \<Rightarrow> True | Some x \<Rightarrow> 0 \<le> x"
    and cloned: "\<forall>c \<in> set cs. case roi_cloned c of None \<Rightarrow> True | Some x \<Rightarrow> 0 \<le> x"
    using assms by (auto simp: task_ok_def)
  have nn: "num_or_null x = JNull \<or> nonneg_number (num_or_null x)" if "case x of None \<Rightarrow> True | Some r \<Rightarrow> 0 \<le> r" for x
    using that by (cases x) (auto simp: num_or_null_def)
  have low: "sameIdSet (map (\<lambda>c. JStr (tr_id c)) (filter low_roi cs)) (map tr_id (filter low_roi cs))"
    using sameIdSet_self [of "map tr_id (filter low_roi cs)"] by (simp add: comp_def)
  show ?thesis
    using tok low reported_total [OF cost] reported_total [OF cloned] nn
    by (simp add: aggregate_ok_def rollup_evidence_def foldl_add filter_map comp_def numbersReconcile_self status_eq)
qed

lemma rollup_evidence_ok:
  assumes "\<forall>s. SHA256_HEX (sha256_hex eng s)" "\<forall>c \<in> set cs. task_ok c"
  shows "validatePhaseRollup eng (rollup_evidence eng phase cs) = [] \<longleftrightarrow> phase \<noteq> [] \<and> cs \<noteq> [] \<and> distinct (map tr_id cs)"
proof -
  have "get (rollup_evidence eng phase cs) ''phase'' = JStr phase"
    "get (rollup_evidence eng phase cs) ''children'' = JArr (map (childPointer eng) cs)"
    "truthy (rollup_evidence eng phase cs)"
    by (simp_all add: rollup_evidence_def)
  moreover have "list_all (child_ok eng) (map (childPointer eng) cs)"
    using assms child_ok_childPointer by (auto simp: list_all_iff)
  ultimately show ?thesis
    using aggregate_ok_build [OF assms(2), of eng phase] by (simp add: validatePhaseRollup_iff comp_def)
qed

section \<open>Properties of receipts\<close>

definition sample_input :: "receipt_family \<Rightarrow> jv \<Rightarrow> build_receipt_input" where
  "sample_input f e = \<lparr>br_receiptId = ''r1'', br_sessionId = ''s1'', br_family = f, br_source = ''harness'',
     br_subject = \<lparr>rs_workspace = ''/w'', rs_branch = None, rs_head = None, rs_commit = Some ''c1''\<rparr>,
     br_evidence = e, br_artifactHashes = None, br_createdAt = Some ''t0'', br_valid = None\<rparr>"


lemma sample_input_simps [simp]:
  "br_receiptId (sample_input f e) = ''r1''" "br_sessionId (sample_input f e) = ''s1''"
  "br_family (sample_input f e) = f" "br_source (sample_input f e) = ''harness''"
  "rs_workspace (br_subject (sample_input f e)) = ''/w''" "br_evidence (sample_input f e) = e"
  "br_createdAt (sample_input f e) = Some ''t0''" "input_data (sample_input f e) = json_data e"
  by (simp_all add: sample_input_def input_data_def)

definition sample_failure :: jv where
  "sample_failure = buildReceipt sample_engine ''t'' (sample_input ReviewFailureFamily (JObj [(''reason'', JStr ''r'')]))"

lemma sample_failure_checked: "json_data sample_failure" "validateFamily sample_engine sample_failure = []"
  by (simp_all add: sample_failure_def json_data_buildReceipt validateFamily_build family_reasons_def
      validateReviewFailure_def)

lemma sample_failure_valid: "vo_valid (validateReceipt sample_engine sample_failure)"
  using sample_failure_checked(2) unfolding sample_failure_def by (simp add: buildReceipt_valid_iff validateFamily_build)




text \<open>The data-loss gate: vanish evidence is accepted exactly when the delta is reported and, for a dirty or
  unknown delta, the work was not blocked away and restart-clean, delete and reset are all forbidden; a
  snapshot must be complete and a stash must carry its reference.\<close>

theorem vanish_gate:
  "validateVanish e = [] \<longleftrightarrow>
     (\<exists>d. get e ''gitDelta'' = JStr d
        \<and> (if d \<in> {''dirty'', ''unknown''}
            then get e ''preservation'' \<noteq> JStr ''block''
              \<and> (\<exists>xs. get e ''forbiddenActions'' = JArr xs \<and> {JStr ''restart-clean'', JStr ''delete'', JStr ''reset''} \<subseteq> set xs)
            else True)
        \<and> (if get e ''preservation'' = JStr ''snapshot'' then truthy (get e ''snapshotComplete'') else True)
        \<and> (if get e ''preservation'' = JStr ''stash'' then truthy (get e ''stashRef'') else True))"
proof (cases "get e ''gitDelta''")
  case (JStr d)
  then have "truthy e" by (cases e) auto
  moreover have "is_array v \<and> arr_includes v a \<and> arr_includes v b \<and> arr_includes v c
     \<longleftrightarrow> (\<exists>xs. v = JArr xs \<and> {JStr a, JStr b, JStr c} \<subseteq> set xs)" for v a b c
    by (cases v) auto
  note forbids = this [of "get e ''forbiddenActions''" "''restart-clean''" "''delete''" "''reset''"]
  ultimately show ?thesis
    using JStr unfolding forbids [symmetric] by (simp add: validateVanish_def is_str_def) blast
qed (simp_all add: validateVanish_def)



definition sample_task :: task_result_receipt where
  "sample_task = \<lparr>tr_id = ''a'', tr_status = TaskCompleted, tr_tokens = 5, tr_outputRef = None, tr_roi = None, tr_other = []\<rparr>"

definition sample_rollup :: phase_rollup_input where
  "sample_rollup = \<lparr>pr_receiptId = ''p'', pr_sessionId = ''s'', pr_source = ''h'',
     pr_subject = \<lparr>rs_workspace = ''/w'', rs_branch = None, rs_head = None, rs_commit = None\<rparr>,
     pr_phase = ''validating'', pr_children = [sample_task], pr_createdAt = None\<rparr>"

lemma sample_engine_hex: "\<forall>s. SHA256_HEX (sha256_hex sample_engine s)"
  by (simp add: SHA256_HEX_def sample_engine_def list_all_iff)

lemma sample_task_ok: "task_ok sample_task"
  by (simp add: task_ok_def sample_task_def effective_tokens_def roi_cost_def roi_cloned_def)


text \<open>The rollup builder meets its fail-closed validator: for child receipts with non-negative accounting, and a
  digest function that returns 64 hexadecimal digits, the built rollup receipt is valid exactly when its identity
  fields and phase are non-empty and the children are non-empty with distinct ids.\<close>

theorem rollup_builder_valid:
  assumes "\<forall>s. SHA256_HEX (sha256_hex eng s)" "\<forall>c \<in> set (pr_children i). task_ok c"
  shows "vo_valid (validateReceipt eng (buildPhaseRollupReceipt eng now i)) \<longleftrightarrow>
     pr_receiptId i \<noteq> [] \<and> pr_sessionId i \<noteq> [] \<and> pr_source i \<noteq> []
     \<and> (case pr_createdAt i of None \<Rightarrow> now | Some t \<Rightarrow> t) \<noteq> [] \<and> rs_workspace (pr_subject i) \<noteq> []
     \<and> pr_phase i \<noteq> [] \<and> pr_children i \<noteq> [] \<and> distinct (map tr_id (pr_children i))"
proof -
  have "is_plain_object (rollup_evidence eng (pr_phase i) (pr_children i))" by (simp add: rollup_evidence_def)
  then show ?thesis
    using rollup_evidence_ok [OF assms] by (simp add: buildPhaseRollupReceipt_def buildReceipt_valid_iff family_reasons_def)
qed

theorem rollup_builder_valid_witness:
  "vo_valid (validateReceipt sample_engine (buildPhaseRollupReceipt sample_engine ''t'' sample_rollup))"
proof -
  have "\<forall>c \<in> set (pr_children sample_rollup). task_ok c" using sample_task_ok by (simp add: sample_rollup_def)
  from rollup_builder_valid [OF sample_engine_hex this, of "''t''"] show ?thesis
    by (simp add: sample_rollup_def)
qed

end
