(* ===== verification/Harness_Ingest.thy ===== *)
theory Harness_Ingest
  imports Harness_Receipts
begin

text \<open>
  Receipt ingestion (\<^verbatim>\<open>harness-control-plane/receipt-ingest.ts\<close>): a pure evaluator that runs a list of untrusted
  receipts against a session's lifecycle and reports which it accepts, which it rejects and why, and the
  lifecycle moves they justify.
\<close>

section \<open>Model\<close>

(* coding-agent/src/harness-control-plane/receipt-ingest.ts:11-11 RECEIPT_DIGEST_MAX_CHARS *)
definition RECEIPT_DIGEST_MAX_CHARS :: nat where
  "RECEIPT_DIGEST_MAX_CHARS = 280"

(* coding-agent/src/harness-control-plane/receipt-ingest.ts:13-18 RECEIPT_FAMILY_LIFECYCLE_TARGETS *)
definition RECEIPT_FAMILY_LIFECYCLE_TARGETS :: "(string, lifecycle) jsmap" where
  "RECEIPT_FAMILY_LIFECYCLE_TARGETS = [(''completion'', Completed), (''review-verdict'', Completed)]"

(* coding-agent/src/harness-control-plane/receipt-ingest.ts:25-40 evidenceContradiction *)
definition evidenceContradiction :: "js_engine \<Rightarrow> jv \<Rightarrow> lifecycle \<Rightarrow> string option" where
  "evidenceContradiction eng receipt target =
     (let e = get receipt ''evidence'' in
      if is_str (get receipt ''family'') ''completion'' \<and> \<not> is_str (get e ''finalLifecycle'') (lifecycle_name target)
      then Some (''evidence-lifecycle-mismatch:'' @ js_to_string eng (get e ''finalLifecycle''))
      else if is_str (get receipt ''family'') ''review-verdict'' \<and> is_str (get e ''verdict'') ''OWNER_CONFIRMATION_REQUIRED''
      then Some ''review-verdict-not-terminal'' else None)"

(* coding-agent/src/harness-control-plane/receipt-ingest.ts:42-48 ReceiptIngestResult *)
record ingest_result =
  ir_accepted :: "jv list"
  ir_rejected :: "(jv \<times> string list) list"
  ir_transitions :: "(lifecycle \<times> lifecycle \<times> string) list"
  ir_finalLifecycle :: lifecycle
  ir_digest :: string

text \<open>What the loop body decides for one receipt in a given lifecycle.\<close>

datatype ingest_decision = Reject "string list" | Accept | Move lifecycle

(* coding-agent/src/harness-control-plane/receipt-ingest.ts:60-105 ingestReceipts *)
definition ingest_one :: "js_engine \<Rightarrow> string \<Rightarrow> lifecycle \<Rightarrow> jv \<Rightarrow> ingest_decision" where
  "ingest_one eng sid l receipt =
     (let validation = validateReceipt eng receipt in
      if \<not> vo_valid validation then Reject (vo_reasons validation)
      else if get receipt ''valid'' \<noteq> JBool True then Reject [''receipt-marked-invalid'']
      else if \<not> is_str (get receipt ''sessionId'') sid
      then Reject [''session-mismatch:'' @ js_to_string eng (get receipt ''sessionId'')]
      else (case (case get receipt ''family'' of JStr f \<Rightarrow> map_of RECEIPT_FAMILY_LIFECYCLE_TARGETS f | _ \<Rightarrow> None) of
          None \<Rightarrow> Accept
        | Some target \<Rightarrow>
            (case evidenceContradiction eng receipt target of
               Some c \<Rightarrow> if is_str (get receipt ''family'') ''review-verdict'' then Accept else Reject [c]
             | None \<Rightarrow> if \<not> canTransition l target
                      then Reject [''illegal-transition:'' @ lifecycle_name l @ ''->'' @ lifecycle_name target]
                      else Move target)))"

(* coding-agent/src/harness-control-plane/receipt-ingest.ts:54-106 ingestReceipts *)
definition ingest_step :: "js_engine \<Rightarrow> string \<Rightarrow> ingest_result \<Rightarrow> jv \<Rightarrow> ingest_result" where
  "ingest_step eng sid r receipt =
     (case ingest_one eng sid (ir_finalLifecycle r) receipt of
        Reject reasons \<Rightarrow> r\<lparr>ir_rejected := ir_rejected r @ [(receipt, reasons)]\<rparr>
      | Accept \<Rightarrow> r\<lparr>ir_accepted := ir_accepted r @ [receipt]\<rparr>
      | Move target \<Rightarrow>
          r\<lparr>ir_transitions := ir_transitions r
               @ [(ir_finalLifecycle r, target, js_to_string eng (get receipt ''receiptId''))],
            ir_finalLifecycle := target, ir_accepted := ir_accepted r @ [receipt]\<rparr>)"

(* coding-agent/src/harness-control-plane/receipt-ingest.ts:117-132 buildReceiptIngestDigest *)
definition buildReceiptIngestDigest ::
  "js_engine \<Rightarrow> nat \<Rightarrow> nat \<Rightarrow> (jv \<times> string list) list \<Rightarrow> lifecycle \<Rightarrow> lifecycle \<Rightarrow> string"
where
  "buildReceiptIngestDigest eng received acceptedCount rejected initialL finalL =
     take RECEIPT_DIGEST_MAX_CHARS
       (''ingested '' @ dec_string received @ '' receipts: '' @ dec_string acceptedCount @ '' accepted, ''
        @ dec_string (length rejected) @ '' rejected; lifecycle '' @ lifecycle_name initialL @ ''->'' @ lifecycle_name finalL
        @ (if rejected = [] then []
           else ''; rejected: '' @ join '',''
             (map (\<lambda>(receipt, reasons).
                js_to_string eng (coalesce (get_opt receipt ''receiptId'') (JStr ''<malformed>''))
                @ ''('' @ join ''|'' reasons @ '')'') rejected)))"

(* coding-agent/src/harness-control-plane/receipt-ingest.ts:50-115 ingestReceipts *)
definition ingestReceipts :: "js_engine \<Rightarrow> session_state \<Rightarrow> jv list \<Rightarrow> ingest_result" where
  "ingestReceipts eng st receipts =
     (let r = foldl (ingest_step eng (s_sessionId st))
                \<lparr>ir_accepted = [], ir_rejected = [], ir_transitions = [], ir_finalLifecycle = s_lifecycle st, ir_digest = []\<rparr>
                receipts
      in r\<lparr>ir_digest := buildReceiptIngestDigest eng (length receipts) (length (ir_accepted r)) (ir_rejected r)
             (s_lifecycle st) (ir_finalLifecycle r)\<rparr>)"

section \<open>Lemmas\<close>

text \<open>A receipt that may complete this session.\<close>

definition completes :: "js_engine \<Rightarrow> string \<Rightarrow> jv \<Rightarrow> bool" where
  "completes eng sid x \<longleftrightarrow>
     vo_valid (validateReceipt eng x) \<and> get x ''valid'' = JBool True \<and> get x ''sessionId'' = JStr sid
   \<and> (get x ''family'' = JStr ''completion'' \<and> get (get x ''evidence'') ''finalLifecycle'' = JStr ''completed''
      \<or> get x ''family'' = JStr ''review-verdict''
        \<and> get (get x ''evidence'') ''verdict'' \<in> {JStr ''APPROVE_MERGE_READY'', JStr ''REQUEST_CHANGES''})"

lemma verdict_cases: "isReviewVerdict s \<noteq> None \<Longrightarrow> s \<in> {''APPROVE_MERGE_READY'', ''REQUEST_CHANGES'', ''OWNER_CONFIRMATION_REQUIRED''}"
  by (auto simp: isReviewVerdict_def REVIEW_VERDICTS_def split: if_splits)

lemma valid_verdict_receipt:
  "vo_valid (validateReceipt eng x) \<Longrightarrow> get x ''family'' = JStr ''review-verdict'' \<Longrightarrow>
     get (get x ''evidence'') ''verdict'' \<in> JStr ` {''APPROVE_MERGE_READY'', ''REQUEST_CHANGES'', ''OWNER_CONFIRMATION_REQUIRED''}"
  using verdict_cases
  by (auto simp: valid_iff validateFamily_def is_str_def validateReviewVerdict_def Let_def split: if_splits jv.splits)

lemma ingest_one_Move:
  assumes "ingest_one eng sid l x = Move t"
  shows "t = Completed \<and> canTransition l Completed \<and> completes eng sid x"
proof -
  have v: "vo_valid (validateReceipt eng x)" "get x ''valid'' = JBool True" "get x ''sessionId'' = JStr sid"
    using assms by (auto simp: ingest_one_def Let_def is_str_def split: if_splits)
  obtain f where f: "get x ''family'' = JStr f" "map_of RECEIPT_FAMILY_LIFECYCLE_TARGETS f = Some t"
    and c: "evidenceContradiction eng x t = None" "canTransition l t"
    using assms v by (auto simp: ingest_one_def Let_def is_str_def split: if_splits option.splits jv.splits)
  have t: "t = Completed" "f = ''completion'' \<or> f = ''review-verdict''"
    using f(2) by (auto simp: RECEIPT_FAMILY_LIFECYCLE_TARGETS_def split: if_splits)
  show ?thesis
    using t(2)
  proof
    assume "f = ''completion''"
    with c f t v show ?thesis by (auto simp: evidenceContradiction_def completes_def is_str_def Let_def split: if_splits)
  next
    assume "f = ''review-verdict''"
    with c f t v valid_verdict_receipt [OF v(1)] show ?thesis
      by (auto simp: evidenceContradiction_def completes_def is_str_def Let_def split: if_splits)
  qed
qed

lemma ingest_one_accepts:
  "ingest_one eng sid l x = Accept \<or> ingest_one eng sid l x = Move t \<Longrightarrow>
     vo_valid (validateReceipt eng x) \<and> get x ''valid'' = JBool True \<and> get x ''sessionId'' = JStr sid"
  by (auto simp: ingest_one_def Let_def is_str_def split: if_splits)

lemma completed_stays: "ingest_one eng sid Completed x \<noteq> Move t"
  using ingest_one_Move [of eng sid Completed x t] by (auto simp: canTransition_def)

lemma shuffles_snoc: "xs \<in> shuffles as bs \<Longrightarrow> xs @ [x] \<in> shuffles (as @ [x]) bs"
proof (induction as bs arbitrary: xs rule: shuffles.induct)
  case (1 ys)
  then show ?case by (induction ys arbitrary: xs) auto
qed auto

lemma shuffles_snoc2: "xs \<in> shuffles as bs \<Longrightarrow> xs @ [x] \<in> shuffles as (bs @ [x])"
  using shuffles_snoc [of xs bs as x] by (simp add: shuffles_commutes)

definition ingest_start :: "lifecycle \<Rightarrow> ingest_result" where
  "ingest_start l = \<lparr>ir_accepted = [], ir_rejected = [], ir_transitions = [], ir_finalLifecycle = l, ir_digest = []\<rparr>"

text \<open>The state of the loop: at most one move, justified by an accepted receipt.\<close>

definition ingest_inv :: "js_engine \<Rightarrow> string \<Rightarrow> lifecycle \<Rightarrow> jv list \<Rightarrow> ingest_result \<Rightarrow> bool" where
  "ingest_inv eng sid l xs r \<longleftrightarrow>
     xs \<in> shuffles (ir_accepted r) (map fst (ir_rejected r))
   \<and> (\<forall>x \<in> set (ir_accepted r). vo_valid (validateReceipt eng x) \<and> get x ''valid'' = JBool True \<and> get x ''sessionId'' = JStr sid)
   \<and> (ir_transitions r = [] \<and> ir_finalLifecycle r = l
      \<or> ir_finalLifecycle r = Completed \<and> canTransition l Completed
        \<and> (\<exists>x \<in> set (ir_accepted r). completes eng sid x
             \<and> ir_transitions r = [(l, Completed, js_to_string eng (get x ''receiptId''))]))"

lemma ingest_step_inv: "ingest_inv eng sid l xs r \<Longrightarrow> ingest_inv eng sid l (xs @ [x]) (ingest_step eng sid r x)"
proof (cases "ingest_one eng sid (ir_finalLifecycle r) x")
  case (Reject reasons)
  assume "ingest_inv eng sid l xs r"
  with Reject show ?thesis by (auto simp: ingest_inv_def ingest_step_def shuffles_snoc2)
next
  case Accept
  assume "ingest_inv eng sid l xs r"
  with Accept ingest_one_accepts [of eng sid "ir_finalLifecycle r" x] show ?thesis
    by (auto simp: ingest_inv_def ingest_step_def shuffles_snoc)
next
  case (Move t)
  assume inv: "ingest_inv eng sid l xs r"
  have m: "t = Completed" "canTransition (ir_finalLifecycle r) Completed" "completes eng sid x"
    using ingest_one_Move [OF Move] by auto
  have "ir_finalLifecycle r \<noteq> Completed" using Move completed_stays by metis
  with inv have tr: "ir_transitions r = []" "ir_finalLifecycle r = l" by (auto simp: ingest_inv_def)
  show ?thesis
    using inv Move m tr ingest_one_accepts [of eng sid "ir_finalLifecycle r" x t]
    by (auto simp: ingest_inv_def ingest_step_def shuffles_snoc)
qed

lemma ingest_fold_inv: "ingest_inv eng sid l xs (foldl (ingest_step eng sid) (ingest_start l) xs)"
proof (induction xs rule: rev_induct)
  case Nil
  show ?case by (simp add: ingest_inv_def ingest_start_def)
next
  case (snoc x xs)
  then show ?case using ingest_step_inv by simp
qed

section \<open>Properties of ingestion\<close>

text \<open>Ingestion never loses or invents a receipt: the accepted and the rejected receipts, each in the order given,
  interleave to exactly the input; every accepted receipt validates, is marked valid by its issuer and belongs
  to this session; the digest never exceeds 280 characters.\<close>

theorem ingest_partition:
  "receipts \<in> shuffles (ir_accepted (ingestReceipts eng st receipts)) (map fst (ir_rejected (ingestReceipts eng st receipts)))
   \<and> list_all (\<lambda>x. vo_valid (validateReceipt eng x) \<and> get x ''valid'' = JBool True \<and> get x ''sessionId'' = JStr (s_sessionId st))
       (ir_accepted (ingestReceipts eng st receipts))
   \<and> length (ir_digest (ingestReceipts eng st receipts)) \<le> 280"
  using ingest_fold_inv [of eng "s_sessionId st" "s_lifecycle st" receipts]
  by (simp add: ingestReceipts_def ingest_inv_def ingest_start_def [symmetric] list_all_iff buildReceiptIngestDigest_def
      RECEIPT_DIGEST_MAX_CHARS_def Let_def)

text \<open>C38. Only evidence moves the lifecycle: whatever receipts are fed in, in whatever order, either the lifecycle
  stays and no transition is reported, or exactly one is, from the initial lifecycle to completed, legal in the
  state machine and justified by an accepted receipt of this session that validates and is a completion receipt
  claiming completion, or a review verdict other than owner confirmation.\<close>

theorem ingest_moves_justified:
  "ir_transitions (ingestReceipts eng st receipts) = [] \<and> ir_finalLifecycle (ingestReceipts eng st receipts) = s_lifecycle st
   \<or> canTransition (s_lifecycle st) Completed \<and> ir_finalLifecycle (ingestReceipts eng st receipts) = Completed
     \<and> (\<exists>x. x \<in> set (ir_accepted (ingestReceipts eng st receipts))
         \<and> ir_transitions (ingestReceipts eng st receipts)
             = [(s_lifecycle st, Completed, js_to_string eng (get x ''receiptId''))]
         \<and> vo_valid (validateReceipt eng x) \<and> get x ''valid'' = JBool True \<and> get x ''sessionId'' = JStr (s_sessionId st)
         \<and> (get x ''family'' = JStr ''completion'' \<and> get (get x ''evidence'') ''finalLifecycle'' = JStr ''completed''
            \<or> get x ''family'' = JStr ''review-verdict''
              \<and> get (get x ''evidence'') ''verdict'' \<in> {JStr ''APPROVE_MERGE_READY'', JStr ''REQUEST_CHANGES''}))"
  using ingest_fold_inv [of eng "s_sessionId st" "s_lifecycle st" receipts]
  unfolding ingestReceipts_def ingest_inv_def ingest_start_def [symmetric] Let_def completes_def
  by (simp del: foldl_Cons) blast

end
