(* ===== verification/Node_Path.thy ===== *)
theory Node_Path
  imports GJC_Prelude
begin

text \<open>
  What the modelled code uses of \<^verbatim>\<open>node:path\<close> (POSIX): \<^verbatim>\<open>normalize\<close>, \<^verbatim>\<open>join\<close> and \<^verbatim>\<open>resolve\<close>. A path is
  split at its separators and the segments are resolved on a stack, as \<^verbatim>\<open>normalizeString\<close> does: empty and
  \<^verbatim>\<open>.\<close> segments disappear, \<^verbatim>\<open>..\<close> removes the last segment, or is kept where a relative path may leave
  its start.
\<close>

definition sep :: char where
  "sep = CHR ''/''"

fun push_segment :: "bool \<Rightarrow> string list \<Rightarrow> string \<Rightarrow> string list" where
  "push_segment allowAbove stack s =
     (if s = [] \<or> s = ''.'' then stack
      else if s = ''..''
      then (case stack of
              t # rest \<Rightarrow> if t = ''..'' then (if allowAbove then s # stack else stack) else rest
            | [] \<Rightarrow> if allowAbove then [s] else [])
      else s # stack)"

declare push_segment.simps [simp del]

definition normalize_segments :: "bool \<Rightarrow> string list \<Rightarrow> string list" where
  "normalize_segments allowAbove segs = rev (foldl (push_segment allowAbove) [] segs)"

definition is_absolute :: "string \<Rightarrow> bool" where
  "is_absolute p = (case p of [] \<Rightarrow> False | c # _ \<Rightarrow> c = sep)"

definition path_normalize :: "string \<Rightarrow> string" where
  "path_normalize p =
     (if p = [] then ''.''
      else let segs = join [sep] (normalize_segments (\<not> is_absolute p) (split_at sep p));
               trailing = (if last p = sep then [sep] else [])
           in if is_absolute p then (if segs = [] then [sep] else sep # segs @ trailing)
              else if segs = [] then ''.'' @ trailing else segs @ trailing)"

definition path_join :: "string list \<Rightarrow> string" where
  "path_join ps = (let qs = filter (\<lambda>p. p \<noteq> []) ps in if qs = [] then ''.'' else path_normalize (join [sep] qs))"

text \<open>\<^verbatim>\<open>path.resolve(p)\<close> against the working directory, itself absolute.\<close>

definition path_resolve :: "string \<Rightarrow> string \<Rightarrow> string" where
  "path_resolve cwd p =
     (let full = (if is_absolute p then p else cwd @ [sep] @ p)
      in sep # join [sep] (normalize_segments False (split_at sep full)))"

section \<open>Absolute normal paths\<close>

text \<open>A plain segment names a directory entry; an absolute normal path is a list of them.\<close>

definition plain :: "string \<Rightarrow> bool" where
  "plain s \<longleftrightarrow> s \<noteq> [] \<and> s \<noteq> ''.'' \<and> s \<noteq> ''..'' \<and> sep \<notin> set s"

definition abs_path :: "string list \<Rightarrow> string" where
  "abs_path segs = sep # join [sep] segs"

lemma push_plain: "plain s \<Longrightarrow> push_segment a stack s = s # stack"
  by (simp add: plain_def push_segment.simps)

lemma push_empty [simp]: "push_segment a stack [] = stack"
  by (simp add: push_segment.simps)

lemma foldl_push_plain: "list_all plain segs \<Longrightarrow> foldl (push_segment a) stack segs = rev segs @ stack"
  by (induction segs arbitrary: stack) (simp_all add: push_plain)

lemma normalize_plain: "list_all plain segs \<Longrightarrow> normalize_segments a segs = segs"
  by (simp add: normalize_segments_def foldl_push_plain)

lemma normalize_segments_plain:
  assumes "\<forall>s \<in> set segs. sep \<notin> set s"
  shows "list_all plain (normalize_segments False segs)"
proof -
  have "list_all plain (foldl (push_segment False) stack segs)" if "list_all plain stack" for stack
    using assms that
    by (induction segs arbitrary: stack)
       (auto simp: push_segment.simps plain_def split: list.splits)
  from this [of "[]"] show ?thesis by (simp add: normalize_segments_def list_all_iff)
qed

lemma split_at_append: "split_at c (x @ c # y) = split_at c x @ split_at c y"
  by (induction x) (auto split: list.splits)

lemma split_at_no_sep_in: "s \<in> set (split_at c p) \<Longrightarrow> c \<notin> set s"
proof (induction p arbitrary: s)
  case (Cons x xs)
  obtain w ws where w: "split_at c xs = w # ws" by (cases "split_at c xs") auto
  with Cons show ?case by (auto split: if_splits)
qed simp

lemma split_join_plain: "list_all plain ss \<Longrightarrow> split_at sep (join [sep] ss) = (if ss = [] then [[]] else ss)"
  by (auto simp: split_at_join list_all_iff plain_def)

lemma join_not_Nil: "list_all plain ss \<Longrightarrow> ss \<noteq> [] \<Longrightarrow> join [sep] ss \<noteq> [] \<and> last (join [sep] ss) \<noteq> sep"
proof (induction ss rule: induct_list012)
  case (2 x)
  then show ?case by (auto simp: plain_def dest: last_in_set)
qed auto

text \<open>Joining plain segments to an absolute normal path appends them.\<close>

lemma path_join_abs:
  assumes "list_all plain r" "list_all plain ss" "ss \<noteq> []"
  shows "path_join (abs_path r # ss) = abs_path (r @ ss)"
proof -
  have ne: "filter (\<lambda>p. p \<noteq> []) (abs_path r # ss) = abs_path r # ss"
    using assms(2) by (auto simp: abs_path_def list_all_iff plain_def)
  define p where "p = join [sep] (abs_path r # ss)"
  have p: "p = sep # join [sep] r @ sep # join [sep] ss"
    using assms(3) by (simp add: p_def abs_path_def join_Cons)
  have "split_at sep p = [] # split_at sep (join [sep] r) @ ss"
    using assms by (simp add: p split_at_append split_join_plain)
  then have "normalize_segments False (split_at sep p) = r @ ss"
    using assms by (simp add: normalize_segments_def split_join_plain foldl_push_plain)
  moreover have "is_absolute p" "p \<noteq> []" "last p \<noteq> sep"
    using join_not_Nil [OF assms(2,3)] by (simp_all add: p is_absolute_def)
  ultimately have "path_normalize p = abs_path (r @ ss)"
    using join_not_Nil [of "r @ ss"] assms by (simp add: path_normalize_def abs_path_def Let_def)
  then show ?thesis unfolding path_join_def Let_def ne p_def by simp
qed

lemma abs_path_inj:
  assumes "list_all plain r" "list_all plain s" "abs_path r = abs_path s"
  shows "r = s"
proof -
  have "split_at sep (join [sep] r) = split_at sep (join [sep] s)" using assms(3) by (simp add: abs_path_def)
  then show ?thesis using assms(1,2) by (auto simp: split_join_plain plain_def split: if_splits)
qed

lemma path_resolve_abs:
  obtains r where "list_all plain r" "path_resolve cwd p = abs_path r"
proof -
  define segs where "segs = split_at sep (if is_absolute p then p else cwd @ [sep] @ p)"
  have "list_all plain (normalize_segments False segs)"
    unfolding segs_def using split_at_no_sep_in by (intro normalize_segments_plain ballI)
  then show ?thesis
    by (rule that) (simp add: path_resolve_def abs_path_def segs_def Let_def)
qed

text \<open>Resolving an absolute normal path does nothing.\<close>

lemma path_resolve_id: "list_all plain r \<Longrightarrow> path_resolve cwd (abs_path r) = abs_path r"
  by (simp add: path_resolve_def abs_path_def is_absolute_def Let_def split_join_plain normalize_segments_def
      foldl_push_plain)

end
