(* ===== verification/Receipt_Spool.thy ===== *)
theory Receipt_Spool
  imports Canonical_Json Node_Path
begin

text \<open>
  The receipt spool (\<^verbatim>\<open>harness-control-plane/receipt-spool.ts\<close>): an append-only JSON-lines file of
  receipts under monotone cursors, shared by several processes, each with its own cache of the highest
  cursor keyed by the file's revision (modification time and size).

  A line of the file is \<open>Some v\<close> when \<^verbatim>\<open>JSON.parse\<close> accepts it and \<open>None\<close> otherwise; \<open>sf_torn\<close> says that a crash
  left the last line without its newline, in which case the next append is glued to it. An append runs under
  the in-process queue and the file lock, so it is one step.
\<close>

section \<open>Model\<close>

record spool_file =
  sf_lines :: "jv option list"
  sf_torn :: bool
  sf_mtimeMs :: nat
  sf_size :: nat

(* coding-agent/src/harness-control-plane/receipt-spool.ts:25-29 ReceiptSpoolCursorCache *)
record cursor_cache =
  cc_mtimeMs :: nat
  cc_size :: nat
  cc_highest :: nat

type_synonym spool_disk = "(string, spool_file) jsmap"
type_synonym spool_caches = "(string, cursor_cache) jsmap"

(* coding-agent/src/harness-control-plane/receipt-spool.ts:8-9 RECEIPT_SPOOL_CURSOR_WIDTH *)
definition RECEIPT_SPOOL_CURSOR_WIDTH :: nat where
  "RECEIPT_SPOOL_CURSOR_WIDTH = 12"

(* coding-agent/src/harness-control-plane/receipt-spool.ts:78-80 receiptSpoolPath *)
definition receiptSpoolPath :: "string \<Rightarrow> string \<Rightarrow> string" where
  "receiptSpoolPath cwd spoolDir = path_join [path_resolve cwd spoolDir, ''spool.jsonl'']"

text \<open>\<open>active\<close> is the directory of the enclosing \<^verbatim>\<open>withReceiptSpoolDir\<close>, \<open>raw\<close> the environment variable.\<close>

(* coding-agent/src/harness-control-plane/receipt-spool.ts:71-76 resolveReceiptSpoolDir *)
definition resolveReceiptSpoolDir :: "string \<Rightarrow> string option \<Rightarrow> string option \<Rightarrow> string option" where
  "resolveReceiptSpoolDir cwd active raw =
     (case active of
        Some d \<Rightarrow> Some d
      | None \<Rightarrow> (case map_option trim raw of
          None \<Rightarrow> None
        | Some d \<Rightarrow> if d = [] then None else Some (path_resolve cwd d)))"

(* coding-agent/src/harness-control-plane/receipt-spool.ts:82-89 parseCursor *)
definition parseCursor :: "jv \<Rightarrow> nat option" where
  "parseCursor v =
     (case v of JStr s \<Rightarrow> if s \<noteq> [] \<and> list_all digit_char s then Some (dec_value s) else None | _ \<Rightarrow> None)"

(* coding-agent/src/harness-control-plane/receipt-spool.ts:91-94 formatReceiptSpoolCursor *)
definition formatReceiptSpoolCursor :: "nat \<Rightarrow> string" where
  "formatReceiptSpoolCursor cursor =
     (let raw = dec_string cursor
      in if length raw \<ge> RECEIPT_SPOOL_CURSOR_WIDTH then raw
         else replicate (RECEIPT_SPOOL_CURSOR_WIDTH - length raw) CHR ''0'' @ raw)"

(* coding-agent/src/harness-control-plane/receipt-spool.ts:55-57 sameSpoolRevision *)
definition sameSpoolRevision :: "cursor_cache \<Rightarrow> spool_file \<Rightarrow> bool" where
  "sameSpoolRevision a b \<longleftrightarrow> cc_mtimeMs a = sf_mtimeMs b \<and> cc_size a = sf_size b"

text \<open>The cursor of one line, and the scan of the whole file.\<close>

definition line_cursor :: "jv option \<Rightarrow> nat option" where
  "line_cursor l = Option.bind l (\<lambda>v. parseCursor (get v ''cursor''))"

(* coding-agent/src/harness-control-plane/receipt-spool.ts:108-119 readHighestReceiptSpoolCursor *)
definition scan_highest :: "jv option list \<Rightarrow> nat" where
  "scan_highest ls =
     foldl (\<lambda>highest l. case line_cursor l of None \<Rightarrow> highest | Some c \<Rightarrow> if c > highest then c else highest) 0 ls"

(* coding-agent/src/harness-control-plane/receipt-spool.ts:96-122 readHighestReceiptSpoolCursor *)
definition readHighestReceiptSpoolCursor :: "string \<Rightarrow> spool_disk \<Rightarrow> spool_caches \<Rightarrow> string \<Rightarrow> nat \<times> spool_caches" where
  "readHighestReceiptSpoolCursor cwd disk cache spoolDir =
     (let spoolFile = receiptSpoolPath cwd spoolDir in
      case map_of disk spoolFile of
        None \<Rightarrow> (0, AList.delete spoolFile cache)
      | Some f \<Rightarrow>
          let scanned = scan_highest (sf_lines f);
              rescan = (scanned, AList.update spoolFile
                 \<lparr>cc_mtimeMs = sf_mtimeMs f, cc_size = sf_size f, cc_highest = scanned\<rparr> cache)
          in case map_of cache spoolFile of
               Some c \<Rightarrow> if sameSpoolRevision c f then (cc_highest c, cache) else rescan
             | None \<Rightarrow> rescan)"

text \<open>Appending one line of text at time \<open>now\<close>: the file is created on demand; a torn tail swallows the line. The
  size grows by the length of the JSON text, which does not depend on the order of the keys, and the newline.\<close>

definition append_line :: "js_engine \<Rightarrow> nat \<Rightarrow> jv \<Rightarrow> spool_file option \<Rightarrow> spool_file" where
  "append_line eng now record f =
     (case f of
        None \<Rightarrow> \<lparr>sf_lines = [Some record], sf_torn = False, sf_mtimeMs = now, sf_size = Suc (length (canonicalJson eng record))\<rparr>
      | Some g \<Rightarrow> \<lparr>sf_lines = sf_lines g @ [if sf_torn g then None else Some record], sf_torn = False,
                  sf_mtimeMs = now, sf_size = sf_size g + Suc (length (canonicalJson eng record))\<rparr>)"

record spool_append_result =
  sa_cursor :: string
  sa_path :: string

(* coding-agent/src/harness-control-plane/receipt-spool.ts:137-163 appendReceiptToSpool *)
definition appendReceiptToSpool ::
  "js_engine \<Rightarrow> string \<Rightarrow> nat \<Rightarrow> spool_disk \<Rightarrow> spool_caches \<Rightarrow> string \<Rightarrow> jv \<Rightarrow> spool_disk \<times> spool_caches \<times> spool_append_result"
where
  "appendReceiptToSpool eng cwd now disk cache spoolDir envelope =
     (let resolvedDir = path_resolve cwd spoolDir;
          spoolFile = receiptSpoolPath cwd resolvedDir;
          (highest, cache1) = readHighestReceiptSpoolCursor cwd disk cache resolvedDir;
          cursor = formatReceiptSpoolCursor (highest + 1);
          f = append_line eng now (JObj [(''cursor'', JStr cursor), (''envelope'', envelope)]) (map_of disk spoolFile)
      in (AList.update spoolFile f disk,
          AList.update spoolFile \<lparr>cc_mtimeMs = sf_mtimeMs f, cc_size = sf_size f, cc_highest = dec_value cursor\<rparr> cache1,
          \<lparr>sa_cursor = cursor, sa_path = spoolFile\<rparr>))"

(* coding-agent/src/harness-control-plane/receipt-spool.ts:165-172 appendReceiptToConfiguredSpool *)
definition appendReceiptToConfiguredSpool ::
  "js_engine \<Rightarrow> string \<Rightarrow> nat \<Rightarrow> string option \<Rightarrow> spool_disk \<Rightarrow> spool_caches \<Rightarrow> jv
     \<Rightarrow> spool_disk \<times> spool_caches \<times> spool_append_result option"
where
  "appendReceiptToConfiguredSpool eng cwd now spoolDir disk cache envelope =
     (case spoolDir of
        None \<Rightarrow> (disk, cache, None)
      | Some d \<Rightarrow> (case appendReceiptToSpool eng cwd now disk cache d envelope of (disk', cache', r) \<Rightarrow> (disk', cache', Some r)))"

section \<open>Cursor text\<close>

lemma format_digits: "list_all digit_char (formatReceiptSpoolCursor n)" "formatReceiptSpoolCursor n \<noteq> []"
proof -
  have "digit_char CHR ''0''" by (simp add: digit_char_def)
  then show "list_all digit_char (formatReceiptSpoolCursor n)"
    using dec_string_digits [of _ n] by (auto simp: formatReceiptSpoolCursor_def Let_def list_all_iff)
  show "formatReceiptSpoolCursor n \<noteq> []" by (simp add: formatReceiptSpoolCursor_def Let_def)
qed

lemma dec_value_format [simp]: "dec_value (formatReceiptSpoolCursor n) = n"
  by (simp add: formatReceiptSpoolCursor_def Let_def)

lemma parse_format [simp]: "parseCursor (JStr (formatReceiptSpoolCursor n)) = Some n"
  using format_digits [of n] by (simp add: parseCursor_def)

section \<open>Several processes on one spool\<close>

text \<open>The disk, the cursor cache of every process and the cursors handed out so far. A process may restart,
  which empties its cache.\<close>

record spool_world =
  sw_disk :: spool_disk
  sw_caches :: "nat \<Rightarrow> spool_caches"
  sw_issued :: "string list"

definition empty_spool :: spool_world where
  "empty_spool = \<lparr>sw_disk = [], sw_caches = (\<lambda>_. []), sw_issued = []\<rparr>"

inductive spool_step :: "js_engine \<Rightarrow> string \<Rightarrow> string \<Rightarrow> spool_world \<Rightarrow> spool_world \<Rightarrow> bool" for eng cwd d where
  spool_append: "appendReceiptToSpool eng cwd now (sw_disk w) (sw_caches w p) d envelope = (disk', cache', r)
    \<Longrightarrow> spool_step eng cwd d w
         \<lparr>sw_disk = disk', sw_caches = (sw_caches w)(p := cache'), sw_issued = sw_issued w @ [sa_cursor r]\<rparr>"
| spool_restart: "spool_step eng cwd d w (w\<lparr>sw_caches := (sw_caches w)(p := [])\<rparr>)"

inductive spool_reachable :: "js_engine \<Rightarrow> string \<Rightarrow> string \<Rightarrow> spool_world \<Rightarrow> bool" for eng cwd d where
  spool_start: "spool_reachable eng cwd d empty_spool"
| spool_next: "spool_reachable eng cwd d w \<Longrightarrow> spool_step eng cwd d w w' \<Longrightarrow> spool_reachable eng cwd d w'"

text \<open>The invariant: the file holds one parsable line per issued cursor, numbered from 1, and a cache entry of the
  current size holds the number of lines.\<close>

definition cache_ok :: "string \<Rightarrow> spool_file option \<Rightarrow> spool_caches \<Rightarrow> bool" where
  "cache_ok P f cache = (case map_of cache P of
      None \<Rightarrow> True
    | Some c \<Rightarrow> (case f of None \<Rightarrow> False
        | Some g \<Rightarrow> cc_size c \<le> sf_size g \<and> (cc_size c = sf_size g \<longrightarrow> cc_highest c = length (sf_lines g))))"

definition file_ok :: "string list \<Rightarrow> spool_file option \<Rightarrow> bool" where
  "file_ok issued f = (case f of
      None \<Rightarrow> issued = []
    | Some g \<Rightarrow> \<not> sf_torn g \<and> map line_cursor (sf_lines g) = map Some [1..<Suc (length (sf_lines g))]
        \<and> issued = map formatReceiptSpoolCursor [1..<Suc (length (sf_lines g))])"

definition spool_inv :: "string \<Rightarrow> spool_world \<Rightarrow> bool" where
  "spool_inv P w \<longleftrightarrow> file_ok (sw_issued w) (map_of (sw_disk w) P) \<and>
     (\<forall>p. cache_ok P (map_of (sw_disk w) P) (sw_caches w p))"

lemma scan_numbered: "map line_cursor ls = map Some [1..<Suc (length ls)] \<Longrightarrow> scan_highest ls = length ls"
proof (induction ls rule: rev_induct)
  case (snoc l ls)
  then have "map line_cursor ls = map Some [1..<Suc (length ls)]" "line_cursor l = Some (Suc (length ls))"
    by simp_all
  with snoc.IH show ?case by (simp add: scan_highest_def)
qed (simp add: scan_highest_def)

lemma readHighest_ok:
  assumes "file_ok issued (map_of disk P)" "cache_ok P (map_of disk P) cache"
    and "P = receiptSpoolPath cwd d" "readHighestReceiptSpoolCursor cwd disk cache d = (h, cache')"
  shows "h = length issued" "cache_ok P (map_of disk P) cache'"
proof -
  have "h = length issued \<and> cache_ok P (map_of disk P) cache'"
  proof (cases "map_of disk P")
    case None
    with assms show ?thesis
      by (auto simp: readHighestReceiptSpoolCursor_def file_ok_def cache_ok_def js_simps)
  next
    case (Some f)
    then have "scan_highest (sf_lines f) = length (sf_lines f)" "length issued = length (sf_lines f)"
      using assms(1) by (auto simp: file_ok_def scan_numbered simp del: upt_Suc)
    with Some assms show ?thesis
      by (auto simp: readHighestReceiptSpoolCursor_def cache_ok_def sameSpoolRevision_def js_simps Let_def
          split: option.splits if_splits)
  qed
  then show "h = length issued" "cache_ok P (map_of disk P) cache'" by simp_all
qed

lemma append_line_ok:
  assumes "file_ok issued f" "g = append_line eng now (JObj [(''cursor'', JStr (formatReceiptSpoolCursor (Suc (length issued)))), (''envelope'', e)]) f"
  shows "file_ok (issued @ [formatReceiptSpoolCursor (Suc (length issued))]) (Some g)"
    and "length (sf_lines g) = Suc (length issued)"
    and "case f of None \<Rightarrow> True | Some f' \<Rightarrow> sf_size f' < sf_size g"
proof -
  have "file_ok (issued @ [formatReceiptSpoolCursor (Suc (length issued))]) (Some g) \<and> length (sf_lines g) = Suc (length issued)"
  proof (cases f)
    case None
    with assms show ?thesis by (simp add: append_line_def file_ok_def line_cursor_def)
  next
    case (Some f')
    then have n: "length issued = length (sf_lines f')"
      and i: "issued = map formatReceiptSpoolCursor [1..<Suc (length (sf_lines f'))]"
      and m: "map line_cursor (sf_lines f') = map Some [1..<Suc (length (sf_lines f'))]" and t: "\<not> sf_torn f'"
      using assms(1) by (auto simp: file_ok_def simp del: upt_Suc)
    have u: "[Suc 0..<Suc (Suc (length (sf_lines f')))] = [Suc 0..<Suc (length (sf_lines f'))] @ [Suc (length (sf_lines f'))]"
      by (rule upt_Suc_append) simp
    show ?thesis
      using Some assms(2) n i m t unfolding file_ok_def append_line_def
      by (simp add: line_cursor_def u del: upt_Suc)
  qed
  then show "file_ok (issued @ [formatReceiptSpoolCursor (Suc (length issued))]) (Some g)"
    and "length (sf_lines g) = Suc (length issued)" by simp_all
  show "case f of None \<Rightarrow> True | Some f' \<Rightarrow> sf_size f' < sf_size g"
    using assms(2) by (simp add: append_line_def split: option.splits)
qed

lemma cache_ok_grow:
  assumes "cache_ok P f cache" "case f of None \<Rightarrow> True | Some f' \<Rightarrow> sf_size f' < sf_size g"
  shows "cache_ok P (Some g) cache"
  using assms by (auto simp: cache_ok_def split: option.splits)

lemma spool_inv_step:
  assumes inv: "spool_inv P w" and P: "P = receiptSpoolPath cwd (path_resolve cwd d)" and step: "spool_step eng cwd d w w'"
  shows "spool_inv P w'"
  using step
proof (cases rule: spool_step.cases)
  case (spool_append now p envelope disk' cache' r)
  let ?D = "path_resolve cwd d"
  obtain h c1 where h: "readHighestReceiptSpoolCursor cwd (sw_disk w) (sw_caches w p) ?D = (h, c1)" by fastforce
  define g where "g = append_line eng now
      (JObj [(''cursor'', JStr (formatReceiptSpoolCursor (Suc (length (sw_issued w))))), (''envelope'', envelope)]) (map_of (sw_disk w) P)"
  have f: "file_ok (sw_issued w) (map_of (sw_disk w) P)" and c: "\<And>q. cache_ok P (map_of (sw_disk w) P) (sw_caches w q)"
    using inv by (auto simp: spool_inv_def)
  have hn: "h = length (sw_issued w)" and c1: "cache_ok P (map_of (sw_disk w) P) c1"
    using readHighest_ok [OF f c P h] by auto
  note g = append_line_ok [OF f g_def]
  have eqs: "disk' = AList.update P g (sw_disk w)" "sa_cursor r = formatReceiptSpoolCursor (Suc (length (sw_issued w)))"
    "cache' = AList.update P \<lparr>cc_mtimeMs = sf_mtimeMs g, cc_size = sf_size g, cc_highest = Suc (length (sw_issued w))\<rparr> c1"
    using spool_append(2) h hn by (auto simp: appendReceiptToSpool_def Let_def P g_def)
  have "cache_ok P (Some g) cache'" using g(2) by (simp add: eqs cache_ok_def js_simps)
  then show ?thesis
    using g(1) cache_ok_grow [OF c g(3)] by (simp add: spool_append(1) spool_inv_def eqs js_simps)
next
  case (spool_restart p)
  then show ?thesis using inv by (auto simp: spool_inv_def cache_ok_def)
qed

lemma spool_inv_reachable:
  "spool_reachable eng cwd d w \<Longrightarrow> spool_inv (receiptSpoolPath cwd (path_resolve cwd d)) w"
proof (induction rule: spool_reachable.induct)
  case spool_start
  show ?case by (simp add: spool_inv_def empty_spool_def file_ok_def cache_ok_def)
next
  case (spool_next w w')
  then show ?case using spool_inv_step by blast
qed

section \<open>Order of cursor texts\<close>

lemma foldl_dec: "foldl (\<lambda>a c. 10 * a + digit_val c) a s = a * 10 ^ length s + foldl (\<lambda>a c. 10 * a + digit_val c) 0 s"
proof (induction s arbitrary: a)
  case (Cons c s)
  show ?case using Cons [of "10 * a + digit_val c"] Cons [of "digit_val c"] by (simp add: algebra_simps)
qed simp

lemma dec_value_Cons: "dec_value (c # s) = digit_val c * 10 ^ length s + dec_value s"
  using foldl_dec [of "digit_val c" s] by (simp add: dec_value_def)

lemma digit_val_order:
  "digit_char c \<Longrightarrow> digit_char d \<Longrightarrow> (c < d \<longleftrightarrow> digit_val c < digit_val d) \<and> (c = d \<longleftrightarrow> digit_val c = digit_val d)"
  unfolding digit_char_def by (auto simp: digit_val_def less_char_def)

lemma digit_val_less: "digit_char c \<Longrightarrow> digit_val c < 10"
  unfolding digit_char_def by (auto simp: digit_val_def)

lemma dec_value_less: "list_all digit_char s \<Longrightarrow> dec_value s < 10 ^ length s"
proof (induction s)
  case (Cons c s)
  then have "digit_val c \<le> 9" "dec_value s < 10 ^ length s" using digit_val_less [of c] by auto
  then have "digit_val c * 10 ^ length s + dec_value s < 9 * 10 ^ length s + 10 ^ length s"
    by (intro add_le_less_mono mult_right_mono) auto
  then show ?case by (simp add: dec_value_Cons)
qed (simp add: dec_value_def)

lemma dec_value_order:
  "length s = length t \<Longrightarrow> list_all digit_char s \<Longrightarrow> list_all digit_char t \<Longrightarrow> s < t \<longleftrightarrow> dec_value s < dec_value t"
proof (induction s t rule: list_induct2)
  case (Cons c s d t)
  have b: "dec_value s < 10 ^ length t" "dec_value t < 10 ^ length t"
    using Cons.hyps Cons.prems dec_value_less [of s] dec_value_less [of t] by auto
  have step: "x * 10 ^ length t + u < y * 10 ^ length t + v" if "x < y" "u < 10 ^ length t" for x y u v :: nat
  proof -
    have "x * 10 ^ length t + u < Suc x * 10 ^ length t" using that(2) by simp
    also have "\<dots> \<le> y * 10 ^ length t" using that(1) by (intro mult_right_mono) simp_all
    finally show ?thesis by simp
  qed
  show ?case
    using Cons digit_val_order [of c d] b step [of "digit_val c" "digit_val d" "dec_value s" "dec_value t"]
      step [of "digit_val d" "digit_val c" "dec_value t" "dec_value s"]
    by (cases "digit_val c" "digit_val d" rule: linorder_cases) (auto simp: dec_value_Cons)
qed simp

lemma length_dec_string: "n < 10 ^ k \<Longrightarrow> k > 0 \<Longrightarrow> length (dec_string n) \<le> k"
proof (induction k arbitrary: n)
  case (Suc k)
  show ?case
  proof (cases "n < 10")
    case True
    then show ?thesis by (subst dec_string.simps) simp
  next
    case False
    then have "k > 0" using Suc.prems by (cases k) auto
    moreover have "n div 10 < 10 ^ k" using Suc.prems by (simp add: less_mult_imp_div_less mult.commute)
    ultimately show ?thesis using Suc.IH [of "n div 10"] False by (subst dec_string.simps) simp
  qed
qed simp

lemma length_format: "n < 10 ^ 12 \<Longrightarrow> length (formatReceiptSpoolCursor n) = 12"
  using length_dec_string [of n 12] by (auto simp: formatReceiptSpoolCursor_def RECEIPT_SPOOL_CURSOR_WIDTH_def Let_def)

section \<open>Properties of the spool\<close>

text \<open>Cursor text: a formatted cursor reads back as the same number, and below 10^12 the texts all have the
  fixed width 12 and compare as strings exactly as the cursors compare as numbers.\<close>

theorem cursor_text:
  "parseCursor (JStr (formatReceiptSpoolCursor n)) = Some n \<and>
   (if m < 10 ^ 12 \<and> n < 10 ^ 12
    then length (formatReceiptSpoolCursor n) = RECEIPT_SPOOL_CURSOR_WIDTH
      \<and> (formatReceiptSpoolCursor m < formatReceiptSpoolCursor n \<longleftrightarrow> m < n)
    else True)"
  using dec_value_order [of "formatReceiptSpoolCursor m" "formatReceiptSpoolCursor n"] format_digits
  by (simp add: length_format RECEIPT_SPOOL_CURSOR_WIDTH_def)

text \<open>C28. Cursors are never reused: whatever processes append to the spool, in whatever order, with whatever
  clock readings and restarts between, the cursors handed out are 1, 2, 3, ... and the file holds exactly
  one parsable line for each, in that order. The per-process caches never change this.\<close>

theorem spool_cursors_gapless:
  assumes "spool_reachable eng cwd d w"
  shows "sw_issued w = map formatReceiptSpoolCursor [1..<Suc (length (sw_issued w))] \<and>
    (case map_of (sw_disk w) (receiptSpoolPath cwd (path_resolve cwd d)) of
       None \<Rightarrow> sw_issued w = []
     | Some f \<Rightarrow> map line_cursor (sf_lines f) = map Some [1..<Suc (length (sw_issued w))])"
  using spool_inv_reachable [OF assms]
  by (auto simp: spool_inv_def file_ok_def simp del: upt_Suc split: option.splits)

definition spooled_once :: spool_world where
  "spooled_once = (case appendReceiptToSpool sample_engine ''/'' 7 [] [] ''/d'' (JObj []) of
     (disk, cache, r) \<Rightarrow> \<lparr>sw_disk = disk, sw_caches = (\<lambda>_. [])(0 := cache), sw_issued = [sa_cursor r]\<rparr>)"

lemma spooled_once_reachable: "spool_reachable sample_engine ''/'' ''/d'' spooled_once"
proof -
  obtain disk cache r where a: "appendReceiptToSpool sample_engine ''/'' 7 [] [] ''/d'' (JObj []) = (disk, cache, r)"
    by (metis prod_cases3)
  have "spool_step sample_engine ''/'' ''/d'' empty_spool spooled_once"
    using spool_append [of sample_engine "''/''" 7 empty_spool 0 "''/d''" "JObj []" disk cache r] a
    by (simp add: empty_spool_def spooled_once_def)
  with spool_start show ?thesis by (rule spool_next)
qed

theorem spool_cursors_gapless_witness:
  "sw_issued spooled_once = map formatReceiptSpoolCursor [1..<Suc (length (sw_issued spooled_once))]"
  using spool_cursors_gapless [OF spooled_once_reachable] by simp

text \<open>A crash that tears the last line breaks this: the next record is glued to the torn line, so a process that
  scans the file afterwards hands out the same cursor again.\<close>

theorem torn_tail_reuses_cursor:
  assumes "map_of disk (receiptSpoolPath cwd (path_resolve cwd d)) = Some f" "sf_torn f"
    and "appendReceiptToSpool eng cwd now disk [] d e = (disk', c', r)"
    and "appendReceiptToSpool eng cwd now' disk' [] d e' = (disk'', c'', r')"
  shows "sa_cursor r' = sa_cursor r"
proof -
  have "disk' = AList.update (receiptSpoolPath cwd (path_resolve cwd d))
      (append_line eng now (JObj [(''cursor'', JStr (formatReceiptSpoolCursor (scan_highest (sf_lines f) + 1))), (''envelope'', e)]) (Some f)) disk"
    and r: "sa_cursor r = formatReceiptSpoolCursor (scan_highest (sf_lines f) + 1)"
    using assms(1,3) by (auto simp: appendReceiptToSpool_def readHighestReceiptSpoolCursor_def Let_def)
  moreover have "scan_highest (ls @ [None]) = scan_highest ls" for ls
    by (simp add: scan_highest_def line_cursor_def)
  ultimately have "sa_cursor r' = formatReceiptSpoolCursor (scan_highest (sf_lines f) + 1)"
    using assms(2,4)
    by (auto simp: appendReceiptToSpool_def readHighestReceiptSpoolCursor_def Let_def append_line_def js_simps)
  with r show ?thesis by simp
qed

end
