(* ===== verification/Harness_Storage.thy ===== *)
theory Harness_Storage
  imports Harness_Receipts Receipt_Spool
begin

text \<open>
  Session-scoped storage of the harness (\<^verbatim>\<open>harness-control-plane/storage.ts\<close>): session ids and paths, the state
  file, the event log, immutable receipts with their append-only index, the registry of harness roots and
  the control socket names.

  The file system is a record of typed files by path: JSON documents as the value they hold (written atomically
  by temp file and rename), JSON-lines files as the list of their entries. Directories are implicit.
\<close>

section \<open>Files\<close>

(* coding-agent/src/harness-control-plane/types.ts:247-258 EventEnvelope *)
record event_envelope =
  ev_eventId :: string
  ev_cursor :: nat
  ev_createdAt :: string
  ev_severity :: severity
  ev_kind :: string
  ev_state :: session_state_view
  ev_evidence :: jv
  ev_nextAllowedActions :: "next_allowed_action list"
  ev_writer :: "string \<times> nat"

(* coding-agent/src/harness-control-plane/storage.ts:434-440 ReceiptIndexEntry *)
record receipt_index_entry =
  ie_receiptId :: string
  ie_family :: receipt_family
  ie_valid :: bool
  ie_createdAt :: string
  ie_path :: string

(* coding-agent/src/harness-control-plane/storage.ts:26-34 HarnessRootRegistry *)
record root_registry =
  rr_sessionId :: string
  rr_roots :: "(string \<times> string) list"

record harness_fs =
  fs_states :: "(string, session_state) jsmap"
  fs_events :: "(string, event_envelope list) jsmap"
  fs_receipts :: "(string, jv) jsmap"
  fs_index :: "(string, receipt_index_entry list) jsmap"
  fs_registries :: "(string, root_registry) jsmap"
  fs_sockets :: "(string, string \<times> string) jsmap"
  fs_spool :: spool_disk
  fs_spoolCache :: spool_caches

(* coding-agent/src/harness-control-plane/storage.ts:226-234 StorageError *)
datatype storage_error = StorageError (se_message: string) (se_code: string)

section \<open>Session ids and paths\<close>

definition alnum_char :: "char \<Rightarrow> bool" where
  "alnum_char c \<longleftrightarrow> word_char c \<and> c \<noteq> CHR ''_''"

(* coding-agent/src/harness-control-plane/storage.ts:175-175 SESSION_ID_RE *)
definition SESSION_ID_RE :: "string \<Rightarrow> bool" where
  "SESSION_ID_RE s = (case s of
      [] \<Rightarrow> False
    | c # t \<Rightarrow> alnum_char c \<and> length t \<le> 127 \<and> list_all (\<lambda>d. word_char d \<or> d \<in> set ''.-'') t)"

(* coding-agent/src/harness-control-plane/storage.ts:254-258 assertSafeSessionId *)
definition assertSafeSessionId :: "string \<Rightarrow> (storage_error, unit) outcome" where
  "assertSafeSessionId sid =
     (if SESSION_ID_RE sid then Inr () else Inl (StorageError (''unsafe_session_id:'' @ sid) ''unsafe_session_id''))"

(* coding-agent/src/harness-control-plane/storage.ts:266-277 SessionPaths *)
record session_paths =
  sp_dir :: string
  sp_state :: string
  sp_lease :: string
  sp_events :: string
  sp_receiptsIndex :: string
  sp_receiptsDir :: string
  sp_artifactsDir :: string
  sp_controlSock :: string
  sp_controlFifo :: string
  sp_gjcSessionDir :: string

(* coding-agent/src/harness-control-plane/storage.ts:279-294 sessionPaths *)
definition sessionPaths :: "string \<Rightarrow> string \<Rightarrow> (storage_error, session_paths) outcome" where
  "sessionPaths hroot sid =
     (case assertSafeSessionId sid of
        Inl e \<Rightarrow> Inl e
      | Inr _ \<Rightarrow>
          let d = path_join [hroot, ''sessions'', sid] in
          Inr \<lparr>sp_dir = d,
               sp_state = path_join [d, ''state.json''],
               sp_lease = path_join [d, ''lease.json''],
               sp_events = path_join [d, ''events.jsonl''],
               sp_receiptsIndex = path_join [d, ''receipts.jsonl''],
               sp_receiptsDir = path_join [d, ''receipts''],
               sp_artifactsDir = path_join [d, ''artifacts''],
               sp_controlSock = path_join [d, ''control.sock''],
               sp_controlFifo = path_join [d, ''control.fifo''],
               sp_gjcSessionDir = path_join [d, ''gjc-session'']\<rparr>)"

section \<open>State and events\<close>

(* coding-agent/src/harness-control-plane/storage.ts:333-335 readSessionState *)
definition readSessionState :: "harness_fs \<Rightarrow> string \<Rightarrow> string \<Rightarrow> (storage_error, session_state option) outcome" where
  "readSessionState fs hroot sid = map_sum id (\<lambda>p. map_of (fs_states fs) (sp_state p)) (sessionPaths hroot sid)"

(* coding-agent/src/harness-control-plane/storage.ts:397-401 writeSessionState *)
definition writeSessionState :: "harness_fs \<Rightarrow> string \<Rightarrow> session_state \<Rightarrow> (storage_error, harness_fs) outcome" where
  "writeSessionState fs hroot st =
     map_sum id (\<lambda>p. fs\<lparr>fs_states := AList.update (sp_state p) st (fs_states fs)\<rparr>) (sessionPaths hroot (s_sessionId st))"

(* coding-agent/src/harness-control-plane/storage.ts:403-405 sessionExists *)
definition sessionExists :: "harness_fs \<Rightarrow> string \<Rightarrow> string \<Rightarrow> (storage_error, bool) outcome" where
  "sessionExists fs hroot sid = map_sum id (\<lambda>s. s \<noteq> None) (readSessionState fs hroot sid)"

text \<open>A log that does not exist reads as empty; an append creates it.\<close>

definition log_of :: "(string, 'a list) jsmap \<Rightarrow> string \<Rightarrow> 'a list" where
  "log_of m p = (case map_of m p of None \<Rightarrow> [] | Some xs \<Rightarrow> xs)"

definition append_log :: "string \<Rightarrow> 'a \<Rightarrow> (string, 'a list) jsmap \<Rightarrow> (string, 'a list) jsmap" where
  "append_log p x m = AList.update p (log_of m p @ [x]) m"

lemma log_of_append [simp]: "log_of (append_log p x m) q = (if q = p then log_of m p @ [x] else log_of m q)"
  by (simp add: log_of_def append_log_def js_simps)

(* coding-agent/src/harness-control-plane/storage.ts:407-412 appendEvent *)
definition appendEvent :: "harness_fs \<Rightarrow> string \<Rightarrow> string \<Rightarrow> event_envelope \<Rightarrow> (storage_error, harness_fs) outcome" where
  "appendEvent fs hroot sid envelope =
     map_sum id (\<lambda>p. fs\<lparr>fs_events := append_log (sp_events p) envelope (fs_events fs)\<rparr>) (sessionPaths hroot sid)"

(* coding-agent/src/harness-control-plane/storage.ts:414-432 readEvents *)
definition readEvents :: "harness_fs \<Rightarrow> string \<Rightarrow> string \<Rightarrow> nat \<Rightarrow> (storage_error, event_envelope list) outcome" where
  "readEvents fs hroot sid fromCursor =
     map_sum id (\<lambda>p. filter (\<lambda>e. ev_cursor e > fromCursor) (log_of (fs_events fs) (sp_events p))) (sessionPaths hroot sid)"

section \<open>Receipts\<close>

(* coding-agent/src/harness-control-plane/storage.ts:312-331 isReceiptEnvelope *)
definition isReceiptEnvelope :: "jv \<Rightarrow> bool" where
  "isReceiptEnvelope v \<longleftrightarrow>
     is_plain_object v \<and> is_string (get v ''receiptId'') \<and> is_number (get v ''schemaVersion'')
     \<and> is_string (get v ''sessionId'') \<and> is_string (get v ''family'') \<and> is_boolean (get v ''valid'')
     \<and> is_string (get v ''createdAt'') \<and> is_string (get v ''source'')
     \<and> (is_plain_object (get v ''subject'') \<or> is_array (get v ''subject''))
     \<and> (is_plain_object (get v ''evidence'') \<or> is_array (get v ''evidence''))
     \<and> (is_plain_object (get v ''artifactHashes'') \<or> is_array (get v ''artifactHashes''))
     \<and> is_string (get v ''sha256'')"

text \<open>The process around a write: working directory, clock reading and configured spool directory.\<close>

record write_env =
  we_cwd :: string
  we_now :: nat
  we_spoolDir :: "string option"

(* coding-agent/src/harness-control-plane/storage.ts:458-459 writeReceiptImmutable *)
definition receipt_file :: "session_paths \<Rightarrow> receipt_family \<Rightarrow> string \<Rightarrow> string" where
  "receipt_file p family receiptId =
     path_join [path_join [sp_receiptsDir p, family_name family], receiptId @ ''.json'']"

text \<open>The boolean and string fields of the value the index repeats.\<close>

definition as_bool :: "jv \<Rightarrow> bool" where
  "as_bool v = (case v of JBool b \<Rightarrow> b | _ \<Rightarrow> False)"

definition as_str :: "jv \<Rightarrow> string" where
  "as_str v = (case v of JStr s \<Rightarrow> s | _ \<Rightarrow> [])"

(* coding-agent/src/harness-control-plane/storage.ts:442-479 writeReceiptImmutable *)
definition writeReceiptImmutable ::
  "js_engine \<Rightarrow> write_env \<Rightarrow> harness_fs \<Rightarrow> string \<Rightarrow> string \<Rightarrow> receipt_family \<Rightarrow> string \<Rightarrow> jv
     \<Rightarrow> (storage_error, harness_fs \<times> receipt_index_entry) outcome"
where
  "writeReceiptImmutable eng env fs hroot sid family receiptId v =
     (case assertSafeSessionId sid of
        Inl e \<Rightarrow> Inl e
      | Inr _ \<Rightarrow>
        if \<not> SESSION_ID_RE receiptId
        then Inl (StorageError (''unsafe_receipt_id:'' @ receiptId) ''unsafe_receipt_id'')
        else (case sessionPaths hroot sid of
            Inl e \<Rightarrow> Inl e
          | Inr p \<Rightarrow>
              let f = receipt_file p family receiptId in
              if map_of (fs_receipts fs) f \<noteq> None
              then Inl (StorageError (''receipt_immutable_conflict:'' @ family_name family @ ''/'' @ receiptId)
                     ''receipt_immutable_conflict'')
              else
                let entry = \<lparr>ie_receiptId = receiptId, ie_family = family, ie_valid = as_bool (get v ''valid''),
                             ie_createdAt = as_str (get v ''createdAt''), ie_path = f\<rparr>;
                    fs1 = fs\<lparr>fs_receipts := AList.update f v (fs_receipts fs),
                             fs_index := append_log (sp_receiptsIndex p) entry (fs_index fs)\<rparr>;
                    fs2 = (if isReceiptEnvelope v
                           then (case appendReceiptToConfiguredSpool eng (we_cwd env) (we_now env) (we_spoolDir env)
                                        (fs_spool fs1) (fs_spoolCache fs1) v of
                                   (disk, cache, _) \<Rightarrow> fs1\<lparr>fs_spool := disk, fs_spoolCache := cache\<rparr>)
                           else fs1)
                in Inr (fs2, entry)))"

(* coding-agent/src/harness-control-plane/storage.ts:481-502 readReceiptIndex *)
definition readReceiptIndex ::
  "harness_fs \<Rightarrow> string \<Rightarrow> string \<Rightarrow> receipt_family option \<Rightarrow> (storage_error, receipt_index_entry list) outcome"
where
  "readReceiptIndex fs hroot sid family =
     map_sum id (\<lambda>p. filter (\<lambda>e. case family of None \<Rightarrow> True | Some f \<Rightarrow> ie_family e = f)
                      (log_of (fs_index fs) (sp_receiptsIndex p))) (sessionPaths hroot sid)"

section \<open>Roots of a session\<close>

text \<open>The process environment the registry and the sockets read: working directory, temporary directory, user id
  and the two override variables.\<close>

record host_env =
  he_cwd :: string
  he_tmpdir :: string
  he_uid :: string
  he_registryDir :: "string option"
  he_socketDir :: "string option"

text \<open>\<^verbatim>\<open>env.X?.trim()\<close>, kept only when it is not empty.\<close>

definition nonblank :: "string option \<Rightarrow> string option" where
  "nonblank x = (case map_option trim x of Some s \<Rightarrow> if s = [] then None else Some s | None \<Rightarrow> None)"

(* coding-agent/src/harness-control-plane/storage.ts:74-78 harnessRootRegistryDir *)
definition harnessRootRegistryDir :: "host_env \<Rightarrow> string" where
  "harnessRootRegistryDir env =
     (case nonblank (he_registryDir env) of
        Some d \<Rightarrow> path_resolve (he_cwd env) d
      | None \<Rightarrow> path_join [he_tmpdir env, ''gjch'' @ he_uid env, ''harness-roots''])"

(* coding-agent/src/harness-control-plane/storage.ts:80-83 harnessRootRegistryPath *)
definition harnessRootRegistryPath :: "host_env \<Rightarrow> string \<Rightarrow> (storage_error, string) outcome" where
  "harnessRootRegistryPath env sid =
     map_sum id (\<lambda>_. path_join [harnessRootRegistryDir env, sid @ ''.json'']) (assertSafeSessionId sid)"

(* coding-agent/src/harness-control-plane/storage.ts:85-98 readHarnessRootRegistry *)
definition readHarnessRootRegistry :: "host_env \<Rightarrow> harness_fs \<Rightarrow> string \<Rightarrow> (storage_error, root_registry) outcome" where
  "readHarnessRootRegistry env fs sid =
     map_sum id (\<lambda>f. case map_of (fs_registries fs) f of
         Some r \<Rightarrow> if rr_sessionId r = sid then r else \<lparr>rr_sessionId = sid, rr_roots = []\<rparr>
       | None \<Rightarrow> \<lparr>rr_sessionId = sid, rr_roots = []\<rparr>) (harnessRootRegistryPath env sid)"

(* coding-agent/src/harness-control-plane/storage.ts:336-350 rememberHarnessSessionRoot *)
definition rememberHarnessSessionRoot ::
  "host_env \<Rightarrow> string \<Rightarrow> harness_fs \<Rightarrow> string \<Rightarrow> string \<Rightarrow> (storage_error, harness_fs) outcome"
where
  "rememberHarnessSessionRoot env now fs hroot sid =
     (case harnessRootRegistryPath env sid of
        Inl e \<Rightarrow> Inl e
      | Inr f \<Rightarrow>
          let resolvedRoot = path_resolve (he_cwd env) hroot in
          map_sum id (\<lambda>registry. fs\<lparr>fs_registries := AList.update f
              (registry\<lparr>rr_roots := take 8 ((resolvedRoot, now) #
                 filter (\<lambda>(r, _). path_resolve (he_cwd env) r \<noteq> resolvedRoot) (rr_roots registry))\<rparr>) (fs_registries fs)\<rparr>)
            (readHarnessRootRegistry env fs sid))"

text \<open>\<^verbatim>\<open>addCandidate\<close>: each root is read once; only roots that hold the session become candidates.\<close>

(* coding-agent/src/harness-control-plane/storage.ts:362-368 resolveHarnessSessionRoot *)
definition addCandidate ::
  "host_env \<Rightarrow> harness_fs \<Rightarrow> string \<Rightarrow> string list \<times> (string \<times> session_state) list \<Rightarrow> string
     \<Rightarrow> string list \<times> (string \<times> session_state) list"
where
  "addCandidate env fs sid acc candidateRoot =
     (let candidate = path_resolve (he_cwd env) candidateRoot; (seenRoots, candidates) = acc in
      if candidate \<in> set seenRoots then acc
      else (candidate # seenRoots,
            case readSessionState fs candidate sid of
              Inr (Some st) \<Rightarrow> candidates @ [(candidate, st)]
            | _ \<Rightarrow> candidates))"

(* coding-agent/src/harness-control-plane/storage.ts:352-395 resolveHarnessSessionRoot *)
definition resolveHarnessSessionRoot ::
  "host_env \<Rightarrow> harness_fs \<Rightarrow> string \<Rightarrow> string \<Rightarrow> string option \<Rightarrow> (storage_error, string) outcome"
where
  "resolveHarnessSessionRoot env fs hroot sid expectedWorkspace =
     (case assertSafeSessionId sid of
        Inl e \<Rightarrow> Inl e
      | Inr _ \<Rightarrow>
        (case readHarnessRootRegistry env fs sid of
           Inl e \<Rightarrow> Inl e
         | Inr registry \<Rightarrow>
          let resolvedRoot = path_resolve (he_cwd env) hroot;
              candidates = snd (foldl (addCandidate env fs sid) ([], []) (resolvedRoot # map fst (rr_roots registry)))
          in case (case expectedWorkspace of None \<Rightarrow> None | Some w \<Rightarrow> if w = [] then None else Some w) of
               None \<Rightarrow>
                 if resolvedRoot \<in> fst ` set candidates then Inr resolvedRoot
                 else (case candidates of
                     [] \<Rightarrow> Inr resolvedRoot
                   | [c] \<Rightarrow> Inr (fst c)
                   | _ \<Rightarrow> Inl (StorageError (''ambiguous_harness_session_root:'' @ sid) ''ambiguous_harness_session_root''))
             | Some w \<Rightarrow>
                 (let matching = filter (\<lambda>(_, st). path_resolve (he_cwd env) (h_workspace (s_handle st))
                                           = path_resolve (he_cwd env) w) candidates
                  in case matching of
                     [c] \<Rightarrow> Inr (fst c)
                   | _ # _ # _ \<Rightarrow> Inl (StorageError (''ambiguous_harness_session_root:'' @ sid) ''ambiguous_harness_session_root'')
                   | [] \<Rightarrow> if candidates \<noteq> []
                          then Inl (StorageError (''session_workspace_mismatch:'' @ sid) ''session_workspace_mismatch'')
                          else Inr resolvedRoot)))"

section \<open>Control sockets\<close>

(* coding-agent/src/harness-control-plane/storage.ts:176-176 MAX_UNIX_SOCKET_PATH_BYTES *)
definition MAX_UNIX_SOCKET_PATH_BYTES :: nat where
  "MAX_UNIX_SOCKET_PATH_BYTES = 100"

(* coding-agent/src/harness-control-plane/storage.ts:183-187 socketBase *)
definition socketBase :: "host_env \<Rightarrow> bool \<Rightarrow> string \<times> bool" where
  "socketBase env allowOverride =
     (case nonblank (he_socketDir env) of
        Some d \<Rightarrow> if allowOverride then (path_resolve (he_cwd env) d, True)
                  else (path_join [he_tmpdir env, ''gjch'' @ he_uid env], False)
      | None \<Rightarrow> (path_join [he_tmpdir env, ''gjch'' @ he_uid env], False))"

(* coding-agent/src/harness-control-plane/storage.ts:192-207 socketPathForBase *)
fun socket_probe ::
  "harness_fs \<Rightarrow> string \<Rightarrow> string \<Rightarrow> string \<Rightarrow> string \<Rightarrow> nat list \<Rightarrow> (storage_error, harness_fs \<times> string) outcome"
where
  "socket_probe fs hroot sid base digest [] =
     Inl (StorageError (''socket_path_collision:'' @ sid) ''socket_path_collision'')"
| "socket_probe fs hroot sid base digest (len # lens) =
     (let stem = ''c-'' @ take len digest;
          metadataPath = path_join [base, stem @ ''.json''];
          sock = path_join [base, stem @ ''.sock'']
      in case map_of (fs_sockets fs) metadataPath of
           Some existing \<Rightarrow> if existing = (hroot, sid) then Inr (fs, sock) else socket_probe fs hroot sid base digest lens
         | None \<Rightarrow> Inr (fs\<lparr>fs_sockets := AList.update metadataPath (hroot, sid) (fs_sockets fs)\<rparr>, sock))"

(* coding-agent/src/harness-control-plane/storage.ts:189-209 socketPathForBase *)
definition socketPathForBase ::
  "js_engine \<Rightarrow> harness_fs \<Rightarrow> string \<Rightarrow> string \<Rightarrow> string \<Rightarrow> (storage_error, harness_fs \<times> string) outcome"
where
  "socketPathForBase eng fs hroot sid base =
     socket_probe fs hroot sid base (sha256_hex eng (hroot @ [CHR 0x00] @ sid)) [16, 24, 32, 48, 64]"

(* coding-agent/src/harness-control-plane/storage.ts:211-224 controlSocketPath *)
definition controlSocketPath ::
  "js_engine \<Rightarrow> host_env \<Rightarrow> harness_fs \<Rightarrow> string \<Rightarrow> string \<Rightarrow> harness_fs \<times> (storage_error, string) outcome"
where
  "controlSocketPath eng env fs hroot sid =
     (let check = (\<lambda>fs' p. if length p > MAX_UNIX_SOCKET_PATH_BYTES
            then (fs', Inl (StorageError (''socket_path_too_long:'' @ dec_string (length p)) ''socket_path_too_long''))
            else (fs', Inr p))
      in case assertSafeSessionId sid of
        Inl e \<Rightarrow> (fs, Inl e)
      | Inr _ \<Rightarrow>
        (case socketBase env True of (base, fromOverride) \<Rightarrow>
          (case socketPathForBase eng fs hroot sid base of
             Inl e \<Rightarrow> (fs, Inl e)
           | Inr (fs1, p) \<Rightarrow>
               if length p > MAX_UNIX_SOCKET_PATH_BYTES \<and> fromOverride
               then (case socketPathForBase eng fs1 hroot sid (fst (socketBase env False)) of
                       Inl e \<Rightarrow> (fs1, Inl e)
                     | Inr (fs2, p2) \<Rightarrow> check fs2 p2)
               else check fs1 p)))"

section \<open>Path lemmas\<close>

lemma safe_id_plain: "SESSION_ID_RE s \<Longrightarrow> plain s"
proof (cases s)
  case (Cons c t)
  assume "SESSION_ID_RE s"
  with Cons have c: "alnum_char c" and t: "\<forall>d \<in> set t. word_char d \<or> d \<in> set ''.-''"
    by (auto simp: SESSION_ID_RE_def list_all_iff)
  have w: "\<not> word_char sep" "\<not> word_char CHR ''.''" "sep \<notin> set ''.-''"
    by (simp_all add: word_char_def sep_def)
  have "c \<noteq> CHR ''.''" "c \<noteq> sep" using c w unfolding alnum_char_def by blast+
  moreover have "sep \<notin> set t" using t w by blast
  ultimately show ?thesis using Cons by (auto simp: plain_def)
qed (simp add: SESSION_ID_RE_def)

lemma plain_literals [simp]:
  "plain ''sessions''" "plain ''state.json''" "plain ''lease.json''" "plain ''events.jsonl''" "plain ''receipts.jsonl''"
  "plain ''receipts''" "plain ''artifacts''" "plain ''control.sock''" "plain ''control.fifo''" "plain ''gjc-session''"
  by (simp_all add: plain_def sep_def)

lemma plain_family [simp]: "plain (family_name f)"
  by (cases f) (simp_all add: plain_def sep_def)

lemma plain_json [simp]: "SESSION_ID_RE s \<Longrightarrow> plain (s @ ''.json'')"
  using safe_id_plain [of s] by (auto simp: plain_def sep_def)

lemma sessionPaths_Inr: "sessionPaths r sid = Inr p \<Longrightarrow> SESSION_ID_RE sid"
  by (auto simp: sessionPaths_def assertSafeSessionId_def split: if_splits sum.splits)

lemma sessionPaths_abs:
  assumes "list_all plain r" "sessionPaths (abs_path r) sid = Inr p"
  shows "sp_dir p = abs_path (r @ [''sessions'', sid])"
    and "sp_state p = abs_path (r @ [''sessions'', sid, ''state.json''])"
    and "sp_lease p = abs_path (r @ [''sessions'', sid, ''lease.json''])"
    and "sp_events p = abs_path (r @ [''sessions'', sid, ''events.jsonl''])"
    and "sp_receiptsIndex p = abs_path (r @ [''sessions'', sid, ''receipts.jsonl''])"
    and "sp_receiptsDir p = abs_path (r @ [''sessions'', sid, ''receipts''])"
    and "sp_artifactsDir p = abs_path (r @ [''sessions'', sid, ''artifacts''])"
    and "sp_controlSock p = abs_path (r @ [''sessions'', sid, ''control.sock''])"
    and "sp_controlFifo p = abs_path (r @ [''sessions'', sid, ''control.fifo''])"
    and "sp_gjcSessionDir p = abs_path (r @ [''sessions'', sid, ''gjc-session''])"
proof -
  have pl: "plain sid" using sessionPaths_Inr [OF assms(2)] by (rule safe_id_plain)
  have d: "path_join [abs_path r, ''sessions'', sid] = abs_path (r @ [''sessions'', sid])"
    using path_join_abs [OF assms(1), of "[''sessions'', sid]"] pl by simp
  have j: "path_join [abs_path (r @ [''sessions'', sid]), x] = abs_path (r @ [''sessions'', sid, x])" if "plain x" for x
    using path_join_abs [of "r @ [''sessions'', sid]" "[x]"] assms(1) pl that by simp
  have p: "p = (let d = abs_path (r @ [''sessions'', sid]) in
      \<lparr>sp_dir = d, sp_state = path_join [d, ''state.json''], sp_lease = path_join [d, ''lease.json''],
       sp_events = path_join [d, ''events.jsonl''], sp_receiptsIndex = path_join [d, ''receipts.jsonl''],
       sp_receiptsDir = path_join [d, ''receipts''], sp_artifactsDir = path_join [d, ''artifacts''],
       sp_controlSock = path_join [d, ''control.sock''], sp_controlFifo = path_join [d, ''control.fifo''],
       sp_gjcSessionDir = path_join [d, ''gjc-session'']\<rparr>)"
    using assms(2) by (auto simp: sessionPaths_def assertSafeSessionId_def d Let_def split: if_splits sum.splits)
  show "sp_dir p = abs_path (r @ [''sessions'', sid])"
    and "sp_state p = abs_path (r @ [''sessions'', sid, ''state.json''])"
    and "sp_lease p = abs_path (r @ [''sessions'', sid, ''lease.json''])"
    and "sp_events p = abs_path (r @ [''sessions'', sid, ''events.jsonl''])"
    and "sp_receiptsIndex p = abs_path (r @ [''sessions'', sid, ''receipts.jsonl''])"
    and "sp_receiptsDir p = abs_path (r @ [''sessions'', sid, ''receipts''])"
    and "sp_artifactsDir p = abs_path (r @ [''sessions'', sid, ''artifacts''])"
    and "sp_controlSock p = abs_path (r @ [''sessions'', sid, ''control.sock''])"
    and "sp_controlFifo p = abs_path (r @ [''sessions'', sid, ''control.fifo''])"
    and "sp_gjcSessionDir p = abs_path (r @ [''sessions'', sid, ''gjc-session''])"
    unfolding p Let_def by (simp_all add: j)
qed

text \<open>The directory of a receipt holds the family, so receipts of different families never clash.\<close>

lemma receipt_file_abs:
  assumes "list_all plain r" "sessionPaths (abs_path r) sid = Inr p" "SESSION_ID_RE i"
  shows "receipt_file p f i = abs_path (r @ [''sessions'', sid, ''receipts'', family_name f, i @ ''.json''])"
proof -
  have pl: "plain sid" using sessionPaths_Inr [OF assms(2)] by (rule safe_id_plain)
  have "path_join [sp_receiptsDir p, family_name f] = abs_path (r @ [''sessions'', sid, ''receipts'', family_name f])"
    using path_join_abs [of "r @ [''sessions'', sid, ''receipts'']" "[family_name f]"] assms pl
    by (simp add: sessionPaths_abs)
  then show ?thesis
    using path_join_abs [of "r @ [''sessions'', sid, ''receipts'', family_name f]" "[i @ ''.json'']"] assms pl
    by (simp add: receipt_file_def)
qed

lemma receipt_file_inj:
  assumes "list_all plain r" "sessionPaths (abs_path r) sid = Inr p" "SESSION_ID_RE i"
    and "sessionPaths (abs_path r) sid' = Inr p'" "SESSION_ID_RE i'"
  shows "receipt_file p f i = receipt_file p' f' i' \<longleftrightarrow> sid = sid' \<and> f = f' \<and> i = i'"
proof -
  have "plain sid" "plain sid'" using assms sessionPaths_Inr safe_id_plain by blast+
  then show ?thesis
    using assms receipt_file_abs [OF assms(1,2,3), of f] receipt_file_abs [OF assms(1,4,5), of f']
      abs_path_inj [of "r @ [''sessions'', sid, ''receipts'', family_name f, i @ ''.json'']"
        "r @ [''sessions'', sid', ''receipts'', family_name f', i' @ ''.json'']"]
    by auto
qed

section \<open>Write lemmas\<close>

lemma writeReceipt_Inr:
  assumes "writeReceiptImmutable eng env fs hroot sid f i v = Inr (fs', e)"
  obtains p where "sessionPaths hroot sid = Inr p" "SESSION_ID_RE sid" "SESSION_ID_RE i"
    "map_of (fs_receipts fs) (receipt_file p f i) = None"
    "e = \<lparr>ie_receiptId = i, ie_family = f, ie_valid = as_bool (get v ''valid''),
          ie_createdAt = as_str (get v ''createdAt''), ie_path = receipt_file p f i\<rparr>"
    "fs_receipts fs' = AList.update (receipt_file p f i) v (fs_receipts fs)"
    "fs_index fs' = append_log (sp_receiptsIndex p) e (fs_index fs)"
    "fs_states fs' = fs_states fs" "fs_events fs' = fs_events fs"
  using assms
  by (auto simp: writeReceiptImmutable_def Let_def assertSafeSessionId_def split: sum.splits if_splits prod.splits)

section \<open>Candidates of a session root\<close>

definition candidates_ok :: "harness_fs \<Rightarrow> string \<Rightarrow> string list \<times> (string \<times> session_state) list \<Rightarrow> bool" where
  "candidates_ok fs sid acc \<longleftrightarrow>
     (\<forall>(c, st) \<in> set (snd acc). readSessionState fs c sid = Inr (Some st)) \<and>
     (\<forall>c \<in> set (fst acc). \<forall>st. readSessionState fs c sid = Inr (Some st) \<longrightarrow> (c, st) \<in> set (snd acc))"

lemma addCandidate_ok: "candidates_ok fs sid acc \<Longrightarrow> candidates_ok fs sid (addCandidate env fs sid acc x)"
  by (cases acc) (auto simp: addCandidate_def candidates_ok_def Let_def split: sum.splits option.splits)

lemma addCandidate_seen:
  "path_resolve (he_cwd env) x \<in> set (fst (addCandidate env fs sid acc x))"
  "set (fst acc) \<subseteq> set (fst (addCandidate env fs sid acc x))"
  by (cases acc; auto simp: addCandidate_def Let_def)+

lemma foldl_candidates:
  "candidates_ok fs sid acc \<Longrightarrow> candidates_ok fs sid (foldl (addCandidate env fs sid) acc xs)
     \<and> set (fst acc) \<union> path_resolve (he_cwd env) ` set xs \<subseteq> set (fst (foldl (addCandidate env fs sid) acc xs))"
proof (induction xs arbitrary: acc)
  case (Cons x xs)
  show ?case
    using Cons.IH [OF addCandidate_ok [OF Cons.prems, of env x]] addCandidate_seen(1) [of env x fs sid acc] addCandidate_seen(2) [of acc env fs sid x]
    by auto
qed simp

lemma path_resolve_idem: "path_resolve cwd (path_resolve cwd p) = path_resolve cwd p"
  by (rule path_resolve_abs [of cwd p]) (simp add: path_resolve_id)

lemma candidates_sound:
  assumes "cs = snd (foldl (addCandidate env fs sid) ([], []) (path_resolve (he_cwd env) r # rs))"
  shows "(c, st) \<in> set cs \<Longrightarrow> readSessionState fs c sid = Inr (Some st)"
    and "readSessionState fs (path_resolve (he_cwd env) r) sid = Inr (Some st) \<Longrightarrow> (path_resolve (he_cwd env) r, st) \<in> set cs"
proof -
  have "candidates_ok fs sid ([], [])" by (simp add: candidates_ok_def)
  from foldl_candidates [OF this, of env "path_resolve (he_cwd env) r # rs"]
  have ok: "candidates_ok fs sid (foldl (addCandidate env fs sid) ([], []) (path_resolve (he_cwd env) r # rs))"
    and seen: "path_resolve (he_cwd env) r \<in> set (fst (foldl (addCandidate env fs sid) ([], []) (path_resolve (he_cwd env) r # rs)))"
    by (auto simp: path_resolve_idem)
  show "(c, st) \<in> set cs \<Longrightarrow> readSessionState fs c sid = Inr (Some st)"
    using ok unfolding candidates_ok_def assms by blast
  show "readSessionState fs (path_resolve (he_cwd env) r) sid = Inr (Some st) \<Longrightarrow> (path_resolve (he_cwd env) r, st) \<in> set cs"
    using ok seen unfolding candidates_ok_def assms by blast
qed

section \<open>Properties of storage\<close>

text \<open>C37. Confinement: under a normalised absolute root, a session id is accepted exactly when it matches the safe
  pattern, all files of an accepted session lie strictly below \<^verbatim>\<open>root/sessions/<id>\<close> (no id can climb out with
  \<^verbatim>\<open>..\<close> or a separator), and two different sessions share no path at all.\<close>

theorem session_paths_confined:
  assumes "list_all plain r"
  shows "(\<exists>p. sessionPaths (abs_path r) sid = Inr p) = SESSION_ID_RE sid \<and>
    (case sessionPaths (abs_path r) sid of
       Inl e \<Rightarrow> se_code e = ''unsafe_session_id''
     | Inr p \<Rightarrow> {sp_state p, sp_lease p, sp_events p, sp_receiptsIndex p, sp_receiptsDir p, sp_artifactsDir p,
                 sp_controlSock p, sp_controlFifo p, sp_gjcSessionDir p}
              \<subseteq> {abs_path (r @ [''sessions'', sid, f]) |f. plain f}) \<and>
    (if SESSION_ID_RE sid \<and> SESSION_ID_RE sid' \<and> list_all plain q \<and> list_all plain q'
        \<and> abs_path (r @ [''sessions'', sid] @ q) = abs_path (r @ [''sessions'', sid'] @ q')
     then sid = sid' \<and> q = q' else True)"
proof -
  have ok: "\<exists>p. sessionPaths (abs_path r) sid = Inr p" if "SESSION_ID_RE sid"
    using that by (simp add: sessionPaths_def assertSafeSessionId_def Let_def)
  have bad: "sessionPaths (abs_path r) sid = Inl (StorageError (''unsafe_session_id:'' @ sid) ''unsafe_session_id'')"
    if "\<not> SESSION_ID_RE sid"
    using that by (simp add: sessionPaths_def assertSafeSessionId_def)
  have "(\<exists>p. sessionPaths (abs_path r) sid = Inr p) = SESSION_ID_RE sid" using ok bad by (cases "SESSION_ID_RE sid") auto
  moreover have "case sessionPaths (abs_path r) sid of
       Inl e \<Rightarrow> se_code e = ''unsafe_session_id''
     | Inr p \<Rightarrow> {sp_state p, sp_lease p, sp_events p, sp_receiptsIndex p, sp_receiptsDir p, sp_artifactsDir p,
                 sp_controlSock p, sp_controlFifo p, sp_gjcSessionDir p}
              \<subseteq> {abs_path (r @ [''sessions'', sid, f]) |f. plain f}"
  proof (cases "sessionPaths (abs_path r) sid")
    case (Inl e)
    then show ?thesis using ok bad by (cases "SESSION_ID_RE sid") auto
  next
    case (Inr p)
    have pl: "plain f \<Longrightarrow> abs_path (r @ [''sessions'', sid, f]) \<in> {abs_path (r @ [''sessions'', sid, f]) |f. plain f}" for f
      by blast
    show ?thesis by (simp only: Inr sum.case sessionPaths_abs [OF assms Inr] insert_subset empty_subsetI pl plain_literals simp_thms)
  qed
  moreover have "SESSION_ID_RE sid \<and> SESSION_ID_RE sid' \<and> list_all plain q \<and> list_all plain q'
        \<and> abs_path (r @ [''sessions'', sid] @ q) = abs_path (r @ [''sessions'', sid'] @ q') \<Longrightarrow> sid = sid' \<and> q = q'"
    using assms abs_path_inj [of "r @ [''sessions'', sid] @ q" "r @ [''sessions'', sid'] @ q'"] safe_id_plain
    by (auto simp: list_all_iff)
  ultimately show ?thesis by presburger
qed

theorem session_paths_confined_witness:
  "(\<exists>p. sessionPaths (abs_path [''srv'', ''gjc'']) ''h-1'' = Inr p) = SESSION_ID_RE ''h-1''
   \<and> \<not> SESSION_ID_RE ''../x''"
  using session_paths_confined [of "[''srv'', ''gjc'']" "''h-1''" "''h-1''" "[]" "[]"]
  by (simp add: plain_def sep_def SESSION_ID_RE_def alnum_char_def word_char_def)

lemma write_preserves:
  assumes "writeReceiptImmutable eng env fs hroot sid f i v = Inr (fs', e)"
  shows "map_of (fs_receipts fs) \<subseteq>\<^sub>m map_of (fs_receipts fs')" "prefix (log_of (fs_index fs) q) (log_of (fs_index fs') q)"
proof -
  obtain p where n: "map_of (fs_receipts fs) (receipt_file p f i) = None"
    and u: "fs_receipts fs' = AList.update (receipt_file p f i) v (fs_receipts fs)"
      "fs_index fs' = append_log (sp_receiptsIndex p) e (fs_index fs)"
    by (rule writeReceipt_Inr [OF assms])
  show "map_of (fs_receipts fs) \<subseteq>\<^sub>m map_of (fs_receipts fs')"
    using n by (auto simp: u map_le_def js_simps)
  show "prefix (log_of (fs_index fs) q) (log_of (fs_index fs') q)" by (simp add: u)
qed

text \<open>A receipt write as one request, and what it means that a store extends another: every receipt file keeps its content
  and every index file only grows at its end.\<close>

definition write_request ::
  "js_engine \<Rightarrow> string \<Rightarrow> write_env \<times> string \<times> receipt_family \<times> string \<times> jv \<Rightarrow> harness_fs \<Rightarrow> (storage_error, harness_fs) outcome"
where
  "write_request eng hroot w fs =
     (case w of (env, sid, f, i, v) \<Rightarrow> map_sum id fst (writeReceiptImmutable eng env fs hroot sid f i v))"

definition fs_extends :: "harness_fs \<Rightarrow> harness_fs \<Rightarrow> bool" where
  "fs_extends fs fs' \<longleftrightarrow> map_of (fs_receipts fs) \<subseteq>\<^sub>m map_of (fs_receipts fs')
     \<and> (\<forall>q. prefix (log_of (fs_index fs) q) (log_of (fs_index fs') q))"

interpretation receipt_files: growing_store fs_extends "write_request eng hroot" for eng hroot
proof (unfold_locales, goal_cases)
  case (2 s t u)
  then show ?case unfolding fs_extends_def by (meson map_le_trans prefix_order.trans)
next
  case (3 w fs fs')
  obtain env sid f i v where w: "w = (env, sid, f, i, v)" by (cases w)
  with 3 obtain e where "writeReceiptImmutable eng env fs hroot sid f i v = Inr (fs', e)"
    by (cases "writeReceiptImmutable eng env fs hroot sid f i v") (auto simp: write_request_def)
  from write_preserves [OF this] show ?case by (simp add: fs_extends_def)
qed (simp add: fs_extends_def)

text \<open>C27. Receipts are immutable and the index is append-only: over any sequence of receipt writes, by any sessions,
  families and ids, successful or refused, every receipt file keeps its content and every index file only grows
  at its end.\<close>

theorem receipts_immutable:
  "map_of (fs_receipts fs) \<subseteq>\<^sub>m map_of (fs_receipts (receipt_files.write_seq eng hroot ws fs)) \<and>
   prefix (log_of (fs_index fs) q) (log_of (fs_index (receipt_files.write_seq eng hroot ws fs)) q)"
  using receipt_files.write_seq_le [of fs eng hroot ws] by (simp add: fs_extends_def)

text \<open>A receipt is written at most once: a successful write stores the value under its own file, appends one index
  entry that the index of its family then ends with, leaves the other families' index as it was, and any
  further write of the same session, family and id fails closed with \<^verbatim>\<open>receipt_immutable_conflict\<close>.\<close>

theorem receipt_write_once:
  assumes "writeReceiptImmutable eng env fs hroot sid f i v = Inr (fs', e)"
  shows "map_of (fs_receipts fs) (ie_path e) = None \<and> map_of (fs_receipts fs') (ie_path e) = Some v
    \<and> ie_receiptId e = i \<and> ie_family e = f
    \<and> readReceiptIndex fs' hroot sid (Some f) = map_sum id (\<lambda>es. es @ [e]) (readReceiptIndex fs hroot sid (Some f))
    \<and> (if g = f then True else readReceiptIndex fs' hroot sid (Some g) = readReceiptIndex fs hroot sid (Some g))
    \<and> writeReceiptImmutable eng' env' fs' hroot sid f i v'
        = Inl (StorageError (''receipt_immutable_conflict:'' @ family_name f @ ''/'' @ i) ''receipt_immutable_conflict'')"
proof -
  obtain p where p: "sessionPaths hroot sid = Inr p" "SESSION_ID_RE sid" "SESSION_ID_RE i"
    and n: "map_of (fs_receipts fs) (receipt_file p f i) = None"
    and e: "e = \<lparr>ie_receiptId = i, ie_family = f, ie_valid = as_bool (get v ''valid''),
          ie_createdAt = as_str (get v ''createdAt''), ie_path = receipt_file p f i\<rparr>"
    and u: "fs_receipts fs' = AList.update (receipt_file p f i) v (fs_receipts fs)"
      "fs_index fs' = append_log (sp_receiptsIndex p) e (fs_index fs)"
    by (rule writeReceipt_Inr [OF assms])
  have r: "map_of (fs_receipts fs') (receipt_file p f i) = Some v" by (simp add: u js_simps)
  have "readReceiptIndex fs' hroot sid (Some h) = map_sum id (\<lambda>es. if h = f then es @ [e] else es) (readReceiptIndex fs hroot sid (Some h))" for h
    by (simp add: readReceiptIndex_def p u) (simp add: e)
  moreover have "ie_receiptId e = i" "ie_family e = f" "ie_path e = receipt_file p f i" by (simp_all add: e)
  moreover have "writeReceiptImmutable eng' env' fs' hroot sid f i v'
        = Inl (StorageError (''receipt_immutable_conflict:'' @ family_name f @ ''/'' @ i) ''receipt_immutable_conflict'')"
    by (simp add: writeReceiptImmutable_def assertSafeSessionId_def p r)
  ultimately show ?thesis using n r by (simp add: readReceiptIndex_def p(1))
qed

definition empty_fs :: harness_fs where
  "empty_fs = \<lparr>fs_states = [], fs_events = [], fs_receipts = [], fs_index = [], fs_registries = [], fs_sockets = [],
     fs_spool = [], fs_spoolCache = []\<rparr>"

definition no_spool :: write_env where
  "no_spool = \<lparr>we_cwd = ''/'', we_now = 0, we_spoolDir = None\<rparr>"

theorem receipt_write_once_witness:
  "\<exists>fs' e. writeReceiptImmutable sample_engine no_spool empty_fs ''/r'' ''s'' VanishFamily ''v1'' (JObj []) = Inr (fs', e)
    \<and> map_of (fs_receipts fs') (ie_path e) = Some (JObj [])"
proof -
  have "SESSION_ID_RE ''s''" "SESSION_ID_RE ''v1''" by (simp_all add: SESSION_ID_RE_def alnum_char_def word_char_def)
  then obtain fs' e where w: "writeReceiptImmutable sample_engine no_spool empty_fs ''/r'' ''s'' VanishFamily ''v1'' (JObj []) = Inr (fs', e)"
    by (auto simp: writeReceiptImmutable_def sessionPaths_def assertSafeSessionId_def empty_fs_def isReceiptEnvelope_def Let_def)
  with receipt_write_once [OF w] show ?thesis by blast
qed

text \<open>A session is never attached to another workspace: when a workspace is expected, the resolved root either
  stores this session with exactly that workspace, or is the requested root, where no such session is stored.\<close>

theorem resolve_root_workspace:
  assumes "resolveHarnessSessionRoot env fs hroot sid (Some w) = Inr r" "w \<noteq> []"
  shows "(case readSessionState fs r sid of
      Inr (Some st) \<Rightarrow> path_resolve (he_cwd env) (h_workspace (s_handle st)) = path_resolve (he_cwd env) w
    | Inr None \<Rightarrow> r = path_resolve (he_cwd env) hroot
    | Inl _ \<Rightarrow> False)"
proof -
  have sid: "SESSION_ID_RE sid" using assms by (auto simp: resolveHarnessSessionRoot_def assertSafeSessionId_def split: if_splits)
  then obtain registry where reg: "readHarnessRootRegistry env fs sid = Inr registry"
    using assms by (auto simp: resolveHarnessSessionRoot_def assertSafeSessionId_def split: sum.splits)
  define cs where "cs = snd (foldl (addCandidate env fs sid) ([], []) (path_resolve (he_cwd env) hroot # map fst (rr_roots registry)))"
  note sound = candidates_sound [OF cs_def]
  define ms where "ms = filter (\<lambda>(_, st). path_resolve (he_cwd env) (h_workspace (s_handle st)) = path_resolve (he_cwd env) w) cs"
  have "resolveHarnessSessionRoot env fs hroot sid (Some w) = (case ms of [c] \<Rightarrow> Inr (fst c)
      | _ # _ # _ \<Rightarrow> Inl (StorageError (''ambiguous_harness_session_root:'' @ sid) ''ambiguous_harness_session_root'')
      | [] \<Rightarrow> if cs \<noteq> [] then Inl (StorageError (''session_workspace_mismatch:'' @ sid) ''session_workspace_mismatch'')
             else Inr (path_resolve (he_cwd env) hroot))"
    unfolding resolveHarnessSessionRoot_def assertSafeSessionId_def cs_def ms_def Let_def
    using sid reg assms(2) by simp
  note res = this [unfolded assms(1)]
  consider c where "ms = [c]" "r = fst c" | "ms = []" "cs = []" "r = path_resolve (he_cwd env) hroot"
    using res by (auto split: list.splits if_splits)
  then show ?thesis
  proof cases
    case 1
    then have "c \<in> set ms" by simp
    then have "c \<in> set cs" "path_resolve (he_cwd env) (h_workspace (s_handle (snd c))) = path_resolve (he_cwd env) w"
      unfolding ms_def by auto
    with sound(1) [of "fst c" "snd c"] 1 show ?thesis by simp
  next
    case 2
    obtain o' where "readSessionState fs r sid = Inr o'"
      using sid by (auto simp: readSessionState_def sessionPaths_def assertSafeSessionId_def Let_def)
    then show ?thesis using 2 sound(2) by (cases o') auto
  qed
qed

definition quiet_host :: host_env where
  "quiet_host = \<lparr>he_cwd = ''/'', he_tmpdir = ''/tmp'', he_uid = ''0'', he_registryDir = None, he_socketDir = None\<rparr>"

theorem resolve_root_workspace_witness:
  "(case readSessionState empty_fs (path_resolve ''/'' ''/r'') ''s'' of
      Inr (Some st) \<Rightarrow> path_resolve (he_cwd quiet_host) (h_workspace (s_handle st)) = path_resolve (he_cwd quiet_host) ''/w''
    | Inr None \<Rightarrow> path_resolve ''/'' ''/r'' = path_resolve (he_cwd quiet_host) ''/r''
    | Inl _ \<Rightarrow> False)"
proof -
  have s: "SESSION_ID_RE ''s''" by (simp add: SESSION_ID_RE_def alnum_char_def word_char_def)
  then have "\<And>r. readSessionState empty_fs r ''s'' = Inr None"
    by (simp add: readSessionState_def sessionPaths_def assertSafeSessionId_def empty_fs_def Let_def)
  then have "resolveHarnessSessionRoot quiet_host empty_fs ''/r'' ''s'' (Some ''/w'') = Inr (path_resolve ''/'' ''/r'')"
    using s by (simp add: resolveHarnessSessionRoot_def readHarnessRootRegistry_def harnessRootRegistryPath_def assertSafeSessionId_def
        addCandidate_def empty_fs_def quiet_host_def Let_def)
  then show ?thesis by (rule resolve_root_workspace) simp
qed

lemma socket_probe_Inr:
  assumes "socket_probe fs hroot sid base digest lens = Inr (fs', p)"
  shows "map_of (fs_sockets fs) \<subseteq>\<^sub>m map_of (fs_sockets fs') \<and> (\<exists>len \<in> set lens.
     p = path_join [base, (''c-'' @ take len digest) @ ''.sock''] \<and>
     map_of (fs_sockets fs') (path_join [base, (''c-'' @ take len digest) @ ''.json'']) = Some (hroot, sid))"
  using assms
proof (induction lens)
  case (Cons len lens)
  show ?case
  proof (cases "map_of (fs_sockets fs) (path_join [base, (''c-'' @ take len digest) @ ''.json''])")
    case None
    with Cons.prems show ?thesis by (auto simp: Let_def js_simps map_le_def)
  next
    case (Some x)
    show ?thesis
    proof (cases "x = (hroot, sid)")
      case True
      with Some Cons.prems show ?thesis by (auto simp: Let_def)
    next
      case False
      with Some Cons show ?thesis by (auto simp: Let_def)
    qed
  qed
qed simp

lemma plain_stem: "SHA256_HEX digest \<Longrightarrow> sep \<notin> set ext \<Longrightarrow> plain ((''c-'' @ take len digest) @ ext)"
proof -
  assume d: "SHA256_HEX digest" and e: "sep \<notin> set ext"
  have "sep \<notin> set ''0123456789abcdef''" by (simp add: sep_def)
  with d have "sep \<notin> set digest" unfolding SHA256_HEX_def list_all_iff by blast
  then have "sep \<notin> set (take len digest)" by (meson in_set_takeD)
  with e show ?thesis by (simp add: plain_def sep_def)
qed

text \<open>Control sockets are exclusive: with a normalised base directory and hexadecimal digests, a socket name handed
  to one session of one root is never handed to another, also when the truncated digests collide, as long
  as the metadata files persist.\<close>

theorem control_socket_exclusive:
  assumes "list_all plain b" "\<forall>s. SHA256_HEX (sha256_hex eng s)"
    and "socketPathForBase eng fs r s (abs_path b) = Inr (fs1, p)"
    and "map_of (fs_sockets fs1) \<subseteq>\<^sub>m map_of (fs_sockets fs2)"
    and "socketPathForBase eng fs2 r' s' (abs_path b) = Inr (fs3, p')" "(r, s) \<noteq> (r', s')"
  shows "p \<noteq> p'"
proof
  assume same: "p = p'"
  have j: "path_join [abs_path b, (''c-'' @ take l (sha256_hex eng x)) @ ext] = abs_path (b @ [(''c-'' @ take l (sha256_hex eng x)) @ ext])"
    and pl: "plain ((''c-'' @ take l (sha256_hex eng x)) @ ext)" if "sep \<notin> set ext" for l x ext
    using path_join_abs [OF assms(1), of "[(''c-'' @ take l (sha256_hex eng x)) @ ext]"] plain_stem [of _ ext] assms(2) that
    by simp_all
  have ext: "sep \<notin> set ''.sock''" "sep \<notin> set ''.json''" by (simp_all add: sep_def)
  obtain l where l: "p = path_join [abs_path b, (''c-'' @ take l (sha256_hex eng (r @ [CHR 0x00] @ s))) @ ''.sock'']"
    "map_of (fs_sockets fs1) (path_join [abs_path b, (''c-'' @ take l (sha256_hex eng (r @ [CHR 0x00] @ s))) @ ''.json'']) = Some (r, s)"
    using socket_probe_Inr [OF assms(3) [unfolded socketPathForBase_def]] by blast
  obtain l' where l': "p' = path_join [abs_path b, (''c-'' @ take l' (sha256_hex eng (r' @ [CHR 0x00] @ s'))) @ ''.sock'']"
    "map_of (fs_sockets fs3) (path_join [abs_path b, (''c-'' @ take l' (sha256_hex eng (r' @ [CHR 0x00] @ s'))) @ ''.json'']) = Some (r', s')"
    and le: "map_of (fs_sockets fs2) \<subseteq>\<^sub>m map_of (fs_sockets fs3)"
    using socket_probe_Inr [OF assms(5) [unfolded socketPathForBase_def]] by blast
  have "b @ [(''c-'' @ take l (sha256_hex eng (r @ [CHR 0x00] @ s))) @ ''.sock'']
      = b @ [(''c-'' @ take l' (sha256_hex eng (r' @ [CHR 0x00] @ s'))) @ ''.sock'']"
    using l(1) l'(1) same assms(1) pl [OF ext(1)] unfolding j [OF ext(1)] by (intro abs_path_inj) simp_all
  then have "path_join [abs_path b, (''c-'' @ take l (sha256_hex eng (r @ [CHR 0x00] @ s))) @ ''.json'']
      = path_join [abs_path b, (''c-'' @ take l' (sha256_hex eng (r' @ [CHR 0x00] @ s'))) @ ''.json'']" by simp
  moreover have "map_of (fs_sockets fs1) \<subseteq>\<^sub>m map_of (fs_sockets fs3)" using assms(4) le by (rule map_le_trans)
  ultimately show False using l(2) l'(2) assms(6) by (auto simp: map_le_def dom_def)
qed

definition sockets_of_two :: "(harness_fs \<times> string) \<times> (harness_fs \<times> string)" where
  "sockets_of_two = (case socketPathForBase sample_engine empty_fs ''/r'' ''s'' (abs_path [''t'']) of
     Inr (fs1, p) \<Rightarrow> (case socketPathForBase sample_engine fs1 ''/r'' ''u'' (abs_path [''t'']) of
         Inr (fs2, q) \<Rightarrow> ((fs1, p), (fs2, q))
       | Inl _ \<Rightarrow> ((fs1, []), (fs1, [])))
   | Inl _ \<Rightarrow> ((empty_fs, []), (empty_fs, [])))"

lemma sockets_of_two_allocated:
  "socketPathForBase sample_engine empty_fs ''/r'' ''s'' (abs_path [''t'']) = Inr (fst sockets_of_two)"
  "socketPathForBase sample_engine (fst (fst sockets_of_two)) ''/r'' ''u'' (abs_path [''t'']) = Inr (snd sockets_of_two)"
  by code_simp+

theorem control_socket_exclusive_witness: "snd (fst sockets_of_two) \<noteq> snd (snd sockets_of_two)"
proof (rule control_socket_exclusive)
  show "list_all plain [''t'']" by (simp add: plain_def sep_def)
  show "\<forall>s. SHA256_HEX (sha256_hex sample_engine s)" by (rule sample_engine_hex)
  show "socketPathForBase sample_engine empty_fs ''/r'' ''s'' (abs_path [''t'']) = Inr (fst (fst sockets_of_two), snd (fst sockets_of_two))"
    "socketPathForBase sample_engine (fst (fst sockets_of_two)) ''/r'' ''u'' (abs_path [''t''])
       = Inr (fst (snd sockets_of_two), snd (snd sockets_of_two))"
    by (simp_all add: sockets_of_two_allocated)
  show "map_of (fs_sockets (fst (fst sockets_of_two))) \<subseteq>\<^sub>m map_of (fs_sockets (fst (fst sockets_of_two)))" by simp
qed simp

end
