(* ===== verification/Harness_Finalize.thy ===== *)
theory Harness_Finalize
  imports Harness_Storage
begin

text \<open>
  The evidence-gated finalizer (\<^verbatim>\<open>harness-control-plane/finalize.ts\<close>), for implementation sessions and for
  review-only sessions, on the storage of \<open>Harness_Storage\<close>.

  The external checks (validation commands, git, gh) are the functions of \<open>finalize_checks\<close>, the injected
  \<^verbatim>\<open>FinalizeChecks\<close>. Random receipt id suffixes and clock readings are the functions \<open>fresh\<close> and \<open>nowIso\<close> of the number
  of the call. A storage error is the exception the source lets escape.
\<close>

section \<open>Model\<close>

(* coding-agent/src/harness-control-plane/finalize.ts:29-32 ValidationCommandSpec *)
record validation_spec =
  vs_name :: string
  vs_command :: string

(* coding-agent/src/harness-control-plane/finalize.ts:34-39 ValidationRun *)
record validation_run =
  vr_exactCommand :: string
  vr_cwd :: string
  vr_exitStatus :: int
  vr_pass :: bool

(* coding-agent/src/harness-control-plane/finalize.ts:41-46 FinalizeChecks *)
record finalize_checks =
  fc_runValidation :: "validation_spec \<Rightarrow> validation_run"
  fc_resolveCommit :: "string option"
  fc_commitOnBranch :: "string \<Rightarrow> string \<Rightarrow> bool"
  fc_prOrIssue :: "string option \<times> string option"

(* coding-agent/src/harness-control-plane/finalize.ts:48-70 FinalizeOptions *)
record finalize_options =
  fo_root :: string
  fo_sessionId :: string
  fo_workspace :: string
  fo_branch :: string
  fo_requireTests :: bool
  fo_requireCommit :: bool
  fo_requirePr :: bool
  fo_reviewOnly :: bool
  fo_verdict :: "string option"
  fo_assistantText :: "string option"
  fo_prTarget :: "string option"
  fo_validationCommands :: "validation_spec list"
  fo_checks :: finalize_checks

(* coding-agent/src/harness-control-plane/finalize.ts:72-81 FinalizeResult *)
record finalize_result =
  fr_completed :: bool
  fr_receiptPath :: "string option"
  fr_validation :: "(string \<times> bool \<times> int) list"
  fr_commitHash :: "string option"
  fr_prUrl :: "string option"
  fr_verdict :: "review_verdict option"
  fr_issueArtifact :: "string option"
  fr_blockers :: "string list"

text \<open>The process: engine, write environment, receipt id suffixes and clock readings.\<close>

record finalize_env =
  fe_eng :: js_engine
  fe_write :: write_env
  fe_fresh :: "nat \<Rightarrow> string"
  fe_now :: "nat \<Rightarrow> string"

(* coding-agent/src/harness-control-plane/finalize.ts:83-85 receiptId *)
definition receiptId :: "finalize_env \<Rightarrow> string \<Rightarrow> nat \<Rightarrow> string" where
  "receiptId env kind n = kind @ ''-'' @ fe_fresh env n"

(* coding-agent/src/harness-control-plane/finalize.ts:109-116 runFinalize *)
definition validation_evidence :: "validation_spec \<Rightarrow> validation_run \<Rightarrow> string option \<Rightarrow> jv" where
  "validation_evidence spec run commit = JObj
     [(''command'', JStr (vs_name spec)), (''exactCommand'', JStr (vr_exactCommand run)), (''cwd'', JStr (vr_cwd run)),
      (''exitStatus'', JNum (of_int (vr_exitStatus run))), (''pass'', JBool (vr_pass run)),
      (''commitUnderTest'', str_or_null commit)]"

definition finalize_subject :: "finalize_options \<Rightarrow> string option \<Rightarrow> receipt_subject" where
  "finalize_subject opts commit = \<lparr>rs_workspace = fo_workspace opts, rs_branch = Some (fo_branch opts), rs_head = commit, rs_commit = commit\<rparr>"

(* coding-agent/src/harness-control-plane/finalize.ts:117-126 runFinalize *)
definition validation_receipt ::
  "finalize_env \<Rightarrow> finalize_options \<Rightarrow> string option \<Rightarrow> nat \<Rightarrow> validation_spec \<Rightarrow> jv"
where
  "validation_receipt env opts commit n spec =
     (let run = fc_runValidation (fo_checks opts) spec in
      buildReceipt (fe_eng env) [] \<lparr>br_receiptId = receiptId env ''val'' n, br_sessionId = fo_sessionId opts,
        br_family = ValidationFamily, br_source = ''finalizer'', br_subject = finalize_subject opts commit,
        br_evidence = validation_evidence spec run commit, br_artifactHashes = None,
        br_createdAt = Some (fe_now env n), br_valid = Some (vr_pass run)\<rparr>)"

text \<open>The accumulators of the loop over the validation commands.\<close>

record validation_state =
  va_fs :: harness_fs
  va_validation :: "(string \<times> bool \<times> int) list"
  va_ids :: "string list"
  va_blockers :: "string list"

(* coding-agent/src/harness-control-plane/finalize.ts:106-132 runFinalize *)
fun run_validations ::
  "finalize_env \<Rightarrow> finalize_options \<Rightarrow> string option \<Rightarrow> nat \<Rightarrow> validation_spec list \<Rightarrow> validation_state
     \<Rightarrow> (storage_error, validation_state) outcome"
where
  "run_validations env opts commit n [] st = Inr st"
| "run_validations env opts commit n (spec # specs) st =
     (let rid = receiptId env ''val'' n; receipt = validation_receipt env opts commit n spec in
      case writeReceiptImmutable (fe_eng env) (fe_write env) (va_fs st) (fo_root opts) (fo_sessionId opts)
             ValidationFamily rid receipt of
        Inl e \<Rightarrow> Inl e
      | Inr (fs', _) \<Rightarrow>
          let ok = vo_valid (validateReceipt (fe_eng env) receipt) in
          run_validations env opts commit (Suc n) specs
            \<lparr>va_fs = fs',
             va_validation = va_validation st @ [(vs_name spec, ok, vr_exitStatus (fc_runValidation (fo_checks opts) spec))],
             va_ids = va_ids st @ [rid],
             va_blockers = va_blockers st @ push_if (fo_requireTests opts \<and> \<not> ok) (''validation-failed:'' @ vs_name spec)\<rparr>)"

text \<open>Truthiness of a \<^verbatim>\<open>string | null\<close>.\<close>

definition present :: "string option \<Rightarrow> bool" where
  "present x \<longleftrightarrow> x \<noteq> None \<and> x \<noteq> Some []"

(* coding-agent/src/harness-control-plane/finalize.ts:133-145 runFinalize *)
definition gate_blockers :: "finalize_options \<Rightarrow> string option \<Rightarrow> string list" where
  "gate_blockers opts commit =
     push_if (fo_requireTests opts \<and> fo_validationCommands opts = []) ''validation-required-but-none-run''
   @ (if fo_requireCommit opts
      then if \<not> present commit then [''missing-commit'']
           else push_if (\<not> fc_commitOnBranch (fo_checks opts) (the commit) (fo_branch opts)) ''commit-not-on-branch''
      else [])
   @ (case fc_prOrIssue (fo_checks opts) of (prUrl, issue) \<Rightarrow>
        push_if (fo_requirePr opts \<and> \<not> present prUrl \<and> \<not> present issue) ''missing-pr-or-issue'')"

text \<open>One persisted validation receipt, read back from its file; \<open>None\<close> when the file is gone and the read throws.\<close>

(* coding-agent/src/harness-control-plane/finalize.ts:150-159 runFinalize *)
definition recheck :: "js_engine \<Rightarrow> harness_fs \<Rightarrow> receipt_index_entry list \<Rightarrow> string option \<Rightarrow> string \<Rightarrow> string list option" where
  "recheck eng fs persisted commit rid =
     (case find (\<lambda>e. ie_receiptId e = rid) persisted of
        None \<Rightarrow> Some [''missing-validation-receipt:'' @ rid]
      | Some entry \<Rightarrow>
          (case map_of (fs_receipts fs) (ie_path entry) of
             None \<Rightarrow> None
           | Some stored \<Rightarrow>
               let receipt = json_roundtrip stored in
               if \<not> vo_valid (validateReceipt eng receipt) then Some [''validation-receipt-invalid:'' @ rid]
               else if present commit \<and> get (get receipt ''evidence'') ''commitUnderTest'' \<noteq> str_or_null commit
               then Some [''validation-stale-commit:'' @ rid] else Some []))"

fun recheck_all ::
  "js_engine \<Rightarrow> harness_fs \<Rightarrow> receipt_index_entry list \<Rightarrow> string option \<Rightarrow> string list \<Rightarrow> (storage_error, string list) outcome"
where
  "recheck_all eng fs persisted commit [] = Inr []"
| "recheck_all eng fs persisted commit (rid # ids) =
     (case recheck eng fs persisted commit rid of
        None \<Rightarrow> Inl (StorageError ''ENOENT'' ''ENOENT'')
      | Some bs \<Rightarrow> map_sum id (\<lambda>more. bs @ more) (recheck_all eng fs persisted commit ids))"

(* coding-agent/src/harness-control-plane/finalize.ts:175-184 runFinalize *)
definition completion_evidence :: "finalize_env \<Rightarrow> finalize_options \<Rightarrow> string option \<Rightarrow> string list \<Rightarrow> nat \<Rightarrow> jv" where
  "completion_evidence env opts commit ids n = JObj
     [(''finalCommit'', JStr (case commit of None \<Rightarrow> [] | Some c \<Rightarrow> c)), (''branch'', JStr (fo_branch opts)),
      (''prUrl'', str_or_null (fst (fc_prOrIssue (fo_checks opts)))),
      (''issueArtifact'', str_or_null (snd (fc_prOrIssue (fo_checks opts)))),
      (''requiredValidationReceiptIds'', JArr (map JStr ids)), (''finalLifecycle'', JStr ''completed''),
      (''finalizedAt'', JStr (fe_now env n)), (''blockers'', JArr [])]"

(* coding-agent/src/harness-control-plane/finalize.ts:185-193 runFinalize *)
definition completion_receipt :: "finalize_env \<Rightarrow> finalize_options \<Rightarrow> string option \<Rightarrow> string list \<Rightarrow> nat \<Rightarrow> jv" where
  "completion_receipt env opts commit ids n =
     buildReceipt (fe_eng env) [] \<lparr>br_receiptId = receiptId env ''done'' n, br_sessionId = fo_sessionId opts,
        br_family = CompletionFamily, br_source = ''finalizer'', br_subject = finalize_subject opts commit,
        br_evidence = completion_evidence env opts commit ids n, br_artifactHashes = None,
        br_createdAt = Some (fe_now env (Suc n)), br_valid = None\<rparr>"

definition finalize_base :: "finalize_options \<Rightarrow> validation_state \<Rightarrow> string option \<Rightarrow> finalize_result" where
  "finalize_base opts st commit = \<lparr>fr_completed = False, fr_receiptPath = None, fr_validation = va_validation st,
     fr_commitHash = commit, fr_prUrl = fst (fc_prOrIssue (fo_checks opts)), fr_verdict = None,
     fr_issueArtifact = snd (fc_prOrIssue (fo_checks opts)), fr_blockers = []\<rparr>"

(* coding-agent/src/harness-control-plane/finalize.ts:146-205 runFinalize *)
definition finish_finalize ::
  "finalize_env \<Rightarrow> finalize_options \<Rightarrow> string option \<Rightarrow> validation_state \<Rightarrow> (storage_error, harness_fs \<times> finalize_result) outcome"
where
  "finish_finalize env opts commit st =
     (let blockers = va_blockers st @ gate_blockers opts commit; base = finalize_base opts st commit in
      case (if blockers = []
            then (case readReceiptIndex (va_fs st) (fo_root opts) (fo_sessionId opts) (Some ValidationFamily) of
                    Inl e \<Rightarrow> Inl e
                  | Inr persisted \<Rightarrow> recheck_all (fe_eng env) (va_fs st) persisted commit (va_ids st))
            else Inr blockers) of
        Inl e \<Rightarrow> Inl e
      | Inr bs \<Rightarrow>
          if bs \<noteq> [] then Inr (va_fs st, base\<lparr>fr_blockers := bs\<rparr>)
          else let n = length (va_ids st); receipt = completion_receipt env opts commit (va_ids st) n;
                   outcome = validateReceipt (fe_eng env) receipt
               in case writeReceiptImmutable (fe_eng env) (fe_write env) (va_fs st) (fo_root opts) (fo_sessionId opts)
                         CompletionFamily (receiptId env ''done'' n) receipt of
                    Inl e \<Rightarrow> Inl e
                  | Inr (fs', entry) \<Rightarrow>
                      Inr (fs', base\<lparr>fr_completed := vo_valid outcome, fr_receiptPath := Some (ie_path entry),
                                     fr_blockers := (if vo_valid outcome then [] else vo_reasons outcome)\<rparr>))"

definition empty_validation :: "harness_fs \<Rightarrow> validation_state" where
  "empty_validation fs = \<lparr>va_fs = fs, va_validation = [], va_ids = [], va_blockers = []\<rparr>"

section \<open>Review-only sessions\<close>

text \<open>\<^verbatim>\<open>text.replace(/\s+/g, " ")\<close>.\<close>

fun collapse_white :: "bool \<Rightarrow> string \<Rightarrow> string" where
  "collapse_white after [] = []"
| "collapse_white after (c # s) =
     (if white_char c then (if after then collapse_white True s else CHR '' '' # collapse_white True s)
      else c # collapse_white False s)"

text \<open>The ellipsis the source appends is the UTF-8 encoding of U+2026.\<close>

(* coding-agent/src/harness-control-plane/finalize.ts:87-93 boundedAssistantSummary *)
definition boundedAssistantSummary :: "string option \<Rightarrow> string option" where
  "boundedAssistantSummary text =
     (case text of
        None \<Rightarrow> None
      | Some s \<Rightarrow>
          if s = [] then None
          else let collapsed = trim (collapse_white False s)
               in if collapsed = [] then None
                  else if length collapsed > 280 then Some (take 280 collapsed @ [CHR 0xE2, CHR 0x80, CHR 0xA6])
                  else Some collapsed)"

text \<open>The verdict of the options: an explicit one wins, also when it is not in the vocabulary; otherwise the last one
  in the assistant's text.\<close>

(* coding-agent/src/harness-control-plane/finalize.ts:231-238 runReviewFinalize *)
definition review_verdict_of :: "finalize_options \<Rightarrow> review_verdict option" where
  "review_verdict_of opts =
     (case fo_verdict opts of
        Some v \<Rightarrow> isReviewVerdict v
      | None \<Rightarrow> extractReviewVerdict (fo_assistantText opts))"

definition assistant_digest :: "js_engine \<Rightarrow> string option \<Rightarrow> string option" where
  "assistant_digest eng text = (case text of None \<Rightarrow> None | Some s \<Rightarrow> if s = [] then None else Some (sha256Hex eng s))"

definition opt_field :: "string \<Rightarrow> string option \<Rightarrow> (string \<times> jv) list" where
  "opt_field k x = (case x of None \<Rightarrow> [] | Some s \<Rightarrow> if s = [] then [] else [(k, JStr s)])"

(* coding-agent/src/harness-control-plane/finalize.ts:240-251 runReviewFinalize *)
definition review_failure_evidence :: "finalize_env \<Rightarrow> finalize_options \<Rightarrow> string \<Rightarrow> jv" where
  "review_failure_evidence env opts reason = JObj
     ([(''reason'', JStr reason), (''prTarget'', str_or_null (fo_prTarget opts)), (''failedAt'', JStr (fe_now env 0)),
       (''fallback'', JStr ''operator-or-omx-review'')]
      @ opt_field ''assistantDigest'' (assistant_digest (fe_eng env) (fo_assistantText opts))
      @ opt_field ''assistantSummary'' (boundedAssistantSummary (fo_assistantText opts)))"

(* coding-agent/src/harness-control-plane/finalize.ts:273-281 runReviewFinalize *)
definition review_verdict_evidence :: "finalize_env \<Rightarrow> finalize_options \<Rightarrow> review_verdict \<Rightarrow> jv" where
  "review_verdict_evidence env opts v = JObj
     ([(''verdict'', JStr (verdict_name v)), (''prTarget'', str_or_null (fo_prTarget opts)),
       (''finalizedAt'', JStr (fe_now env 0)),
       (''summaryRef'', JStr (case fo_prTarget opts of
           Some t \<Rightarrow> ''verdict:'' @ verdict_name v @ ''@'' @ t | None \<Rightarrow> ''verdict:'' @ verdict_name v)),
       (''verdictSource'', JStr (if fo_verdict opts \<noteq> None then ''input'' else ''assistant''))]
      @ opt_field ''assistantDigest''
          (if fo_verdict opts \<noteq> None then None else assistant_digest (fe_eng env) (fo_assistantText opts)))"

definition review_receipt :: "finalize_env \<Rightarrow> finalize_options \<Rightarrow> receipt_family \<Rightarrow> string \<Rightarrow> jv \<Rightarrow> jv" where
  "review_receipt env opts family rid e =
     buildReceipt (fe_eng env) [] \<lparr>br_receiptId = rid, br_sessionId = fo_sessionId opts, br_family = family,
        br_source = ''finalizer'', br_subject = finalize_subject opts None, br_evidence = e, br_artifactHashes = None,
        br_createdAt = Some (fe_now env 1), br_valid = None\<rparr>"

definition review_base :: finalize_result where
  "review_base = \<lparr>fr_completed = False, fr_receiptPath = None, fr_validation = [], fr_commitHash = None, fr_prUrl = None,
     fr_verdict = None, fr_issueArtifact = None, fr_blockers = []\<rparr>"

(* coding-agent/src/harness-control-plane/finalize.ts:220-298 runReviewFinalize *)
definition runReviewFinalize ::
  "finalize_env \<Rightarrow> harness_fs \<Rightarrow> finalize_options \<Rightarrow> (storage_error, harness_fs \<times> finalize_result) outcome"
where
  "runReviewFinalize env fs opts =
     (case review_verdict_of opts of
        None \<Rightarrow>
          let reason = (if fo_verdict opts \<noteq> None then ''review-verdict-invalid'' else ''review-verdict-missing'');
              rid = receiptId env ''revfail'' 0;
              receipt = review_receipt env opts ReviewFailureFamily rid (review_failure_evidence env opts reason);
              outcome = validateReceipt (fe_eng env) receipt
          in (case writeReceiptImmutable (fe_eng env) (fe_write env) fs (fo_root opts) (fo_sessionId opts)
                     ReviewFailureFamily rid receipt of
                Inl e \<Rightarrow> Inl e
              | Inr (fs', entry) \<Rightarrow>
                  Inr (fs', review_base\<lparr>fr_receiptPath := Some (ie_path entry),
                        fr_blockers := reason # (if vo_valid outcome then [] else vo_reasons outcome)\<rparr>))
      | Some verdict \<Rightarrow>
          let rid = receiptId env ''verdict'' 0;
              receipt = review_receipt env opts ReviewVerdictFamily rid (review_verdict_evidence env opts verdict);
              outcome = validateReceipt (fe_eng env) receipt;
              humanActionRequired = (verdict = OWNER_CONFIRMATION_REQUIRED)
          in (case writeReceiptImmutable (fe_eng env) (fe_write env) fs (fo_root opts) (fo_sessionId opts)
                     ReviewVerdictFamily rid receipt of
                Inl e \<Rightarrow> Inl e
              | Inr (fs', entry) \<Rightarrow>
                  Inr (fs', review_base\<lparr>fr_completed := vo_valid outcome \<and> \<not> humanActionRequired,
                        fr_receiptPath := Some (ie_path entry), fr_verdict := Some verdict,
                        fr_blockers := (if \<not> vo_valid outcome then vo_reasons outcome
                          else if humanActionRequired then [''owner-confirmation-required''] else [])\<rparr>)))"

(* coding-agent/src/harness-control-plane/finalize.ts:95-106 runFinalize *)
definition runFinalize ::
  "finalize_env \<Rightarrow> harness_fs \<Rightarrow> finalize_options \<Rightarrow> (storage_error, harness_fs \<times> finalize_result) outcome"
where
  "runFinalize env fs opts =
     (if fo_reviewOnly opts then runReviewFinalize env fs opts
      else let commit = fc_resolveCommit (fo_checks opts) in
        case run_validations env opts commit 0 (fo_validationCommands opts) (empty_validation fs) of
          Inl e \<Rightarrow> Inl e
        | Inr st \<Rightarrow> finish_finalize env opts commit st)"

text \<open>\<^verbatim>\<open>defaultFinalizeChecks.commitOnBranch\<close> on the output of \<^verbatim>\<open>git branch --contains\<close>.\<close>

(* coding-agent/src/harness-control-plane/finalize.ts:322-326 defaultFinalizeChecks *)
definition default_commitOnBranch :: "(string \<Rightarrow> string option) \<Rightarrow> string \<Rightarrow> string \<Rightarrow> bool" where
  "default_commitOnBranch gitContains commit branch =
     (case gitContains commit of
        None \<Rightarrow> False
      | Some merged \<Rightarrow> merged \<noteq> [] \<and> list_ex (\<lambda>b. trim b = branch) (split_at CHR 0x0A merged))"

section \<open>Lemmas\<close>

text \<open>An index whose entries name existing files of their own session, family and id. Every write keeps it.\<close>

definition index_wf :: "session_paths \<Rightarrow> harness_fs \<Rightarrow> bool" where
  "index_wf p fs \<longleftrightarrow> (\<forall>e \<in> set (log_of (fs_index fs) (sp_receiptsIndex p)).
     ie_path e = receipt_file p (ie_family e) (ie_receiptId e) \<and> map_of (fs_receipts fs) (ie_path e) \<noteq> None)"

lemma write_index_wf:
  assumes "writeReceiptImmutable eng env fs hroot sid f i v = Inr (fs', e)" "sessionPaths hroot sid = Inr p" "index_wf p fs"
  shows "index_wf p fs'"
proof -
  obtain p' where p': "sessionPaths hroot sid = Inr p'"
    and e: "e = \<lparr>ie_receiptId = i, ie_family = f, ie_valid = as_bool (get v ''valid''),
          ie_createdAt = as_str (get v ''createdAt''), ie_path = receipt_file p' f i\<rparr>"
    and u: "fs_receipts fs' = AList.update (receipt_file p' f i) v (fs_receipts fs)"
      "fs_index fs' = append_log (sp_receiptsIndex p') e (fs_index fs)"
    by (rule writeReceipt_Inr [OF assms(1)])
  have "p' = p" using p' assms(2) by simp
  with e u assms(3) show ?thesis by (auto simp: index_wf_def js_simps)
qed

text \<open>A stored validation receipt with its index entry.\<close>

definition persisted_as :: "session_paths \<Rightarrow> harness_fs \<Rightarrow> string \<Rightarrow> jv \<Rightarrow> bool" where
  "persisted_as p fs i v \<longleftrightarrow> map_of (fs_receipts fs) (receipt_file p ValidationFamily i) = Some v \<and>
     (\<exists>e \<in> set (log_of (fs_index fs) (sp_receiptsIndex p)). ie_family e = ValidationFamily \<and> ie_receiptId e = i)"

lemma persisted_write:
  assumes "writeReceiptImmutable eng env fs hroot sid ValidationFamily i v = Inr (fs', e)" "sessionPaths hroot sid = Inr p"
  shows "persisted_as p fs' i v" and "persisted_as p fs j w \<Longrightarrow> persisted_as p fs' j w"
proof -
  obtain p' where p': "sessionPaths hroot sid = Inr p'" "map_of (fs_receipts fs) (receipt_file p' ValidationFamily i) = None"
    and e: "e = \<lparr>ie_receiptId = i, ie_family = ValidationFamily, ie_valid = as_bool (get v ''valid''),
          ie_createdAt = as_str (get v ''createdAt''), ie_path = receipt_file p' ValidationFamily i\<rparr>"
    and u: "fs_receipts fs' = AList.update (receipt_file p' ValidationFamily i) v (fs_receipts fs)"
      "fs_index fs' = append_log (sp_receiptsIndex p') e (fs_index fs)"
    by (rule writeReceipt_Inr [OF assms(1)])
  have "p' = p" using p' assms(2) by simp
  with e u show "persisted_as p fs' i v" by (auto simp: persisted_as_def js_simps)
  show "persisted_as p fs j w \<Longrightarrow> persisted_as p fs' j w"
    using \<open>p' = p\<close> p'(2) u by (auto simp: persisted_as_def js_simps)
qed

lemma find_persisted:
  assumes "index_wf p fs" "persisted_as p fs i v"
  obtains e where "find (\<lambda>e. ie_receiptId e = i) (filter (\<lambda>e. ie_family e = ValidationFamily) (log_of (fs_index fs) (sp_receiptsIndex p))) = Some e"
    "map_of (fs_receipts fs) (ie_path e) = Some v"
proof -
  let ?xs = "filter (\<lambda>e. ie_family e = ValidationFamily) (log_of (fs_index fs) (sp_receiptsIndex p))"
  have "\<exists>e \<in> set ?xs. ie_receiptId e = i" using assms(2) by (auto simp: persisted_as_def)
  then obtain e where e: "find (\<lambda>e. ie_receiptId e = i) ?xs = Some e"
    by (cases "find (\<lambda>e. ie_receiptId e = i) ?xs") (auto simp: find_None_iff)
  then have "e \<in> set ?xs" "ie_receiptId e = i" unfolding find_Some_iff by (metis nth_mem, metis)
  then have "ie_path e = receipt_file p ValidationFamily i" using assms(1) by (auto simp: index_wf_def)
  with assms(2) have "map_of (fs_receipts fs) (ie_path e) = Some v" by (simp add: persisted_as_def)
  with e that show ?thesis by blast
qed

text \<open>The process supplies what every receipt needs.\<close>

definition env_ok :: "finalize_env \<Rightarrow> finalize_options \<Rightarrow> bool" where
  "env_ok env opts \<longleftrightarrow> SESSION_ID_RE (fo_sessionId opts) \<and> fo_workspace opts \<noteq> [] \<and> (\<forall>n. fe_now env n \<noteq> [])"

lemma safe_id_not_Nil: "SESSION_ID_RE s \<Longrightarrow> s \<noteq> []"
  by (auto simp: SESSION_ID_RE_def)

lemma receiptId_not_Nil [simp]: "receiptId env k n \<noteq> []"
  by (simp add: receiptId_def)

lemma validation_receipt_facts:
  assumes "env_ok env opts"
  shows "vo_valid (validateReceipt (fe_eng env) (validation_receipt env opts commit n spec))
      \<longleftrightarrow> vr_pass (fc_runValidation (fo_checks opts) spec)"
    and "json_roundtrip (validation_receipt env opts commit n spec) = validation_receipt env opts commit n spec"
    and "get (get (validation_receipt env opts commit n spec) ''evidence'') ''commitUnderTest'' = str_or_null commit"
proof -
  show "vo_valid (validateReceipt (fe_eng env) (validation_receipt env opts commit n spec))
      \<longleftrightarrow> vr_pass (fc_runValidation (fo_checks opts) spec)"
    using assms by (simp add: validation_receipt_def Let_def buildReceipt_valid_iff env_ok_def safe_id_not_Nil finalize_subject_def
        validation_evidence_def family_reasons_def validateValidation_def)
  show "json_roundtrip (validation_receipt env opts commit n spec) = validation_receipt env opts commit n spec"
    unfolding validation_receipt_def Let_def
    by (rule json_roundtrip_id, rule json_data_buildReceipt) (simp add: input_data_def validation_evidence_def)
  show "get (get (validation_receipt env opts commit n spec) ''evidence'') ''commitUnderTest'' = str_or_null commit"
    by (simp add: validation_receipt_def Let_def get_buildReceipt receipt_base_def validation_evidence_def)
qed

text \<open>The loop over the validation commands.\<close>

lemma run_validations_step:
  assumes "env_ok env opts" "run_validations env opts commit n (spec # specs) st = Inr st'"
  obtains fs' e where "writeReceiptImmutable (fe_eng env) (fe_write env) (va_fs st) (fo_root opts) (fo_sessionId opts)
        ValidationFamily (receiptId env ''val'' n) (validation_receipt env opts commit n spec) = Inr (fs', e)"
    "run_validations env opts commit (Suc n) specs \<lparr>va_fs = fs',
      va_validation = va_validation st @ [(vs_name spec, vr_pass (fc_runValidation (fo_checks opts) spec),
        vr_exitStatus (fc_runValidation (fo_checks opts) spec))],
      va_ids = va_ids st @ [receiptId env ''val'' n],
      va_blockers = va_blockers st @ push_if (fo_requireTests opts \<and> \<not> vr_pass (fc_runValidation (fo_checks opts) spec))
        (''validation-failed:'' @ vs_name spec)\<rparr> = Inr st'"
  using assms(2) validation_receipt_facts(1) [OF assms(1)] by (auto simp: Let_def split: sum.splits)

lemma run_validations_outputs:
  assumes "env_ok env opts"
  shows "run_validations env opts commit n specs st = Inr st' \<Longrightarrow>
      va_ids st' = va_ids st @ map (receiptId env ''val'') [n..<n + length specs]
    \<and> (va_blockers st' = [] \<longleftrightarrow> va_blockers st = [] \<and>
         (fo_requireTests opts \<longrightarrow> (\<forall>spec \<in> set specs. vr_pass (fc_runValidation (fo_checks opts) spec))))
    \<and> va_validation st' = va_validation st @ map (\<lambda>spec. (vs_name spec, vr_pass (fc_runValidation (fo_checks opts) spec),
         vr_exitStatus (fc_runValidation (fo_checks opts) spec))) specs"
proof (induction specs arbitrary: n st)
  case (Cons spec specs)
  have u: "[n..<n + length (spec # specs)] = n # [Suc n..<Suc n + length specs]"
    by (simp add: upt_conv_Cons del: upt_Suc)
  from Cons.prems show ?case
    by (rule run_validations_step [OF assms]) (drule Cons.IH, unfold u, auto)
qed simp

lemma run_validations_persist:
  assumes "env_ok env opts" "sessionPaths (fo_root opts) (fo_sessionId opts) = Inr p"
  shows "run_validations env opts commit n specs st = Inr st' \<Longrightarrow> index_wf p (va_fs st) \<Longrightarrow>
      index_wf p (va_fs st') \<and> (\<forall>i v. persisted_as p (va_fs st) i v \<longrightarrow> persisted_as p (va_fs st') i v)
    \<and> (\<forall>j < length specs. persisted_as p (va_fs st') (receiptId env ''val'' (n + j)) (validation_receipt env opts commit (n + j) (specs ! j)))"
proof (induction specs arbitrary: n st)
  case (Cons spec specs)
  obtain fs' e st1 where w: "writeReceiptImmutable (fe_eng env) (fe_write env) (va_fs st) (fo_root opts) (fo_sessionId opts)
        ValidationFamily (receiptId env ''val'' n) (validation_receipt env opts commit n spec) = Inr (fs', e)"
    and run: "run_validations env opts commit (Suc n) specs st1 = Inr st'" and st1: "va_fs st1 = fs'"
    by (rule run_validations_step [OF assms(1) Cons.prems(1)]) auto
  have IH: "index_wf p (va_fs st')" "\<And>i v. persisted_as p fs' i v \<Longrightarrow> persisted_as p (va_fs st') i v"
    "\<And>j. j < length specs \<Longrightarrow> persisted_as p (va_fs st') (receiptId env ''val'' (Suc n + j)) (validation_receipt env opts commit (Suc n + j) (specs ! j))"
    using Cons.IH [OF run] write_index_wf [OF w assms(2) Cons.prems(2)] st1 by auto
  have "persisted_as p (va_fs st') (receiptId env ''val'' (n + j)) (validation_receipt env opts commit (n + j) ((spec # specs) ! j))"
    if "j < length (spec # specs)" for j
    using that IH(2) [OF persisted_write(1) [OF w assms(2)]] IH(3) [of "j - 1"] by (cases j) auto
  with IH(1,2) persisted_write(2) [OF w assms(2)] show ?case by blast
qed simp

lemma recheck_persisted:
  assumes "env_ok env opts" "sessionPaths (fo_root opts) (fo_sessionId opts) = Inr p" "index_wf p fs"
    and "persisted_as p fs i (validation_receipt env opts commit k spec)"
    and "readReceiptIndex fs (fo_root opts) (fo_sessionId opts) (Some ValidationFamily) = Inr persisted"
  shows "recheck (fe_eng env) fs persisted commit i
      = Some (push_if (\<not> vr_pass (fc_runValidation (fo_checks opts) spec)) (''validation-receipt-invalid:'' @ i))"
proof -
  have "persisted = filter (\<lambda>e. ie_family e = ValidationFamily) (log_of (fs_index fs) (sp_receiptsIndex p))"
    using assms(2,5) by (simp add: readReceiptIndex_def)
  with find_persisted [OF assms(3,4)] obtain e where
    e: "find (\<lambda>e. ie_receiptId e = i) persisted = Some e" "map_of (fs_receipts fs) (ie_path e) = Some (validation_receipt env opts commit k spec)"
    by metis
  show ?thesis
    using validation_receipt_facts [OF assms(1), of commit k spec] by (simp add: recheck_def e Let_def)
qed

lemma recheck_all_iff:
  assumes "\<And>i. i \<in> set ids \<Longrightarrow> \<exists>bs. recheck eng fs persisted commit i = Some bs"
  shows "\<exists>bs. recheck_all eng fs persisted commit ids = Inr bs \<and> (bs = [] \<longleftrightarrow> (\<forall>i \<in> set ids. recheck eng fs persisted commit i = Some []))"
  using assms
proof (induction ids)
  case (Cons i ids)
  obtain b where b: "recheck eng fs persisted commit i = Some b" using Cons.prems by auto
  obtain bs where bs: "recheck_all eng fs persisted commit ids = Inr bs"
    "bs = [] \<longleftrightarrow> (\<forall>i \<in> set ids. recheck eng fs persisted commit i = Some [])"
    using Cons by auto
  show ?case using b bs by auto
qed simp

lemma completion_receipt_valid:
  assumes "env_ok env opts"
  shows "vo_valid (validateReceipt (fe_eng env) (completion_receipt env opts commit ids n)) \<longleftrightarrow>
     present commit \<and> (present (fst (fc_prOrIssue (fo_checks opts))) \<or> present (snd (fc_prOrIssue (fo_checks opts)))) \<and> ids \<noteq> []"
proof -
  have s: "truthy (str_or_null x) \<longleftrightarrow> present x" "(case x of None \<Rightarrow> [] | Some c \<Rightarrow> c) \<noteq> [] \<longleftrightarrow> present x" for x
    by (auto simp: str_or_null_def present_def split: option.splits)
  show ?thesis
    using assms by (auto simp: completion_receipt_def buildReceipt_valid_iff env_ok_def safe_id_not_Nil finalize_subject_def
        completion_evidence_def family_reasons_def validateCompletion_def s)
qed

lemma gate_blockers_iff:
  "gate_blockers opts commit = [] \<longleftrightarrow>
     (fo_requireTests opts \<longrightarrow> fo_validationCommands opts \<noteq> [])
   \<and> (fo_requireCommit opts \<longrightarrow> present commit \<and> fc_commitOnBranch (fo_checks opts) (the commit) (fo_branch opts))
   \<and> (fo_requirePr opts \<longrightarrow> present (fst (fc_prOrIssue (fo_checks opts))) \<or> present (snd (fc_prOrIssue (fo_checks opts))))"
  by (cases "fc_prOrIssue (fo_checks opts)") (auto simp: gate_blockers_def)

text \<open>After the validations: what remains decides on the gate, the rechecked receipts and the completion receipt.\<close>

lemma finish_finalize_iff:
  assumes ok: "env_ok env opts" and p: "sessionPaths (fo_root opts) (fo_sessionId opts) = Inr p"
    and wf: "index_wf p (va_fs st)"
    and pers: "\<forall>j < length specs. persisted_as p (va_fs st) (receiptId env ''val'' j) (validation_receipt env opts commit j (specs ! j))"
    and ids: "va_ids st = map (receiptId env ''val'') [0..<length specs]"
    and fin: "finish_finalize env opts commit st = Inr (fs', res)"
  shows "(fr_completed res \<longleftrightarrow> va_blockers st = [] \<and> gate_blockers opts commit = []
      \<and> (\<forall>spec \<in> set specs. vr_pass (fc_runValidation (fo_checks opts) spec))
      \<and> present commit \<and> (present (fst (fc_prOrIssue (fo_checks opts))) \<or> present (snd (fc_prOrIssue (fo_checks opts)))) \<and> specs \<noteq> [])
    \<and> (fr_completed res \<longleftrightarrow> fr_blockers res = [])
    \<and> (fr_completed res \<longrightarrow> (\<exists>q r. fr_receiptPath res = Some q \<and> map_of (fs_receipts fs') q = Some r
         \<and> vo_valid (validateReceipt (fe_eng env) r) \<and> get r ''family'' = JStr ''completion''))"
proof (cases "va_blockers st @ gate_blockers opts commit = []")
  case False
  then have "res = (finalize_base opts st commit)\<lparr>fr_blockers := va_blockers st @ gate_blockers opts commit\<rparr>"
    using fin by (auto simp: finish_finalize_def Let_def)
  with False show ?thesis by (auto simp: finalize_base_def)
next
  case True
  obtain persisted where idx: "readReceiptIndex (va_fs st) (fo_root opts) (fo_sessionId opts) (Some ValidationFamily) = Inr persisted"
    by (simp add: readReceiptIndex_def p)
  have rc: "recheck (fe_eng env) (va_fs st) persisted commit (receiptId env ''val'' j)
      = Some (push_if (\<not> vr_pass (fc_runValidation (fo_checks opts) (specs ! j))) (''validation-receipt-invalid:'' @ receiptId env ''val'' j))"
    if "j < length specs" for j
    using recheck_persisted [OF ok p wf _ idx] pers that by blast
  then have "\<And>i. i \<in> set (va_ids st) \<Longrightarrow> \<exists>bs. recheck (fe_eng env) (va_fs st) persisted commit i = Some bs"
    by (auto simp: ids)
  from recheck_all_iff [OF this] obtain bs where bs: "recheck_all (fe_eng env) (va_fs st) persisted commit (va_ids st) = Inr bs"
    "bs = [] \<longleftrightarrow> (\<forall>i \<in> set (va_ids st). recheck (fe_eng env) (va_fs st) persisted commit i = Some [])" by blast
  have pass: "bs = [] \<longleftrightarrow> (\<forall>spec \<in> set specs. vr_pass (fc_runValidation (fo_checks opts) spec))"
    unfolding bs(2) ids using rc by (auto simp: all_set_conv_all_nth)
  show ?thesis
  proof (cases "bs = []")
    case False
    then have "res = (finalize_base opts st commit)\<lparr>fr_blockers := bs\<rparr>"
      using fin True idx bs(1) by (auto simp: finish_finalize_def Let_def)
    with False pass show ?thesis by (auto simp: finalize_base_def)
  next
    case nil: True
    let ?n = "length (va_ids st)"
    let ?r = "completion_receipt env opts commit (va_ids st) ?n"
    obtain e where w: "writeReceiptImmutable (fe_eng env) (fe_write env) (va_fs st) (fo_root opts) (fo_sessionId opts)
        CompletionFamily (receiptId env ''done'' ?n) ?r = Inr (fs', e)"
      and res: "res = (finalize_base opts st commit)\<lparr>fr_completed := vo_valid (validateReceipt (fe_eng env) ?r),
         fr_receiptPath := Some (ie_path e),
         fr_blockers := (if vo_valid (validateReceipt (fe_eng env) ?r) then [] else vo_reasons (validateReceipt (fe_eng env) ?r))\<rparr>"
      using fin True idx bs(1) nil by (auto simp: finish_finalize_def Let_def split: sum.splits)
    have "map_of (fs_receipts fs') (ie_path e) = Some ?r"
      by (rule writeReceipt_Inr [OF w]) (simp add: js_simps)
    moreover have "get ?r ''family'' = JStr ''completion''"
      by (simp add: completion_receipt_def get_buildReceipt receipt_base_def)
    moreover have "va_ids st \<noteq> [] \<longleftrightarrow> specs \<noteq> []" by (simp add: ids)
    ultimately show ?thesis
      using True pass nil completion_receipt_valid [OF ok, of commit "va_ids st" ?n] by (simp add: res vo_valid_iff)
  qed
qed

lemma finalize_result:
  assumes "\<not> fo_reviewOnly opts" "env_ok env opts" "sessionPaths (fo_root opts) (fo_sessionId opts) = Inr p" "index_wf p fs"
    and "runFinalize env fs opts = Inr (fs', res)"
  shows "(fr_completed res \<longleftrightarrow>
      present (fc_resolveCommit (fo_checks opts))
    \<and> (present (fst (fc_prOrIssue (fo_checks opts))) \<or> present (snd (fc_prOrIssue (fo_checks opts))))
    \<and> fo_validationCommands opts \<noteq> []
    \<and> (\<forall>spec \<in> set (fo_validationCommands opts). vr_pass (fc_runValidation (fo_checks opts) spec))
    \<and> (if fo_requireCommit opts
       then fc_commitOnBranch (fo_checks opts) (the (fc_resolveCommit (fo_checks opts))) (fo_branch opts) else True))
    \<and> (fr_completed res \<longleftrightarrow> fr_blockers res = [])
    \<and> (if fr_completed res then \<exists>q r. fr_receiptPath res = Some q \<and> map_of (fs_receipts fs') q = Some r
         \<and> vo_valid (validateReceipt (fe_eng env) r) \<and> get r ''family'' = JStr ''completion'' else True)"
proof -
  obtain st where run: "run_validations env opts (fc_resolveCommit (fo_checks opts)) 0 (fo_validationCommands opts) (empty_validation fs) = Inr st"
    and fin: "finish_finalize env opts (fc_resolveCommit (fo_checks opts)) st = Inr (fs', res)"
    using assms(1,5) by (auto simp: runFinalize_def Let_def split: sum.splits)
  have wf: "index_wf p (va_fs st)" and pers: "\<forall>j < length (fo_validationCommands opts). persisted_as p (va_fs st) (receiptId env ''val'' j)
      (validation_receipt env opts (fc_resolveCommit (fo_checks opts)) j (fo_validationCommands opts ! j))"
    using run_validations_persist [OF assms(2,3) run] assms(4) by (auto simp: empty_validation_def)
  have ids: "va_ids st = map (receiptId env ''val'') [0..<length (fo_validationCommands opts)]"
    and bl: "va_blockers st = [] \<longleftrightarrow>
       (fo_requireTests opts \<longrightarrow> (\<forall>spec \<in> set (fo_validationCommands opts). vr_pass (fc_runValidation (fo_checks opts) spec)))"
    using run_validations_outputs [OF assms(2) run] by (auto simp: empty_validation_def)
  show ?thesis
    using finish_finalize_iff [OF assms(2,3) wf pers ids fin] bl unfolding gate_blockers_iff by argo
qed

section \<open>Properties of the finalizer\<close>

text \<open>C14. The completion gate: an implementation session is reported completed exactly when the commit resolves, a PR or
  an issue artifact exists, at least one validation command was run and all of them passed, and, where the commit
  is required, it is on the branch; so skipping the test requirement in the options does not weaken the
  gate. Completion and an empty list of blockers coincide, and the completion receipt that is stored validates.\<close>

theorem finalize_gate:
  assumes "\<not> fo_reviewOnly opts" "env_ok env opts" "sessionPaths (fo_root opts) (fo_sessionId opts) = Inr p" "index_wf p fs"
    and "runFinalize env fs opts = Inr (fs', res)"
  shows "(fr_completed res \<longleftrightarrow>
      present (fc_resolveCommit (fo_checks opts))
    \<and> (present (fst (fc_prOrIssue (fo_checks opts))) \<or> present (snd (fc_prOrIssue (fo_checks opts))))
    \<and> fo_validationCommands opts \<noteq> []
    \<and> (\<forall>spec \<in> set (fo_validationCommands opts). vr_pass (fc_runValidation (fo_checks opts) spec))
    \<and> (if fo_requireCommit opts
       then fc_commitOnBranch (fo_checks opts) (the (fc_resolveCommit (fo_checks opts))) (fo_branch opts) else True))
    \<and> (fr_completed res \<longleftrightarrow> fr_blockers res = [])
    \<and> (if fr_completed res then \<exists>q r. fr_receiptPath res = Some q \<and> map_of (fs_receipts fs') q = Some r
         \<and> vo_valid (validateReceipt (fe_eng env) r) \<and> get r ''family'' = JStr ''completion'' else True)"
  using assms by (rule finalize_result)


section \<open>The finalizer returns\<close>

text \<open>The first ids are safe, new and pairwise different.\<close>

definition fresh_ids :: "finalize_env \<Rightarrow> session_paths \<Rightarrow> harness_fs \<Rightarrow> nat \<Rightarrow> bool" where
  "fresh_ids env p fs N \<longleftrightarrow> inj_on (fe_fresh env) {..N} \<and>
     (\<forall>f. \<forall>k \<in> {''val'', ''done'', ''revfail'', ''verdict''}. \<forall>n \<le> N.
        SESSION_ID_RE (receiptId env k n) \<and> map_of (fs_receipts fs) (receipt_file p f (receiptId env k n)) = None)"

lemma fresh_idsD:
  "fresh_ids env p fs N \<Longrightarrow> n \<le> N \<Longrightarrow> k \<in> {''val'', ''done'', ''revfail'', ''verdict''} \<Longrightarrow> SESSION_ID_RE (receiptId env k n)"
  "fresh_ids env p fs N \<Longrightarrow> n \<le> N \<Longrightarrow> k \<in> {''val'', ''done'', ''revfail'', ''verdict''} \<Longrightarrow>
     map_of (fs_receipts fs) (receipt_file p f (receiptId env k n)) = None"
  "fresh_ids env p fs N \<Longrightarrow> m \<le> N \<Longrightarrow> n \<le> N \<Longrightarrow> receiptId env k m = receiptId env k n \<longleftrightarrow> m = n"
  by (auto simp: fresh_ids_def receiptId_def inj_on_def)

lemma write_total:
  assumes "sessionPaths hroot sid = Inr p" "SESSION_ID_RE i" "map_of (fs_receipts fs) (receipt_file p f i) = None"
  shows "\<exists>fs' e. writeReceiptImmutable eng env fs hroot sid f i v = Inr (fs', e)
    \<and> fs_receipts fs' = AList.update (receipt_file p f i) v (fs_receipts fs)"
  using assms sessionPaths_Inr [OF assms(1)]
  by (auto simp: writeReceiptImmutable_def assertSafeSessionId_def Let_def split: prod.splits)

lemma run_validations_total:
  assumes "list_all plain r" "fo_root opts = abs_path r" "sessionPaths (abs_path r) (fo_sessionId opts) = Inr p"
    and fr: "fresh_ids env p fs0 N" and "n + length specs \<le> N"
    and "\<forall>m \<in> {n..N}. map_of (fs_receipts (va_fs st)) (receipt_file p ValidationFamily (receiptId env ''val'' m)) = None"
    and "\<forall>m \<le> N. map_of (fs_receipts (va_fs st)) (receipt_file p CompletionFamily (receiptId env ''done'' m)) = None"
  shows "\<exists>st'. run_validations env opts commit n specs st = Inr st'
    \<and> (\<forall>m \<le> N. map_of (fs_receipts (va_fs st')) (receipt_file p CompletionFamily (receiptId env ''done'' m)) = None)"
  using assms(5-7)
proof (induction specs arbitrary: n st)
  case (Cons spec specs)
  have safe: "m \<le> N \<Longrightarrow> SESSION_ID_RE (receiptId env ''val'' m)" "m \<le> N \<Longrightarrow> SESSION_ID_RE (receiptId env ''done'' m)" for m
    using fresh_idsD(1) [OF fr] by auto
  have n: "n \<le> N" and new: "map_of (fs_receipts (va_fs st)) (receipt_file p ValidationFamily (receiptId env ''val'' n)) = None"
    using Cons.prems(1,2) by auto
  obtain fs' e where w: "writeReceiptImmutable (fe_eng env) (fe_write env) (va_fs st) (fo_root opts) (fo_sessionId opts)
        ValidationFamily (receiptId env ''val'' n) (validation_receipt env opts commit n spec) = Inr (fs', e)"
    and u: "fs_receipts fs' = AList.update (receipt_file p ValidationFamily (receiptId env ''val'' n))
        (validation_receipt env opts commit n spec) (fs_receipts (va_fs st))"
    using write_total [OF assms(3) safe(1) [OF n] new] unfolding assms(2) by blast
  have 1: "\<forall>m \<in> {Suc n..N}. map_of (fs_receipts fs') (receipt_file p ValidationFamily (receiptId env ''val'' m)) = None"
  proof
    fix m assume m: "m \<in> {Suc n..N}"
    then have "receipt_file p ValidationFamily (receiptId env ''val'' m) \<noteq> receipt_file p ValidationFamily (receiptId env ''val'' n)"
      using receipt_file_inj [OF assms(1,3) safe(1) assms(3) safe(1), of m n] fresh_idsD(3) [OF fr, of m n] n by auto
    then show "map_of (fs_receipts fs') (receipt_file p ValidationFamily (receiptId env ''val'' m)) = None"
      using Cons.prems(2) m by (simp add: u js_simps)
  qed
  have 2: "\<forall>m \<le> N. map_of (fs_receipts fs') (receipt_file p CompletionFamily (receiptId env ''done'' m)) = None"
    using Cons.prems(3) receipt_file_inj [OF assms(1,3) safe(2) assms(3) safe(1) [OF n]] by (auto simp: u js_simps)
  show ?case
    using Cons.IH [of "Suc n" "\<lparr>va_fs = fs', va_validation = _, va_ids = _, va_blockers = _\<rparr>"] Cons.prems(1) 1 2
    by (simp add: w Let_def)
qed simp

lemma finalize_returns:
  assumes "list_all plain r" "fo_root opts = abs_path r" "sessionPaths (abs_path r) (fo_sessionId opts) = Inr p"
    and "fresh_ids env p fs (length (fo_validationCommands opts))" "env_ok env opts" "index_wf p fs"
  shows "\<exists>fs' res. runFinalize env fs opts = Inr (fs', res)"
proof (cases "fo_reviewOnly opts")
  case True
  have noerr: "writeReceiptImmutable (fe_eng env) (fe_write env) fs (fo_root opts) (fo_sessionId opts) f (receiptId env k 0) v \<noteq> Inl e"
    if "k \<in> {''val'', ''done'', ''revfail'', ''verdict''}" for f k v e
    using write_total [OF assms(3), of "receiptId env k 0" fs f "fe_eng env" "fe_write env" v]
      fresh_idsD(1,2) [OF assms(4) _ that, of 0] unfolding assms(2) by auto
  show ?thesis
  proof (cases "review_verdict_of opts")
    case None
    then show ?thesis using True noerr [of "''revfail''"]
      by (simp add: runFinalize_def runReviewFinalize_def Let_def split: sum.split)
  next
    case (Some v)
    then show ?thesis using True noerr [of "''verdict''"]
      by (simp add: runFinalize_def runReviewFinalize_def Let_def split: sum.split)
  qed
next
  case False
  let ?c = "fc_resolveCommit (fo_checks opts)"
  let ?N = "length (fo_validationCommands opts)"
  have "0 + length (fo_validationCommands opts) \<le> ?N"
    "\<forall>m \<in> {0..?N}. map_of (fs_receipts (va_fs (empty_validation fs))) (receipt_file p ValidationFamily (receiptId env ''val'' m)) = None"
    "\<forall>m \<le> ?N. map_of (fs_receipts (va_fs (empty_validation fs))) (receipt_file p CompletionFamily (receiptId env ''done'' m)) = None"
    using fresh_idsD(2) [OF assms(4)] by (auto simp: empty_validation_def)
  from run_validations_total [OF assms(1-4) this] obtain st where
    run: "run_validations env opts ?c 0 (fo_validationCommands opts) (empty_validation fs) = Inr st"
    and fresh: "\<forall>m \<le> ?N. map_of (fs_receipts (va_fs st)) (receipt_file p CompletionFamily (receiptId env ''done'' m)) = None" by blast
  have p: "sessionPaths (fo_root opts) (fo_sessionId opts) = Inr p" using assms(2,3) by simp
  have wf: "index_wf p (va_fs st)" and pers: "\<forall>j < length (fo_validationCommands opts). persisted_as p (va_fs st) (receiptId env ''val'' j)
      (validation_receipt env opts ?c j (fo_validationCommands opts ! j))"
    using run_validations_persist [OF assms(5) p run] assms(6) by (auto simp: empty_validation_def)
  have ids: "va_ids st = map (receiptId env ''val'') [0..<length (fo_validationCommands opts)]"
    using run_validations_outputs [OF assms(5) run] by (auto simp: empty_validation_def)
  obtain persisted where idx: "readReceiptIndex (va_fs st) (fo_root opts) (fo_sessionId opts) (Some ValidationFamily) = Inr persisted"
    by (simp add: readReceiptIndex_def p)
  have "\<exists>bs. recheck (fe_eng env) (va_fs st) persisted ?c i = Some bs" if "i \<in> set (va_ids st)" for i
    using recheck_persisted [OF assms(5) p wf _ idx] pers that by (auto simp: ids)
  from recheck_all_iff [OF this] obtain bs where bs: "recheck_all (fe_eng env) (va_fs st) persisted ?c (va_ids st) = Inr bs" by blast
  have noerr: "writeReceiptImmutable (fe_eng env) (fe_write env) (va_fs st) (fo_root opts) (fo_sessionId opts) CompletionFamily
      (receiptId env ''done'' (length (va_ids st))) v \<noteq> Inl e" for v e
    using write_total [OF p, of "receiptId env ''done'' ?N" "va_fs st" CompletionFamily "fe_eng env" "fe_write env" v]
      fresh_idsD(1) [OF assms(4), of ?N "''done''"] fresh by (auto simp: ids)
  have "\<exists>fs' res. finish_finalize env opts ?c st = Inr (fs', res)"
    using noerr by (simp add: finish_finalize_def Let_def idx bs split: sum.split)
  with False run show ?thesis by (simp add: runFinalize_def Let_def)
qed

text \<open>The finalizer always returns: on a normalised root, with new receipt ids and a well-formed index, a finalization
  ends with a result and never with a storage error, whatever the checks answer.\<close>

theorem finalize_always_returns:
  assumes "list_all plain r" "fo_root opts = abs_path r" "sessionPaths (abs_path r) (fo_sessionId opts) = Inr p"
    and "fresh_ids env p fs (length (fo_validationCommands opts))" "env_ok env opts" "index_wf p fs"
  shows "\<exists>fs' res. runFinalize env fs opts = Inr (fs', res)"
  using assms by (rule finalize_returns)

section \<open>Concrete runs\<close>

definition demo_env :: finalize_env where
  "demo_env = \<lparr>fe_eng = sample_engine, fe_write = no_spool, fe_fresh = dec_string, fe_now = (\<lambda>n. ''t'' @ dec_string n)\<rparr>"

definition demo_options :: "bool \<Rightarrow> string option \<Rightarrow> finalize_options" where
  "demo_options review verdict = \<lparr>fo_root = ''/r'', fo_sessionId = ''s'', fo_workspace = ''/w'', fo_branch = ''main'',
     fo_requireTests = False, fo_requireCommit = True, fo_requirePr = True, fo_reviewOnly = review, fo_verdict = verdict,
     fo_assistantText = None, fo_prTarget = None, fo_validationCommands = [\<lparr>vs_name = ''t'', vs_command = ''make''\<rparr>],
     fo_checks = \<lparr>fc_runValidation = (\<lambda>s. \<lparr>vr_exactCommand = vs_command s, vr_cwd = ''/w'', vr_exitStatus = 0, vr_pass = True\<rparr>),
       fc_resolveCommit = Some ''c1'', fc_commitOnBranch = (\<lambda>_ _. True), fc_prOrIssue = (Some ''pr'', None)\<rparr>\<rparr>"

lemma demo_env_ok: "env_ok demo_env (demo_options review verdict)"
  by (simp add: env_ok_def demo_env_def demo_options_def SESSION_ID_RE_def alnum_char_def word_char_def)

lemma demo_paths: "\<exists>p. sessionPaths (abs_path [''r'']) ''s'' = Inr p"
  by (simp add: sessionPaths_def assertSafeSessionId_def SESSION_ID_RE_def alnum_char_def word_char_def Let_def)

lemma demo_fresh: "fresh_ids demo_env p empty_fs (length (fo_validationCommands (demo_options review verdict)))"
proof -
  have d: "dec_string 0 = ''0''" "dec_string (Suc 0) = ''1''" by (simp_all add: dec_string.simps digit_of_def)
  have n: "(n :: nat) \<le> Suc 0 \<longleftrightarrow> n = 0 \<or> n = Suc 0" for n by auto
  show ?thesis
    by (auto simp: fresh_ids_def demo_env_def demo_options_def empty_fs_def receiptId_def inj_on_def n d
        SESSION_ID_RE_def alnum_char_def word_char_def)
qed

lemma demo_returns: "\<exists>fs' res. runFinalize demo_env empty_fs (demo_options review verdict) = Inr (fs', res)"
proof -
  obtain p where p: "sessionPaths (abs_path [''r'']) ''s'' = Inr p" using demo_paths by blast
  show ?thesis
  proof (rule finalize_returns [OF _ _ _ demo_fresh demo_env_ok])
    show "list_all plain [''r'']" by (simp add: plain_def sep_def)
    show "sessionPaths (abs_path [''r'']) (fo_sessionId (demo_options review verdict)) = Inr p" using p by (simp add: demo_options_def)
  qed (simp_all add: demo_options_def abs_path_def sep_def index_wf_def empty_fs_def log_of_def)
qed

theorem finalize_gate_witness:
  "\<exists>fs' res. runFinalize demo_env empty_fs (demo_options False None) = Inr (fs', res) \<and> fr_completed res"
proof -
  obtain fs' res where r: "runFinalize demo_env empty_fs (demo_options False None) = Inr (fs', res)" using demo_returns by blast
  obtain p where p: "sessionPaths (fo_root (demo_options False None)) (fo_sessionId (demo_options False None)) = Inr p"
    using demo_paths by (auto simp: demo_options_def abs_path_def sep_def)
  have "index_wf p empty_fs" by (simp add: index_wf_def empty_fs_def log_of_def)
  from finalize_gate [OF _ demo_env_ok p this r] r show ?thesis by (auto simp: demo_options_def present_def)
qed


theorem finalize_always_returns_witness: "\<exists>fs' res. runFinalize demo_env empty_fs (demo_options False None) = Inr (fs', res)"
proof -
  obtain p where p: "sessionPaths (abs_path [''r'']) ''s'' = Inr p" using demo_paths by blast
  show ?thesis
  proof (rule finalize_always_returns [OF _ _ _ demo_fresh demo_env_ok])
    show "list_all plain [''r'']" by (simp add: plain_def sep_def)
    show "sessionPaths (abs_path [''r'']) (fo_sessionId (demo_options False None)) = Inr p" using p by (simp add: demo_options_def)
  qed (simp_all add: demo_options_def abs_path_def sep_def index_wf_def empty_fs_def log_of_def)
qed

end
