(* ===== verification/Harness_Operate.thy ===== *)
theory Harness_Operate
  imports Harness_Finalize
begin

text \<open>
  The autonomous lifecycle \<^verbatim>\<open>operate(goal)\<close> (\<^verbatim>\<open>harness-control-plane/operate.ts\<close>) with what it calls: single-flight
  prompt acceptance (\<^verbatim>\<open>session-transport.ts\<close>), preservation of a dirty worktree (\<^verbatim>\<open>preserve.ts\<close>), the recovery
  classifier, vanish receipts and the finalizer.

  The injected effects are functions of the number of the call: the observation provider, the transport as it is at
  the time of a submission, the preservation result. The loop state records its actions in order
  (\<open>os_trace\<close>), so that what happened before what can be stated.
\<close>

section \<open>Single-flight acceptance\<close>

(* coding-agent/src/harness-control-plane/session-transport.ts:1-5 SessionStateSnapshot *)
record session_snapshot =
  ss_isStreaming :: bool
  ss_steeringQueueDepth :: nat
  ss_followupQueueDepth :: nat

text \<open>A transport: its state, its event cursor, the acknowledgement of a prompt and the first agent start after a cursor
  within the timeout.\<close>

(* coding-agent/src/harness-control-plane/session-transport.ts:18-36 HarnessSessionTransport *)
record session_transport =
  tp_getState :: session_snapshot
  tp_eventCursor :: nat
  tp_sendPrompt :: "string \<Rightarrow> string \<times> bool"
  tp_waitForAgentStart :: "nat \<Rightarrow> nat \<Rightarrow> nat option"

(* coding-agent/src/harness-control-plane/session-transport.ts:38-45 AcceptanceResult *)
record acceptance_result =
  ar_accepted :: bool
  ar_reason :: string
  ar_commandId :: "string option"
  ar_preSubmitCursor :: nat
  ar_agentStartCursor :: "nat option"
  ar_preSubmitState :: session_snapshot

(* coding-agent/src/harness-control-plane/session-transport.ts:47-94 singleFlightAccept *)
definition singleFlightAccept :: "session_transport \<Rightarrow> string \<Rightarrow> nat \<Rightarrow> acceptance_result" where
  "singleFlightAccept transport prompt timeoutMs =
     (let pre = tp_getState transport;
          cursor = tp_eventCursor transport;
          result = (\<lambda>ok reason cmd start. \<lparr>ar_accepted = ok, ar_reason = reason, ar_commandId = cmd,
             ar_preSubmitCursor = cursor, ar_agentStartCursor = start, ar_preSubmitState = pre\<rparr>)
      in if ss_isStreaming pre \<or> ss_steeringQueueDepth pre > 0 \<or> ss_followupQueueDepth pre > 0
         then result False ''pre-state-not-idle'' None None
         else (case tp_sendPrompt transport prompt of (commandId, ack) \<Rightarrow>
           if \<not> ack then result False ''no-ack'' (Some commandId) None
           else (case tp_waitForAgentStart transport cursor timeoutMs of
               None \<Rightarrow> result False ''no-agent-start-within-timeout'' (Some commandId) None
             | Some started \<Rightarrow> result True ''protocol-ack-single-flight'' (Some commandId) (Some started))))"

section \<open>Preserving a worktree\<close>

(* coding-agent/src/harness-control-plane/preserve.ts:20-24 UntrackedEntry *)
record untracked_entry =
  ue_path :: string
  ue_size :: int
  ue_sha256 :: string

(* coding-agent/src/harness-control-plane/preserve.ts:26-33 PreserveResult *)
record preserve_result =
  ps_gitDelta :: git_delta
  ps_trackedDiff :: string
  ps_trackedDiffSha256 :: string
  ps_untrackedManifest :: "untracked_entry list"
  ps_stashRef :: "string option"
  ps_snapshotComplete :: bool

text \<open>The answers of git and of the file system; \<open>None\<close> is a command that fails or a file that cannot be read.\<close>

record worktree =
  wt_diffHead :: "string option"
  wt_lsFilesOthers :: "string option"
  wt_readFile :: "string \<Rightarrow> string option"
  wt_stashCreate :: "string option"
  wt_stashStore :: bool

(* coding-agent/src/harness-control-plane/preserve.ts:65-74 preserveDirtyWorktree *)
definition manifest_entry :: "js_engine \<Rightarrow> worktree \<Rightarrow> string \<Rightarrow> untracked_entry" where
  "manifest_entry eng wt rel =
     (case wt_readFile wt rel of
        Some buf \<Rightarrow> \<lparr>ue_path = rel, ue_size = int (length buf), ue_sha256 = sha256_hex eng buf\<rparr>
      | None \<Rightarrow> \<lparr>ue_path = rel, ue_size = -1, ue_sha256 = ''unreadable''\<rparr>)"

(* coding-agent/src/harness-control-plane/preserve.ts:78-87 preserveDirtyWorktree *)
definition stash_ref :: "worktree \<Rightarrow> string option" where
  "stash_ref wt =
     (case map_option trim (wt_stashCreate wt) of
        None \<Rightarrow> None
      | Some oid \<Rightarrow> if oid = [] \<or> \<not> wt_stashStore wt then None else Some oid)"

(* coding-agent/src/harness-control-plane/preserve.ts:47-102 preserveDirtyWorktree *)
definition preserveDirtyWorktree :: "js_engine \<Rightarrow> worktree \<Rightarrow> preserve_result" where
  "preserveDirtyWorktree eng wt =
     (let trackedDiff = (case wt_diffHead wt of None \<Rightarrow> [] | Some d \<Rightarrow> d);
          untracked = (case wt_lsFilesOthers wt of None \<Rightarrow> []
             | Some out \<Rightarrow> filter (\<lambda>s. s \<noteq> []) (map trim (split_at CHR 0x0A out)));
          untrackedManifest = map (manifest_entry eng wt) untracked;
          stashRef = stash_ref wt;
          dirty = (trim trackedDiff \<noteq> [] \<or> untrackedManifest \<noteq> []);
          trackedCaptured = (trim trackedDiff = [] \<or> stashRef \<noteq> None);
          untrackedCaptured = list_all (\<lambda>e. ue_sha256 e \<noteq> ''unreadable'') untrackedManifest
      in \<lparr>ps_gitDelta = (if dirty then Dirty else Clean), ps_trackedDiff = trackedDiff,
          ps_trackedDiffSha256 = sha256_hex eng trackedDiff, ps_untrackedManifest = untrackedManifest,
          ps_stashRef = stashRef, ps_snapshotComplete = (trackedCaptured \<and> untrackedCaptured)\<rparr>)"

section \<open>The operate loop\<close>

text \<open>What the loop does, in order.\<close>

datatype op_action =
    OpSubmit bool
  | OpClassified observation recovery_classification
  | OpVanish jv bool
  | OpRestart recovery_classification

(* coding-agent/src/harness-control-plane/operate.ts:33-53 OperateOptions *)
record operate_options =
  oo_finalize :: finalize_options
  oo_env :: finalize_env
  oo_transport :: "nat \<Rightarrow> session_transport"
  oo_observe :: "nat \<Rightarrow> observation"
  oo_preserve :: "nat \<Rightarrow> preserve_result"
  oo_acceptanceTimeoutMs :: nat
  oo_maxIterations :: nat
  oo_vanishId :: "nat \<Rightarrow> string"

record operate_state =
  os_fs :: harness_fs
  os_budget :: retry_budget
  os_accepted :: bool
  os_lifecycle :: lifecycle
  os_iterations :: nat
  os_classifications :: "recovery_classification list"
  os_vanishIds :: "string list"
  os_blockers :: "string list"
  os_events :: "(severity \<times> string \<times> jv) list"
  os_trace :: "op_action list"

(* coding-agent/src/harness-control-plane/operate.ts:55-63 OperateResult *)
record operate_result =
  or_completed :: bool
  or_lifecycle :: lifecycle
  or_iterations :: nat
  or_classifications :: "recovery_classification list"
  or_vanishReceiptIds :: "string list"
  or_finalize :: "finalize_result option"
  or_blockers :: "string list"

definition protected_delta :: "git_delta \<Rightarrow> bool" where
  "protected_delta d \<longleftrightarrow> d = Dirty \<or> d = UnknownDelta"

(* coding-agent/src/harness-control-plane/operate.ts:81-103 writeVanish *)
definition vanish_evidence :: "preserve_result \<Rightarrow> observation \<Rightarrow> recovery_classification \<Rightarrow> jv" where
  "vanish_evidence p ob c =
     (let dirty = protected_delta (o_gitDelta ob);
          stashRef = (if dirty then ps_stashRef p else None)
      in JObj
       [(''classification'', JStr (classification_name c)),
        (''gitDelta'', JStr (git_delta_name (o_gitDelta ob))),
        (''gitStatusPorcelain'', JStr (if dirty
            then ''tracked-diff-sha:'' @ ps_trackedDiffSha256 p @ '';untracked:''
                 @ dec_string (length (ps_untrackedManifest p)) @ '';stash:''
                 @ (case ps_stashRef p of None \<Rightarrow> ''none'' | Some s \<Rightarrow> s)
            else join '','' (o_observedSignals ob))),
        (''untrackedManifest'', JArr (if dirty
            then map (\<lambda>u. JObj [(''path'', JStr (ue_path u)), (''size'', JNum (of_int (ue_size u))),
                               (''sha256'', JStr (ue_sha256 u))]) (ps_untrackedManifest p)
            else [])),
        (''preservation'', JStr (if dirty \<and> present stashRef then ''stash'' else ''snapshot'')),
        (''stashRef'', str_or_null stashRef),
        (''snapshotComplete'', JBool (if dirty then ps_snapshotComplete p else True)),
        (''forbiddenActions'', JArr (if dirty then map JStr [''restart-clean'', ''delete'', ''reset''] else []))])"

(* coding-agent/src/harness-control-plane/operate.ts:104-112 writeVanish *)
definition vanish_receipt :: "operate_options \<Rightarrow> operate_state \<Rightarrow> observation \<Rightarrow> recovery_classification \<Rightarrow> jv" where
  "vanish_receipt opts st ob c =
     buildReceipt (fe_eng (oo_env opts)) []
       \<lparr>br_receiptId = oo_vanishId opts (os_iterations st), br_sessionId = fo_sessionId (oo_finalize opts),
        br_family = VanishFamily, br_source = ''operate'', br_subject = finalize_subject (oo_finalize opts) None,
        br_evidence = vanish_evidence (oo_preserve opts (os_iterations st)) ob c, br_artifactHashes = None,
        br_createdAt = Some (fe_now (oo_env opts) (os_iterations st)), br_valid = None\<rparr>"

definition emit :: "severity \<Rightarrow> string \<Rightarrow> jv \<Rightarrow> operate_state \<Rightarrow> operate_state" where
  "emit sev kind evidence st = st\<lparr>os_events := os_events st @ [(sev, kind, evidence)]\<rparr>"

definition blockers_evidence :: "string list \<Rightarrow> jv" where
  "blockers_evidence bs = JObj [(''blockers'', JArr (map JStr bs))]"

definition trace :: "op_action \<Rightarrow> operate_state \<Rightarrow> operate_state" where
  "trace a st = st\<lparr>os_trace := os_trace st @ [a]\<rparr>"

(* coding-agent/src/harness-control-plane/operate.ts:80-118 writeVanish *)
definition writeVanish ::
  "operate_options \<Rightarrow> observation \<Rightarrow> recovery_classification \<Rightarrow> operate_state \<Rightarrow> (storage_error, operate_state \<times> bool) outcome"
where
  "writeVanish opts ob c st =
     (let receipt = vanish_receipt opts st ob c;
          valid = vo_valid (validateReceipt (fe_eng (oo_env opts)) receipt);
          rid = oo_vanishId opts (os_iterations st)
      in case writeReceiptImmutable (fe_eng (oo_env opts)) (fe_write (oo_env opts)) (os_fs st) (fo_root (oo_finalize opts))
                (fo_sessionId (oo_finalize opts)) VanishFamily rid receipt of
           Inl e \<Rightarrow> Inl e
         | Inr (fs', _) \<Rightarrow>
             Inr (emit (if valid then Critical else Warn) ''vanish_receipt''
                   (JObj [(''classification'', JStr (classification_name c)), (''valid'', JBool valid)])
                   (trace (OpVanish receipt valid) (st\<lparr>os_fs := fs', os_vanishIds := os_vanishIds st @ [rid]\<rparr>)), valid))"

(* coding-agent/src/harness-control-plane/operate.ts:120-126 submit *)
definition op_submit :: "string \<Rightarrow> operate_options \<Rightarrow> operate_state \<Rightarrow> operate_state" where
  "op_submit goal opts st =
     (let res = singleFlightAccept (oo_transport opts (os_iterations st)) goal (oo_acceptanceTimeoutMs opts);
          acc = ar_accepted res
      in emit (if acc then Info else Warn) (if acc then ''prompt_accepted'' else ''prompt_not_accepted'')
           (JObj [(''reason'', JStr (ar_reason res))])
           (trace (OpSubmit acc) (st\<lparr>os_accepted := acc\<rparr>)))"

definition block :: "string \<Rightarrow> operate_state \<Rightarrow> operate_state" where
  "block b st = st\<lparr>os_lifecycle := Blocked, os_blockers := os_blockers st @ [b]\<rparr>"

text \<open>The action of a classification after the vanish gate; \<open>True\<close> means the loop breaks.\<close>

(* coding-agent/src/harness-control-plane/operate.ts:158-177 operate *)
definition op_act :: "string \<Rightarrow> operate_options \<Rightarrow> recovery_classification \<Rightarrow> operate_state \<Rightarrow> operate_state \<times> bool" where
  "op_act goal opts c st =
     (case c of
        ReinjectPrompt \<Rightarrow>
          (op_submit goal opts (st\<lparr>os_budget := (os_budget st)\<lparr>b_reinjectPrompt := max 0 (b_reinjectPrompt (os_budget st) - 1)\<rparr>\<rparr>), False)
      | RestartClean \<Rightarrow>
          (op_submit goal opts (trace (OpRestart c)
             (st\<lparr>os_budget := (os_budget st)\<lparr>b_zeroDeltaVanish := max 0 (b_zeroDeltaVanish (os_budget st) - 1)\<rparr>\<rparr>)), False)
      | RestartPreserveDelta \<Rightarrow>
          (op_submit goal opts (trace (OpRestart c)
             (st\<lparr>os_budget := (os_budget st)\<lparr>b_dirtyVanishPreserve := max 0 (b_dirtyVanishPreserve (os_budget st) - 1)\<rparr>\<rparr>)), False)
      | FallbackCodexExec \<Rightarrow> (block ''fallback-codex-exec-requested'' st, True)
      | HumanCheck \<Rightarrow> (block ''human-check-required'' st, True)
      | _ \<Rightarrow> (st, False))"

text \<open>Observing and classifying, the first lines of an iteration.\<close>

(* coding-agent/src/harness-control-plane/operate.ts:219-225 classifyRecoveryLocal *)
definition iteration_decision :: "operate_options \<Rightarrow> operate_state \<Rightarrow> recovery_decision" where
  "iteration_decision opts st = classifyRecovery \<lparr>ci_observation = oo_observe opts (os_iterations st),
     ci_retryBudget = os_budget st, ci_acceptedPromptActive = Some (os_accepted st)\<rparr>"

abbreviation iteration_class :: "operate_options \<Rightarrow> operate_state \<Rightarrow> recovery_classification" where
  "iteration_class opts st \<equiv> d_classification (iteration_decision opts st)"

(* coding-agent/src/harness-control-plane/operate.ts:134-138 operate *)
definition op_classified :: "operate_options \<Rightarrow> operate_state \<Rightarrow> operate_state" where
  "op_classified opts st =
     emit (d_severity (iteration_decision opts st)) (''classified:'' @ classification_name (iteration_class opts st))
       (JObj [(''reason'', JStr (d_reason (iteration_decision opts st)))])
       (trace (OpClassified (oo_observe opts (os_iterations st)) (iteration_class opts st))
         (st\<lparr>os_iterations := Suc (os_iterations st),
             os_classifications := os_classifications st @ [iteration_class opts st]\<rparr>))"

definition observed_completion :: "observation \<Rightarrow> bool" where
  "observed_completion ob \<longleftrightarrow> ''completed'' \<in> set (o_observedSignals ob) \<or> o_lifecycle ob = Finalizing"

(* coding-agent/src/harness-control-plane/operate.ts:140-178 operate *)
definition op_iteration :: "string \<Rightarrow> operate_options \<Rightarrow> operate_state \<Rightarrow> (storage_error, operate_state \<times> bool) outcome" where
  "op_iteration goal opts st0 =
     (let ob = oo_observe opts (os_iterations st0); c = iteration_class opts st0; st = op_classified opts st0
      in if c = Continue
         then (if observed_completion ob then Inr (st\<lparr>os_lifecycle := Finalizing\<rparr>, True) else Inr (st, False))
         else if requiresVanishBeforeAction c
         then (case writeVanish opts ob c st of
                 Inl e \<Rightarrow> Inl e
               | Inr (st1, safe) \<Rightarrow>
                   if \<not> safe then Inr (block ''invalid-vanish-receipt'' st1, True) else Inr (op_act goal opts c st1))
         else Inr (op_act goal opts c st))"

text \<open>The loop, by recursion on the iterations left.\<close>

(* coding-agent/src/harness-control-plane/operate.ts:133-134 operate *)
fun op_loop :: "string \<Rightarrow> operate_options \<Rightarrow> nat \<Rightarrow> operate_state \<Rightarrow> (storage_error, operate_state) outcome" where
  "op_loop goal opts 0 st = Inr st"
| "op_loop goal opts (Suc n) st =
     (case op_iteration goal opts st of
        Inl e \<Rightarrow> Inl e
      | Inr (st', brk) \<Rightarrow> if brk then Inr st' else op_loop goal opts n st')"

(* coding-agent/src/harness-control-plane/operate.ts:65-78 operate *)
definition op_start :: "retry_budget \<Rightarrow> harness_fs \<Rightarrow> operate_state" where
  "op_start budget fs = \<lparr>os_fs = fs, os_budget = budget, os_accepted = False, os_lifecycle = Started, os_iterations = 0,
     os_classifications = [], os_vanishIds = [], os_blockers = [], os_events = [], os_trace = []\<rparr>"

definition op_result :: "operate_state \<Rightarrow> bool \<Rightarrow> lifecycle \<Rightarrow> finalize_result option \<Rightarrow> string list \<Rightarrow> operate_result" where
  "op_result st completed l f bs = \<lparr>or_completed = completed, or_lifecycle = l, or_iterations = os_iterations st,
     or_classifications = os_classifications st, or_vanishReceiptIds = os_vanishIds st, or_finalize = f, or_blockers = bs\<rparr>"

(* coding-agent/src/harness-control-plane/operate.ts:180-217 operate *)
definition op_finish ::
  "operate_options \<Rightarrow> operate_state \<Rightarrow> (storage_error, operate_state \<times> operate_result) outcome"
where
  "op_finish opts st =
     (if os_lifecycle st = Blocked
      then Inr (emit Critical ''operate_blocked'' (blockers_evidence (os_blockers st)) st, op_result st False Blocked None (os_blockers st))
      else if os_lifecycle st \<noteq> Finalizing
      then (let bs = os_blockers st @ [''no-observed-completion'']
            in Inr (emit Critical ''operate_blocked'' (blockers_evidence bs) (st\<lparr>os_blockers := bs\<rparr>), op_result st False Blocked None bs))
      else (case runFinalize (oo_env opts) (os_fs st)
                   ((oo_finalize opts)\<lparr>fo_requireTests := True, fo_requireCommit := True, fo_requirePr := True, fo_reviewOnly := False\<rparr>) of
              Inl e \<Rightarrow> Inl e
            | Inr (fs', f) \<Rightarrow>
                Inr (emit (if fr_completed f then Info else Critical) ''operate_finalized''
                       (JObj [(''completed'', JBool (fr_completed f)), (''blockers'', JArr (map JStr (fr_blockers f)))]) (st\<lparr>os_fs := fs'\<rparr>),
                     op_result st (fr_completed f) (if fr_completed f then Completed else Blocked) (Some f) (fr_blockers f))))"

(* coding-agent/src/harness-control-plane/operate.ts:128-132 operate *)
definition operate ::
  "string \<Rightarrow> retry_budget \<Rightarrow> operate_options \<Rightarrow> harness_fs \<Rightarrow> (storage_error, operate_state \<times> operate_result) outcome"
where
  "operate goal budget opts fs =
     (let st0 = op_submit goal opts (emit Info ''operate_started'' (JObj [(''goal'', JStr goal)]) (op_start budget fs));
          st1 = st0\<lparr>os_lifecycle := (if os_accepted st0 then Observing else Submitted)\<rparr>
      in case op_loop goal opts (oo_maxIterations opts) st1 of
           Inl e \<Rightarrow> Inl e
         | Inr st \<Rightarrow> op_finish opts st)"

section \<open>Lemmas\<close>

lemma emit_simps [simp]:
  "os_fs (emit s k e st) = os_fs st" "os_budget (emit s k e st) = os_budget st" "os_lifecycle (emit s k e st) = os_lifecycle st"
  "os_iterations (emit s k e st) = os_iterations st" "os_classifications (emit s k e st) = os_classifications st"
  "os_blockers (emit s k e st) = os_blockers st" "os_trace (emit s k e st) = os_trace st"
  "os_vanishIds (emit s k e st) = os_vanishIds st" "os_accepted (emit s k e st) = os_accepted st"
  by (simp_all add: emit_def)

lemma trace_simps [simp]:
  "os_fs (trace a st) = os_fs st" "os_budget (trace a st) = os_budget st" "os_lifecycle (trace a st) = os_lifecycle st"
  "os_iterations (trace a st) = os_iterations st" "os_classifications (trace a st) = os_classifications st"
  "os_blockers (trace a st) = os_blockers st" "os_trace (trace a st) = os_trace st @ [a]"
  "os_vanishIds (trace a st) = os_vanishIds st" "os_accepted (trace a st) = os_accepted st"
  by (simp_all add: trace_def)

lemma block_simps [simp]:
  "os_fs (block b st) = os_fs st" "os_budget (block b st) = os_budget st" "os_lifecycle (block b st) = Blocked"
  "os_iterations (block b st) = os_iterations st" "os_classifications (block b st) = os_classifications st"
  "os_blockers (block b st) = os_blockers st @ [b]" "os_trace (block b st) = os_trace st"
  by (simp_all add: block_def)

lemma op_submit_simps [simp]:
  "os_fs (op_submit g opts st) = os_fs st" "os_budget (op_submit g opts st) = os_budget st"
  "os_lifecycle (op_submit g opts st) = os_lifecycle st" "os_iterations (op_submit g opts st) = os_iterations st"
  "os_classifications (op_submit g opts st) = os_classifications st" "os_blockers (op_submit g opts st) = os_blockers st"
  "os_trace (op_submit g opts st) = os_trace st @ [OpSubmit (os_accepted (op_submit g opts st))]"
  by (simp_all add: op_submit_def Let_def)

lemma op_classified_simps [simp]:
  "os_fs (op_classified opts st) = os_fs st" "os_budget (op_classified opts st) = os_budget st"
  "os_lifecycle (op_classified opts st) = os_lifecycle st" "os_blockers (op_classified opts st) = os_blockers st"
  "os_iterations (op_classified opts st) = Suc (os_iterations st)"
  "os_classifications (op_classified opts st) = os_classifications st @ [iteration_class opts st]"
  "os_trace (op_classified opts st) = os_trace st @ [OpClassified (oo_observe opts (os_iterations st)) (iteration_class opts st)]"
  by (simp_all add: op_classified_def)

lemma writeVanish_Inr:
  assumes "writeVanish opts ob c st = Inr (st1, ok)"
  obtains fs' e where "writeReceiptImmutable (fe_eng (oo_env opts)) (fe_write (oo_env opts)) (os_fs st) (fo_root (oo_finalize opts))
        (fo_sessionId (oo_finalize opts)) VanishFamily (oo_vanishId opts (os_iterations st)) (vanish_receipt opts st ob c) = Inr (fs', e)"
    "ok = vo_valid (validateReceipt (fe_eng (oo_env opts)) (vanish_receipt opts st ob c))"
    "os_fs st1 = fs'" "os_budget st1 = os_budget st" "os_lifecycle st1 = os_lifecycle st" "os_blockers st1 = os_blockers st"
    "os_iterations st1 = os_iterations st" "os_classifications st1 = os_classifications st"
    "os_trace st1 = os_trace st @ [OpVanish (vanish_receipt opts st ob c) ok]"
  using assms by (auto simp: writeVanish_def Let_def split: sum.splits)

text \<open>The shapes of an iteration.\<close>

lemma op_iteration_cases:
  assumes "op_iteration g opts st0 = Inr (st', brk)"
  obtains (continue) "iteration_class opts st0 = Continue"
      "st' = (if brk then (op_classified opts st0)\<lparr>os_lifecycle := Finalizing\<rparr> else op_classified opts st0)"
      "brk \<longleftrightarrow> observed_completion (oo_observe opts (os_iterations st0))"
  | (refused) st1 where "requiresVanishBeforeAction (iteration_class opts st0)" "brk" "st' = block ''invalid-vanish-receipt'' st1"
      "writeVanish opts (oo_observe opts (os_iterations st0)) (iteration_class opts st0) (op_classified opts st0) = Inr (st1, False)"
  | (vanished) st1 where "requiresVanishBeforeAction (iteration_class opts st0)"
      "writeVanish opts (oo_observe opts (os_iterations st0)) (iteration_class opts st0) (op_classified opts st0) = Inr (st1, True)"
      "(st', brk) = op_act g opts (iteration_class opts st0) st1"
  | (plain) "iteration_class opts st0 \<in> {SendEnter, ReinjectPrompt, HumanCheck}"
      "(st', brk) = op_act g opts (iteration_class opts st0) (op_classified opts st0)"
proof (cases "iteration_class opts st0 = Continue")
  case True
  with assms show ?thesis
    by (intro continue) (auto simp: op_iteration_def Let_def split: if_splits)
next
  case c: False
  show ?thesis
  proof (cases "requiresVanishBeforeAction (iteration_class opts st0)")
    case True
    obtain st1 safe where w: "writeVanish opts (oo_observe opts (os_iterations st0)) (iteration_class opts st0) (op_classified opts st0) = Inr (st1, safe)"
      using assms c True by (auto simp: op_iteration_def Let_def split: sum.splits)
    show ?thesis
    proof (cases safe)
      case True
      with w assms c \<open>requiresVanishBeforeAction _\<close> show ?thesis by (intro vanished) (auto simp: op_iteration_def Let_def)
    next
      case False
      with w assms c \<open>requiresVanishBeforeAction _\<close> show ?thesis by (intro refused) (auto simp: op_iteration_def Let_def)
    qed
  next
    case False
    have "iteration_class opts st0 \<in> {SendEnter, ReinjectPrompt, HumanCheck}"
      using c False by (cases "iteration_class opts st0") (auto simp: requiresVanishBeforeAction_def)
    with c False assms show ?thesis by (intro plain) (auto simp: op_iteration_def Let_def)
  qed
qed

lemma op_act_simps:
  assumes "(st', brk) = op_act g opts c st"
  shows "os_fs st' = os_fs st" "os_iterations st' = os_iterations st" "os_classifications st' = os_classifications st"
    "os_lifecycle st' = (if brk then Blocked else os_lifecycle st)"
    "os_blockers st' = [] \<longleftrightarrow> os_blockers st = [] \<and> \<not> brk"
    "os_trace st' = os_trace st @ (if c = ReinjectPrompt then [OpSubmit (os_accepted st')]
       else if c \<in> {RestartClean, RestartPreserveDelta} then [OpRestart c, OpSubmit (os_accepted st')] else [])"
    "b_reinjectPrompt (os_budget st') = (if c = ReinjectPrompt then max 0 (b_reinjectPrompt (os_budget st) - 1) else b_reinjectPrompt (os_budget st))"
    "b_dirtyVanishPreserve (os_budget st') =
       (if c = RestartPreserveDelta then max 0 (b_dirtyVanishPreserve (os_budget st) - 1) else b_dirtyVanishPreserve (os_budget st))"
    "b_zeroDeltaVanish (os_budget st') =
       (if c = RestartClean then max 0 (b_zeroDeltaVanish (os_budget st) - 1) else b_zeroDeltaVanish (os_budget st))"
  using assms by (cases c; simp add: op_act_def)+

lemma iteration_class_facts:
  "iteration_class opts st = ReinjectPrompt \<Longrightarrow> b_reinjectPrompt (os_budget st) > 0"
  "iteration_class opts st = RestartPreserveDelta \<Longrightarrow> b_dirtyVanishPreserve (os_budget st) > 0
     \<and> o_gitDelta (oo_observe opts (os_iterations st)) = Dirty \<and> \<not> o_ownerLive (oo_observe opts (os_iterations st))"
  "iteration_class opts st = RestartClean \<Longrightarrow> o_gitDelta (oo_observe opts (os_iterations st)) \<in> {Clean, ZeroDelta}
     \<and> \<not> o_ownerLive (oo_observe opts (os_iterations st))"
  by (auto simp: iteration_decision_def classifier_defs split: if_splits git_delta.splits)

text \<open>A restart is justified by the two actions before it.\<close>

definition restart_ok :: "js_engine \<Rightarrow> observation \<Rightarrow> recovery_classification \<Rightarrow> jv \<Rightarrow> bool" where
  "restart_ok eng ob c r \<longleftrightarrow> \<not> o_ownerLive ob \<and> o_gitDelta ob \<in> (if c = RestartClean then {Clean, ZeroDelta} else {Dirty})
     \<and> vo_valid (validateReceipt eng r) \<and> get r ''family'' = JStr ''vanish''
     \<and> get (get r ''evidence'') ''gitDelta'' = JStr (git_delta_name (o_gitDelta ob))"

definition safe_trace :: "js_engine \<Rightarrow> harness_fs \<Rightarrow> op_action list \<Rightarrow> bool" where
  "safe_trace eng fs tr \<longleftrightarrow> (\<forall>i c. i < length tr \<and> tr ! i = OpRestart c \<longrightarrow>
     (\<exists>ob r. 2 \<le> i \<and> tr ! (i - 2) = OpClassified ob c \<and> tr ! (i - 1) = OpVanish r True
        \<and> restart_ok eng ob c r \<and> r \<in> ran (map_of (fs_receipts fs))))"

definition no_restart :: "op_action list \<Rightarrow> bool" where
  "no_restart xs \<longleftrightarrow> (\<forall>c. OpRestart c \<notin> set xs)"

lemma ran_mono: "f \<subseteq>\<^sub>m g \<Longrightarrow> r \<in> ran f \<Longrightarrow> r \<in> ran g"
  by (force simp: map_le_def ran_def dom_def)

lemma safe_trace_append:
  assumes "safe_trace eng fs tr" "map_of (fs_receipts fs) \<subseteq>\<^sub>m map_of (fs_receipts fs')" "no_restart xs"
  shows "safe_trace eng fs' (tr @ xs)"
  unfolding safe_trace_def
proof (intro allI impI)
  fix i c
  assume i: "i < length (tr @ xs) \<and> (tr @ xs) ! i = OpRestart c"
  have "i < length tr"
  proof (rule ccontr)
    assume "\<not> i < length tr"
    with i have "OpRestart c \<in> set xs" by (auto simp: nth_append) (metis add_diff_inverse_nat nat_add_left_cancel_less nth_mem)
    with assms(3) show False by (simp add: no_restart_def)
  qed
  moreover from this have "tr ! i = OpRestart c" using i by (simp add: nth_append)
  ultimately obtain ob r where "2 \<le> i" "tr ! (i - 2) = OpClassified ob c" "tr ! (i - 1) = OpVanish r True"
      "restart_ok eng ob c r" "r \<in> ran (map_of (fs_receipts fs))"
    using assms(1) unfolding safe_trace_def by blast
  moreover have "i - 2 < length tr" "i - 1 < length tr" using \<open>i < length tr\<close> by auto
  ultimately show "\<exists>ob r. 2 \<le> i \<and> (tr @ xs) ! (i - 2) = OpClassified ob c \<and> (tr @ xs) ! (i - 1) = OpVanish r True
        \<and> restart_ok eng ob c r \<and> r \<in> ran (map_of (fs_receipts fs'))"
    using ran_mono [OF assms(2)] by (auto simp: nth_append)
qed

lemma safe_trace_restart:
  assumes "safe_trace eng fs tr" "map_of (fs_receipts fs) \<subseteq>\<^sub>m map_of (fs_receipts fs')"
    and "restart_ok eng ob c r" "r \<in> ran (map_of (fs_receipts fs'))"
  shows "safe_trace eng fs' (tr @ [OpClassified ob c, OpVanish r True, OpRestart c])"
proof -
  have "safe_trace eng fs' (tr @ [OpClassified ob c, OpVanish r True])"
    by (rule safe_trace_append [OF assms(1,2)]) (simp add: no_restart_def)
  then show ?thesis
    unfolding safe_trace_def
  proof (intro allI impI, goal_cases)
    case (1 i c')
    show ?case
    proof (cases "i = length tr + 2")
      case True
      with 1 assms(3,4) show ?thesis by (auto simp: nth_append)
    next
      case False
      then have i: "i < length (tr @ [OpClassified ob c, OpVanish r True])" using 1(2) by simp
      have sub: "(tr @ [OpClassified ob c, OpVanish r True, OpRestart c]) ! j = (tr @ [OpClassified ob c, OpVanish r True]) ! j"
        if "j \<le> i" for j
        using i that nth_append [of "tr @ [OpClassified ob c, OpVanish r True]" "[OpRestart c]" j] by simp
      have at: "(tr @ [OpClassified ob c, OpVanish r True]) ! i = OpRestart c'" using sub [of i] 1(2) by simp
      from 1(1) i at obtain ob' r' where "2 \<le> i" "(tr @ [OpClassified ob c, OpVanish r True]) ! (i - 2) = OpClassified ob' c'"
        "(tr @ [OpClassified ob c, OpVanish r True]) ! (i - 1) = OpVanish r' True" "restart_ok eng ob' c' r'"
        "r' \<in> ran (map_of (fs_receipts fs'))" by blast
      then show ?thesis using sub [of "i - 2"] sub [of "i - 1"] by auto
    qed
  qed
qed

lemma vanish_receipt_get [simp]:
  "get (vanish_receipt opts st ob c) ''family'' = JStr ''vanish''"
  "get (get (vanish_receipt opts st ob c) ''evidence'') ''gitDelta'' = JStr (git_delta_name (o_gitDelta ob))"
  by (simp_all add: vanish_receipt_def get_buildReceipt receipt_base_def vanish_evidence_def Let_def)

lemma op_iteration_safe:
  assumes "op_iteration g opts st0 = Inr (st', brk)" "safe_trace (fe_eng (oo_env opts)) (os_fs st0) (os_trace st0)"
  shows "safe_trace (fe_eng (oo_env opts)) (os_fs st') (os_trace st')
    \<and> map_of (fs_receipts (os_fs st0)) \<subseteq>\<^sub>m map_of (fs_receipts (os_fs st'))"
  using assms(1)
proof (cases rule: op_iteration_cases)
  case continue
  then show ?thesis using safe_trace_append [OF assms(2)] by (auto simp: no_restart_def)
next
  case (refused st1)
  show ?thesis
    by (rule writeVanish_Inr [OF refused(4)])
       (use refused(3) safe_trace_append [OF assms(2) write_preserves(1)] write_preserves(1) in \<open>auto simp: no_restart_def\<close>)
next
  case (vanished st1)
  let ?c = "iteration_class opts st0" and ?ob = "oo_observe opts (os_iterations st0)"
  let ?r = "vanish_receipt opts (op_classified opts st0) ?ob ?c"
  note act = op_act_simps [OF vanished(3)]
  obtain fs' e where w: "writeReceiptImmutable (fe_eng (oo_env opts)) (fe_write (oo_env opts)) (os_fs st0) (fo_root (oo_finalize opts))
        (fo_sessionId (oo_finalize opts)) VanishFamily (oo_vanishId opts (Suc (os_iterations st0))) ?r = Inr (fs', e)"
    and ok: "vo_valid (validateReceipt (fe_eng (oo_env opts)) ?r)" and fs: "os_fs st1 = fs'"
    and tr: "os_trace st1 = os_trace st0 @ [OpClassified ?ob ?c, OpVanish ?r True]"
    by (rule writeVanish_Inr [OF vanished(2)]) auto
  have le: "map_of (fs_receipts (os_fs st0)) \<subseteq>\<^sub>m map_of (fs_receipts fs')" by (rule write_preserves(1) [OF w])
  have stored: "?r \<in> ran (map_of (fs_receipts fs'))"
    by (rule writeReceipt_Inr [OF w]) (auto simp: ran_def js_simps)
  show ?thesis
  proof (cases "?c \<in> {RestartClean, RestartPreserveDelta}")
    case True
    then have "restart_ok (fe_eng (oo_env opts)) ?ob ?c ?r"
      using iteration_class_facts(2,3) [of opts st0] ok by (auto simp: restart_ok_def)
    from safe_trace_restart [OF assms(2) le this stored]
    have "safe_trace (fe_eng (oo_env opts)) fs' ((os_trace st0 @ [OpClassified ?ob ?c, OpVanish ?r True, OpRestart ?c]) @ [OpSubmit (os_accepted st')])"
      by (rule safe_trace_append) (simp_all add: no_restart_def)
    with True le show ?thesis using act by (auto simp: fs tr)
  next
    case False
    then show ?thesis
      using act le safe_trace_append [OF assms(2) le, of "[OpClassified ?ob ?c, OpVanish ?r True] @ (if ?c = ReinjectPrompt then [OpSubmit (os_accepted st')] else [])"]
      by (auto simp: fs tr no_restart_def)
  qed
next
  case plain
  note act = op_act_simps [OF plain(2)]
  show ?thesis
    using plain(1) act safe_trace_append [OF assms(2), of "os_fs st'" "[OpClassified (oo_observe opts (os_iterations st0)) (iteration_class opts st0)]
        @ (if iteration_class opts st0 = ReinjectPrompt then [OpSubmit (os_accepted st')] else [])"]
    by (auto simp: no_restart_def)
qed

text \<open>What one iteration does to the counters, the budgets and the lifecycle.\<close>

definition budget_left :: "retry_budget \<Rightarrow> operate_state \<Rightarrow> bool" where
  "budget_left b0 st \<longleftrightarrow>
     int (count_list (os_classifications st) ReinjectPrompt) + max 0 (b_reinjectPrompt (os_budget st)) \<le> max 0 (b_reinjectPrompt b0)
   \<and> int (count_list (os_trace st) (OpRestart RestartPreserveDelta)) + max 0 (b_dirtyVanishPreserve (os_budget st))
       \<le> max 0 (b_dirtyVanishPreserve b0)"

lemma op_iteration_counts:
  assumes "op_iteration g opts st0 = Inr (st', brk)"
  shows "os_iterations st' = Suc (os_iterations st0)"
    and "os_classifications st' = os_classifications st0 @ [iteration_class opts st0]"
    and "budget_left b0 st0 \<Longrightarrow> budget_left b0 st'"
    and "\<not> brk \<Longrightarrow> os_lifecycle st' = os_lifecycle st0 \<and> (os_blockers st' = [] \<longleftrightarrow> os_blockers st0 = [])"
    and "brk \<Longrightarrow> os_lifecycle st' = Finalizing \<and> iteration_class opts st0 = Continue
           \<and> observed_completion (oo_observe opts (os_iterations st0)) \<and> os_blockers st' = os_blockers st0
         \<or> os_lifecycle st' = Blocked \<and> os_blockers st' \<noteq> []"
proof -
  have "os_iterations st' = Suc (os_iterations st0)
    \<and> os_classifications st' = os_classifications st0 @ [iteration_class opts st0]
    \<and> (budget_left b0 st0 \<longrightarrow> budget_left b0 st')
    \<and> (\<not> brk \<longrightarrow> os_lifecycle st' = os_lifecycle st0 \<and> (os_blockers st' = [] \<longleftrightarrow> os_blockers st0 = []))
    \<and> (brk \<longrightarrow> os_lifecycle st' = Finalizing \<and> iteration_class opts st0 = Continue
           \<and> observed_completion (oo_observe opts (os_iterations st0)) \<and> os_blockers st' = os_blockers st0
         \<or> os_lifecycle st' = Blocked \<and> os_blockers st' \<noteq> [])"
    using assms
  proof (cases rule: op_iteration_cases)
    case continue
    then show ?thesis by (auto simp: budget_left_def)
  next
    case (refused st1)
    have "os_budget st1 = os_budget st0" "os_iterations st1 = Suc (os_iterations st0)"
      "os_classifications st1 = os_classifications st0 @ [iteration_class opts st0]"
      "\<exists>r. os_trace st1 = os_trace st0 @ [OpClassified (oo_observe opts (os_iterations st0)) (iteration_class opts st0), OpVanish r False]"
      by (rule writeVanish_Inr [OF refused(4)], simp)+
    moreover have "iteration_class opts st0 \<noteq> ReinjectPrompt" using refused(1) by (auto simp: requiresVanishBeforeAction_def)
    ultimately show ?thesis using refused(2,3) by (auto simp: budget_left_def)
  next
    case (vanished st1)
    have st1: "os_budget st1 = os_budget st0" "os_iterations st1 = Suc (os_iterations st0)" "os_lifecycle st1 = os_lifecycle st0"
      "os_blockers st1 = os_blockers st0" "os_classifications st1 = os_classifications st0 @ [iteration_class opts st0]"
      "\<exists>r. os_trace st1 = os_trace st0 @ [OpClassified (oo_observe opts (os_iterations st0)) (iteration_class opts st0), OpVanish r True]"
      by (rule writeVanish_Inr [OF vanished(2)], simp)+
    then show ?thesis
      using op_act_simps [OF vanished(3)] iteration_class_facts [of opts st0] by (auto simp: budget_left_def)
  next
    case plain
    then show ?thesis
      using op_act_simps [OF plain(2)] iteration_class_facts [of opts st0] by (auto simp: budget_left_def)
  qed
  then show "os_iterations st' = Suc (os_iterations st0)"
    and "os_classifications st' = os_classifications st0 @ [iteration_class opts st0]"
    and "budget_left b0 st0 \<Longrightarrow> budget_left b0 st'"
    and "\<not> brk \<Longrightarrow> os_lifecycle st' = os_lifecycle st0 \<and> (os_blockers st' = [] \<longleftrightarrow> os_blockers st0 = [])"
    and "brk \<Longrightarrow> os_lifecycle st' = Finalizing \<and> iteration_class opts st0 = Continue
           \<and> observed_completion (oo_observe opts (os_iterations st0)) \<and> os_blockers st' = os_blockers st0
         \<or> os_lifecycle st' = Blocked \<and> os_blockers st' \<noteq> []"
    by blast+
qed

text \<open>The invariant of the loop.\<close>

definition op_inv :: "operate_options \<Rightarrow> session_paths \<Rightarrow> retry_budget \<Rightarrow> operate_state \<Rightarrow> bool" where
  "op_inv opts p b0 st \<longleftrightarrow>
     length (os_classifications st) = os_iterations st \<and> budget_left b0 st
   \<and> safe_trace (fe_eng (oo_env opts)) (os_fs st) (os_trace st) \<and> index_wf p (os_fs st)"

definition op_running :: "operate_state \<Rightarrow> bool" where
  "op_running st \<longleftrightarrow> os_lifecycle st \<in> {Observing, Submitted} \<and> os_blockers st = []"

definition op_stopped :: "operate_options \<Rightarrow> operate_state \<Rightarrow> bool" where
  "op_stopped opts st \<longleftrightarrow>
     os_lifecycle st = Blocked \<and> os_blockers st \<noteq> []
   \<or> os_lifecycle st = Finalizing \<and> os_blockers st = [] \<and> os_iterations st > 0
     \<and> last (os_classifications st) = Continue \<and> observed_completion (oo_observe opts (os_iterations st - 1))"

lemma op_iteration_index_wf:
  assumes "op_iteration g opts st0 = Inr (st', brk)" "sessionPaths (fo_root (oo_finalize opts)) (fo_sessionId (oo_finalize opts)) = Inr p"
    and "index_wf p (os_fs st0)"
  shows "index_wf p (os_fs st')"
  using assms(1)
proof (cases rule: op_iteration_cases)
  case continue
  then show ?thesis using assms(3) by auto
next
  case (refused st1)
  show ?thesis
    by (rule writeVanish_Inr [OF refused(4)]) (use refused(3) write_index_wf [OF _ assms(2)] assms(3) in auto)
next
  case (vanished st1)
  show ?thesis
    by (rule writeVanish_Inr [OF vanished(2)])
       (use op_act_simps(1) [OF vanished(3)] write_index_wf [OF _ assms(2)] assms(3) in auto)
next
  case plain
  then show ?thesis using op_act_simps(1) [OF plain(2)] assms(3) by auto
qed

lemma op_loop_inv:
  assumes "sessionPaths (fo_root (oo_finalize opts)) (fo_sessionId (oo_finalize opts)) = Inr p"
  shows "op_loop g opts n st = Inr st' \<Longrightarrow> op_inv opts p b0 st \<Longrightarrow> op_running st \<Longrightarrow>
     op_inv opts p b0 st' \<and> os_iterations st' \<le> os_iterations st + n \<and> (op_running st' \<or> op_stopped opts st')"
proof (induction n arbitrary: st)
  case (Suc n)
  obtain st1 brk where it: "op_iteration g opts st = Inr (st1, brk)"
    using Suc.prems(1) by (auto split: sum.splits)
  note c = op_iteration_counts [OF it]
  have inv: "op_inv opts p b0 st1"
    using Suc.prems(2) c(1,2,3) op_iteration_safe [OF it] op_iteration_index_wf [OF it assms]
    by (auto simp: op_inv_def)
  show ?case
  proof (cases brk)
    case True
    with Suc.prems(1) it have "st' = st1" by simp
    moreover have "op_stopped opts st1"
      using c(1,2,5) True Suc.prems(3) by (auto simp: op_stopped_def op_running_def)
    ultimately show ?thesis using inv c(1) by simp
  next
    case False
    then have "op_loop g opts n st1 = Inr st'" "op_running st1"
      using Suc.prems it c(4) by (auto simp: op_running_def)
    with Suc.IH [OF this(1) inv this(2)] c(1) show ?thesis by auto
  qed
qed simp

lemma op_start_inv:
  assumes "index_wf p fs"
  shows "op_inv opts p b (op_submit g opts (emit Info k e (op_start b fs)))"
    and "op_inv opts p b ((op_submit g opts (emit Info k e (op_start b fs)))\<lparr>os_lifecycle := l\<rparr>)"
  using assms by (auto simp: op_inv_def op_start_def budget_left_def safe_trace_def nth_Cons')

lemma run_validations_preserves:
  "run_validations env o' c n specs vst = Inr vst' \<Longrightarrow> map_of (fs_receipts (va_fs vst)) \<subseteq>\<^sub>m map_of (fs_receipts (va_fs vst'))"
proof (induction specs arbitrary: n vst)
  case (Cons spec specs)
  then obtain fs' e where w: "writeReceiptImmutable (fe_eng env) (fe_write env) (va_fs vst) (fo_root o') (fo_sessionId o')
      ValidationFamily (receiptId env ''val'' n) (validation_receipt env o' c n spec) = Inr (fs', e)"
    by (auto simp: Let_def split: sum.splits)
  from Cons.prems have "\<exists>v. va_fs v = fs' \<and> run_validations env o' c (Suc n) specs v = Inr vst'"
    by (simp add: w Let_def) (rule exI, rule conjI [rotated], assumption, simp)
  with Cons.IH write_preserves(1) [OF w] map_le_trans show ?case by blast
qed simp

lemma finalize_preserves:
  assumes "runFinalize env fs o' = Inr (fs', f)"
  shows "map_of (fs_receipts fs) \<subseteq>\<^sub>m map_of (fs_receipts fs')"
proof (cases "fo_reviewOnly o'")
  case True
  then show ?thesis using assms
    by (auto simp: runFinalize_def runReviewFinalize_def Let_def split: option.splits sum.splits dest: write_preserves(1))
next
  case False
  obtain st where "run_validations env o' (fc_resolveCommit (fo_checks o')) 0 (fo_validationCommands o') (empty_validation fs) = Inr st"
    and fin: "finish_finalize env o' (fc_resolveCommit (fo_checks o')) st = Inr (fs', f)"
    using assms False by (auto simp: runFinalize_def Let_def split: sum.splits)
  then have "map_of (fs_receipts fs) \<subseteq>\<^sub>m map_of (fs_receipts (va_fs st))"
    using run_validations_preserves by (fastforce simp: empty_validation_def)
  moreover have "map_of (fs_receipts (va_fs st)) \<subseteq>\<^sub>m map_of (fs_receipts fs')"
    using fin by (auto simp: finish_finalize_def Let_def split: sum.splits if_splits dest: write_preserves(1))
  ultimately show ?thesis by (rule map_le_trans)
qed

section \<open>Properties of the operate loop\<close>

lemma operate_split:
  assumes "operate goal b opts fs = Inr (st, res)" "index_wf p fs"
    and "sessionPaths (fo_root (oo_finalize opts)) (fo_sessionId (oo_finalize opts)) = Inr p"
  obtains st1 where "op_inv opts p b st1" "os_iterations st1 \<le> oo_maxIterations opts" "op_running st1 \<or> op_stopped opts st1"
    "op_finish opts st1 = Inr (st, res)"
proof -
  define s0 where "s0 = op_submit goal opts (emit Info ''operate_started'' (JObj [(''goal'', JStr goal)]) (op_start b fs))"
  define s1 where "s1 = s0\<lparr>os_lifecycle := (if os_accepted s0 then Observing else Submitted)\<rparr>"
  obtain st1 where l: "op_loop goal opts (oo_maxIterations opts) s1 = Inr st1" and f: "op_finish opts st1 = Inr (st, res)"
    using assms(1) by (auto simp: operate_def Let_def s0_def s1_def split: sum.splits)
  have "op_inv opts p b s1" unfolding s1_def s0_def by (rule op_start_inv(2) [OF assms(2)])
  moreover have "op_running s1" by (simp add: s1_def s0_def op_running_def op_start_def)
  moreover have "os_iterations s1 = 0" by (simp add: s1_def s0_def op_start_def)
  ultimately show ?thesis using op_loop_inv [OF assms(3) l] f that by auto
qed


text \<open>C1. No restart without its evidence: in every run, each restart of the session transport is immediately preceded by its
  classification of a vanished owner and a vanish receipt that validates, names the observed delta and is
  stored; a clean restart only ever follows a clean or zero delta, a preserving restart only a dirty one, so
  an unknown delta is never restarted.\<close>

theorem operate_restart_evidence:
  assumes "operate goal b opts fs = Inr (st, res)" "index_wf p fs"
    and "sessionPaths (fo_root (oo_finalize opts)) (fo_sessionId (oo_finalize opts)) = Inr p"
    and "i < length (os_trace st)" "os_trace st ! i = OpRestart c"
  shows "\<exists>ob r. 2 \<le> i \<and> os_trace st ! (i - 2) = OpClassified ob c \<and> os_trace st ! (i - 1) = OpVanish r True
    \<and> \<not> o_ownerLive ob \<and> o_gitDelta ob \<in> (if c = RestartClean then {Clean, ZeroDelta} else {Dirty})
    \<and> vo_valid (validateReceipt (fe_eng (oo_env opts)) r) \<and> get r ''family'' = JStr ''vanish''
    \<and> get (get r ''evidence'') ''gitDelta'' = JStr (git_delta_name (o_gitDelta ob))
    \<and> r \<in> ran (map_of (fs_receipts (os_fs st)))"
proof -
  obtain st1 where st1: "op_inv opts p b st1" and fin: "op_finish opts st1 = Inr (st, res)"
    by (rule operate_split [OF assms(1-3)])
  have "os_trace st = os_trace st1 \<and> map_of (fs_receipts (os_fs st1)) \<subseteq>\<^sub>m map_of (fs_receipts (os_fs st))"
    using fin finalize_preserves by (auto simp: op_finish_def Let_def split: if_splits sum.splits)
  then have "safe_trace (fe_eng (oo_env opts)) (os_fs st) (os_trace st)"
    using st1 safe_trace_append [of "fe_eng (oo_env opts)" "os_fs st1" "os_trace st1" "os_fs st" "[]"]
    by (simp add: op_inv_def no_restart_def)
  with assms(4,5) show ?thesis unfolding safe_trace_def restart_ok_def by blast
qed

section \<open>Concrete operate runs\<close>

definition idle_transport :: session_transport where
  "idle_transport = \<lparr>tp_getState = \<lparr>ss_isStreaming = False, ss_steeringQueueDepth = 0, ss_followupQueueDepth = 0\<rparr>,
     tp_eventCursor = 0, tp_sendPrompt = (\<lambda>_. (''c'', True)), tp_waitForAgentStart = (\<lambda>c _. Some (Suc c))\<rparr>"

definition demo_operate :: "observation \<Rightarrow> operate_options" where
  "demo_operate ob = \<lparr>oo_finalize = demo_options False None, oo_env = demo_env, oo_transport = (\<lambda>_. idle_transport),
     oo_observe = (\<lambda>_. ob), oo_preserve = (\<lambda>_. \<lparr>ps_gitDelta = Clean, ps_trackedDiff = [], ps_trackedDiffSha256 = [],
       ps_untrackedManifest = [], ps_stashRef = None, ps_snapshotComplete = True\<rparr>),
     oo_acceptanceTimeoutMs = 5, oo_maxIterations = 1, oo_vanishId = (\<lambda>n. ''v'' @ dec_string n)\<rparr>"

definition demo_observation :: "bool \<Rightarrow> git_delta \<Rightarrow> string list \<Rightarrow> observation" where
  "demo_observation live delta sigs = \<lparr>o_lifecycle = Observing, o_ownerLive = live, o_cwd = ''/w'', o_branch = None,
     o_gitDelta = delta, o_lastActivityAt = None, o_observedSignals = sigs, o_risk = NormalRisk, o_rpcLive = None,
     o_rpcLastFrameAt = None, o_readyForSubmit = None, o_submitUnavailableReason = None\<rparr>"

lemmas demo_operate_simps = demo_operate_def demo_observation_def idle_transport_def operate_def op_iteration_def Let_def
  iteration_decision_def classifyRecovery_def decision_def observed_completion_def

lemma demo_session:
  obtains p where "sessionPaths (fo_root (demo_options False None)) (fo_sessionId (demo_options False None)) = Inr p" "index_wf p empty_fs"
  using demo_paths by (auto simp: demo_options_def abs_path_def sep_def index_wf_def empty_fs_def log_of_def)

lemma demo_completes:
  "\<exists>st res. operate ''go'' DEFAULT_RETRY_BUDGET (demo_operate (demo_observation True Clean [''completed''])) empty_fs = Inr (st, res)"
proof -
  let ?o = "(demo_options False None)\<lparr>fo_requireTests := True, fo_requireCommit := True, fo_requirePr := True, fo_reviewOnly := False\<rparr>"
  obtain p where p: "sessionPaths (abs_path [''r'']) ''s'' = Inr p" using demo_paths by blast
  have "\<exists>fs' f. runFinalize demo_env empty_fs ?o = Inr (fs', f)"
  proof (rule finalize_returns)
    show "list_all plain [''r'']" by (simp add: plain_def sep_def)
    show "sessionPaths (abs_path [''r'']) (fo_sessionId ?o) = Inr p" using p by (simp add: demo_options_def)
    show "fresh_ids demo_env p empty_fs (length (fo_validationCommands ?o))" using demo_fresh [of p False None] by simp
    show "env_ok demo_env ?o" using demo_env_ok [of False None] by (simp add: env_ok_def)
  qed (simp_all add: demo_options_def abs_path_def sep_def index_wf_def empty_fs_def log_of_def)
  then obtain fs' f where "runFinalize demo_env empty_fs ?o = Inr (fs', f)" by blast
  then show ?thesis by (simp add: demo_operate_simps op_finish_def op_start_def)
qed


definition vanished_options :: operate_options where
  "vanished_options = demo_operate (demo_observation False Clean [])"

lemma vanished_options_simps [simp]:
  "oo_observe vanished_options n = demo_observation False Clean []" "oo_env vanished_options = demo_env"
  "oo_maxIterations vanished_options = 1" "fo_root (oo_finalize vanished_options) = ''/r''"
  "fo_sessionId (oo_finalize vanished_options) = ''s''" "oo_vanishId vanished_options (Suc 0) = ''v1''"
  by (simp_all add: vanished_options_def demo_operate_def demo_options_def dec_string.simps digit_of_def)

lemma demo_restarts:
  "\<exists>st res. operate ''go'' DEFAULT_RETRY_BUDGET vanished_options empty_fs = Inr (st, res)
    \<and> length (os_trace st) = 5 \<and> os_trace st ! 3 = OpRestart RestartClean"
proof -
  define r where "r = vanish_receipt vanished_options (op_classified vanished_options (op_start DEFAULT_RETRY_BUDGET empty_fs))
     (demo_observation False Clean []) RestartClean"
  have r: "vanish_receipt vanished_options st (demo_observation False Clean []) RestartClean = r" if "os_iterations st = Suc 0" for st
    using that by (simp add: r_def vanish_receipt_def op_start_def)
  have v: "vo_valid (validateReceipt (fe_eng demo_env) r)" unfolding r_def by code_simp
  obtain fs' e where w: "writeReceiptImmutable (fe_eng demo_env) (fe_write demo_env) empty_fs ''/r'' ''s'' VanishFamily ''v1'' r = Inr (fs', e)"
    by (auto simp: writeReceiptImmutable_def sessionPaths_def assertSafeSessionId_def empty_fs_def SESSION_ID_RE_def alnum_char_def
        word_char_def Let_def demo_env_def)
  have c: "iteration_class vanished_options st = RestartClean" for st
    by (simp add: iteration_decision_def classifyRecovery_def decision_def demo_observation_def Let_def)
  show ?thesis
    by (simp add: operate_def op_iteration_def c writeVanish_def r v w Let_def op_start_def requiresVanishBeforeAction_def op_act_def
        op_finish_def)
qed

theorem operate_restart_evidence_witness:
  "\<exists>st res ob r. operate ''go'' DEFAULT_RETRY_BUDGET vanished_options empty_fs = Inr (st, res)
    \<and> os_trace st ! 1 = OpClassified ob RestartClean \<and> os_trace st ! 2 = OpVanish r True \<and> r \<in> ran (map_of (fs_receipts (os_fs st)))"
proof -
  obtain st res where r: "operate ''go'' DEFAULT_RETRY_BUDGET vanished_options empty_fs = Inr (st, res)"
    and t: "length (os_trace st) = 5" "os_trace st ! 3 = OpRestart RestartClean" using demo_restarts by blast
  obtain p where "sessionPaths (fo_root (oo_finalize vanished_options)) (fo_sessionId (oo_finalize vanished_options)) = Inr p"
    "index_wf p empty_fs" using demo_session by (auto simp: vanished_options_def demo_operate_def)
  from operate_restart_evidence [OF r this(2,1) _ t(2)] t(1) r show ?thesis by auto
qed

end
