(* ===== verification/Harness_Lease.thy ===== *)
theory Harness_Lease
  imports Harness_Storage
begin

text \<open>
  Session leases (\<^verbatim>\<open>harness-control-plane/session-lease.ts\<close>): one runtime owner holds the lease of a session; only
  the holder may append events. Every mutation runs under the file lock of the lease, so it is one step; the
  second read of \<^verbatim>\<open>acquireLease\<close> sees the file through \<open>between\<close>, which is the identity when the lock excludes all
  other writers.

  Clock readings and expiry times are milliseconds (\<^verbatim>\<open>Date.parse\<close> undoes \<^verbatim>\<open>toISOString\<close>). The token of a lease is the
  argument \<open>token\<close>, a reading of \<^verbatim>\<open>randomBytes\<close>; \<open>hash\<close> is SHA-256.
\<close>

section \<open>Model\<close>

(* coding-agent/src/harness-control-plane/session-lease.ts:21-21 SessionLease *)
datatype endpoint_kind = UnixSocket | Fifo

(* coding-agent/src/harness-control-plane/session-lease.ts:16-27 SessionLease *)
record session_lease =
  l_ownerId :: string
  l_sessionId :: string
  l_pid :: nat
  l_leaseTokenHash :: string
  l_endpoint :: "(endpoint_kind \<times> string) option"
  l_eventsPath :: string
  l_heartbeatAt :: int
  l_expiresAt :: int
  l_leaseEpoch :: nat
  l_writer :: "string \<times> nat"

(* coding-agent/src/harness-control-plane/session-lease.ts:29-37 LeaseError *)
datatype lease_error = LeaseError (le_message: string) (le_code: string) | LeasePathError storage_error

(* coding-agent/src/harness-control-plane/session-lease.ts:38-38 LeaseStatus *)
datatype lease_status = Missing | Live | ExpiredAlive | Dead | EpermAlive

(* coding-agent/src/harness-control-plane/session-lease.ts:40-40 PidStatus *)
datatype pid_status = PidAlive | PidDead | PidEperm

text \<open>The lease files and the socket files that exist.\<close>

record lease_fs =
  lf_leases :: "(string, session_lease) jsmap"
  lf_sockets :: "string list"

(* coding-agent/src/harness-control-plane/session-lease.ts:86-94 readLease *)
definition readLease :: "lease_fs \<Rightarrow> session_paths \<Rightarrow> session_lease option" where
  "readLease fs p = map_of (lf_leases fs) (sp_lease p)"

(* coding-agent/src/harness-control-plane/session-lease.ts:50-55 writeLeaseAtomic *)
definition writeLeaseAtomic :: "session_paths \<Rightarrow> session_lease \<Rightarrow> lease_fs \<Rightarrow> lease_fs" where
  "writeLeaseAtomic p lease fs = fs\<lparr>lf_leases := AList.update (sp_lease p) lease (lf_leases fs)\<rparr>"

definition removeLease :: "session_paths \<Rightarrow> lease_fs \<Rightarrow> lease_fs" where
  "removeLease p fs = fs\<lparr>lf_leases := AList.delete (sp_lease p) (lf_leases fs)\<rparr>"

(* coding-agent/src/harness-control-plane/session-lease.ts:96-98 isExpired *)
definition isExpired :: "session_lease \<Rightarrow> int \<Rightarrow> bool" where
  "isExpired lease now \<longleftrightarrow> l_expiresAt lease \<le> now"

(* coding-agent/src/harness-control-plane/session-lease.ts:112-121 classifyLeaseStatus *)
definition classifyLeaseStatus :: "session_lease option \<Rightarrow> int \<Rightarrow> (nat \<Rightarrow> pid_status) \<Rightarrow> lease_status" where
  "classifyLeaseStatus lease now probe =
     (case lease of
        None \<Rightarrow> Missing
      | Some l \<Rightarrow> (case probe (l_pid l) of
          PidDead \<Rightarrow> Dead
        | PidEperm \<Rightarrow> EpermAlive
        | PidAlive \<Rightarrow> if isExpired l now then ExpiredAlive else Live))"

(* coding-agent/src/harness-control-plane/session-lease.ts:123-131 classifyProbeFromBoolean *)
definition classifyProbeFromBoolean :: "(nat \<Rightarrow> bool + pid_status) \<Rightarrow> nat \<Rightarrow> pid_status" where
  "classifyProbeFromBoolean probe pid =
     (case probe pid of Inl b \<Rightarrow> if b then PidAlive else PidDead | Inr s \<Rightarrow> s)"

(* coding-agent/src/harness-control-plane/session-lease.ts:133-143 isOwnerAlive *)
definition isOwnerAlive :: "(nat \<Rightarrow> pid_status) \<Rightarrow> nat \<Rightarrow> bool" where
  "isOwnerAlive probe pid \<longleftrightarrow> probe pid \<noteq> PidDead"

(* coding-agent/src/harness-control-plane/session-lease.ts:145-150 isStale *)
definition isStale :: "session_lease \<Rightarrow> int \<Rightarrow> (nat \<Rightarrow> pid_status) \<Rightarrow> bool" where
  "isStale lease now probe \<longleftrightarrow> isExpired lease now \<or> \<not> isOwnerAlive probe (l_pid lease)"

(* coding-agent/src/harness-control-plane/session-lease.ts:152-160 AcquireOptions *)
record acquire_options =
  ao_ownerId :: string
  ao_pid :: nat
  ao_endpoint :: "(endpoint_kind \<times> string) option"
  ao_eventsPath :: string
  ao_ttlMs :: int

definition lease_held :: "string \<Rightarrow> lease_error" where
  "lease_held sid = LeaseError (''lease_held:'' @ sid) ''lease_held''"

text \<open>The checks of an acquisition against an existing lease: another owner's lease must be dead, and unchanged on the
  second read.\<close>

(* coding-agent/src/harness-control-plane/session-lease.ts:174-188 acquireLease *)
definition may_take_over ::
  "session_lease option \<Rightarrow> session_lease option \<Rightarrow> string \<Rightarrow> int \<Rightarrow> (nat \<Rightarrow> pid_status) \<Rightarrow> bool"
where
  "may_take_over existing reread ownerId now probe =
     (case existing of
        None \<Rightarrow> True
      | Some l \<Rightarrow> l_ownerId l = ownerId
          \<or> classifyLeaseStatus (Some l) now probe = Dead
            \<and> (case reread of None \<Rightarrow> False
               | Some l' \<Rightarrow> l_ownerId l' = l_ownerId l \<and> l_leaseEpoch l' = l_leaseEpoch l))"

(* coding-agent/src/harness-control-plane/session-lease.ts:189-204 acquireLease *)
definition new_lease ::
  "(string \<Rightarrow> string) \<Rightarrow> string \<Rightarrow> acquire_options \<Rightarrow> session_lease option \<Rightarrow> string \<Rightarrow> int \<Rightarrow> session_lease"
where
  "new_lease hash sid opts existing token now =
     (let priorEpoch = (case existing of None \<Rightarrow> 0 | Some l \<Rightarrow> l_leaseEpoch l);
          epoch = (case existing of
             Some l \<Rightarrow> if l_ownerId l = ao_ownerId opts then priorEpoch else priorEpoch + 1
           | None \<Rightarrow> priorEpoch + 1)
      in \<lparr>l_ownerId = ao_ownerId opts, l_sessionId = sid, l_pid = ao_pid opts, l_leaseTokenHash = hash token,
          l_endpoint = ao_endpoint opts, l_eventsPath = ao_eventsPath opts, l_heartbeatAt = now,
          l_expiresAt = now + ao_ttlMs opts, l_leaseEpoch = epoch, l_writer = (ao_ownerId opts, epoch)\<rparr>)"

(* coding-agent/src/harness-control-plane/session-lease.ts:171-208 acquireLease *)
definition acquireLease ::
  "(string \<Rightarrow> string) \<Rightarrow> (lease_fs \<Rightarrow> lease_fs) \<Rightarrow> (nat \<Rightarrow> pid_status) \<Rightarrow> int \<Rightarrow> string \<Rightarrow> lease_fs \<Rightarrow> string \<Rightarrow> string
     \<Rightarrow> acquire_options \<Rightarrow> (lease_error, lease_fs \<times> session_lease \<times> string) outcome"
where
  "acquireLease hash between probe now token fs hroot sid opts =
     (case sessionPaths hroot sid of
        Inl e \<Rightarrow> Inl (LeasePathError e)
      | Inr p \<Rightarrow>
          let existing = readLease fs p;
              fs' = between fs;
              lease = new_lease hash sid opts existing token now
          in if may_take_over existing (readLease fs' p) (ao_ownerId opts) now probe
             then Inr (writeLeaseAtomic p lease fs', lease, token)
             else Inl (lease_held sid))"

(* coding-agent/src/harness-control-plane/session-lease.ts:210-231 heartbeat *)
definition heartbeat ::
  "lease_fs \<Rightarrow> string \<Rightarrow> string \<Rightarrow> string \<Rightarrow> int \<Rightarrow> int \<Rightarrow> (lease_error, lease_fs \<times> session_lease) outcome"
where
  "heartbeat fs hroot sid ownerId ttlMs now =
     (case sessionPaths hroot sid of
        Inl e \<Rightarrow> Inl (LeasePathError e)
      | Inr p \<Rightarrow> (case readLease fs p of
          None \<Rightarrow> Inl (LeaseError (''no_lease:'' @ sid) ''no_lease'')
        | Some lease \<Rightarrow>
            if l_ownerId lease \<noteq> ownerId then Inl (LeaseError (''not_lease_holder:'' @ sid) ''not_lease_holder'')
            else let nxt = lease\<lparr>l_heartbeatAt := now, l_expiresAt := now + ttlMs\<rparr>
                 in Inr (writeLeaseAtomic p nxt fs, nxt)))"

(* coding-agent/src/harness-control-plane/session-lease.ts:233-236 canWriteEvents *)
definition canWriteEvents :: "session_lease \<Rightarrow> string \<Rightarrow> int \<Rightarrow> bool" where
  "canWriteEvents lease ownerId now \<longleftrightarrow> l_ownerId lease = ownerId \<and> \<not> isExpired lease now"

(* coding-agent/src/harness-control-plane/session-lease.ts:238-246 releaseLease *)
definition releaseLease :: "lease_fs \<Rightarrow> string \<Rightarrow> string \<Rightarrow> string \<Rightarrow> (lease_error, lease_fs) outcome" where
  "releaseLease fs hroot sid ownerId =
     (case sessionPaths hroot sid of
        Inl e \<Rightarrow> Inl (LeasePathError e)
      | Inr p \<Rightarrow> (case readLease fs p of
          None \<Rightarrow> Inr fs
        | Some lease \<Rightarrow>
            if l_ownerId lease \<noteq> ownerId then Inl (LeaseError (''not_lease_holder:'' @ sid) ''not_lease_holder'')
            else Inr (removeLease p fs)))"

text \<open>\<open>ctlSock\<close> is the result of \<^verbatim>\<open>controlSocketPath\<close>, \<open>None\<close> when it throws.\<close>

(* coding-agent/src/harness-control-plane/session-lease.ts:60-68 isOwnedUnixEndpointPath *)
definition isOwnedUnixEndpointPath :: "string \<Rightarrow> string option \<Rightarrow> string \<Rightarrow> string \<Rightarrow> bool" where
  "isOwnedUnixEndpointPath cwd ctlSock endpointPath fallbackPath \<longleftrightarrow>
     path_resolve cwd endpointPath = path_resolve cwd fallbackPath
     \<or> (case ctlSock of None \<Rightarrow> False | Some s \<Rightarrow> path_resolve cwd endpointPath = path_resolve cwd s)"

(* coding-agent/src/harness-control-plane/session-lease.ts:248-270 reapDeadOwnerArtifacts *)
definition reapDeadOwnerArtifacts ::
  "string \<Rightarrow> string option \<Rightarrow> (nat \<Rightarrow> pid_status) \<Rightarrow> int \<Rightarrow> lease_fs \<Rightarrow> string \<Rightarrow> string \<Rightarrow> string \<Rightarrow> nat
     \<Rightarrow> (lease_error, lease_fs \<times> bool) outcome"
where
  "reapDeadOwnerArtifacts cwd ctlSock probe now fs hroot sid expectedOwnerId expectedEpoch =
     (case sessionPaths hroot sid of
        Inl e \<Rightarrow> Inl (LeasePathError e)
      | Inr p \<Rightarrow> (case readLease fs p of
          None \<Rightarrow> Inr (fs, False)
        | Some lease \<Rightarrow>
            if l_ownerId lease \<noteq> expectedOwnerId \<or> l_leaseEpoch lease \<noteq> expectedEpoch then Inr (fs, False)
            else if classifyLeaseStatus (Some lease) now probe \<noteq> Dead then Inr (fs, False)
            else let owned = (case l_endpoint lease of
                       Some (UnixSocket, q) \<Rightarrow> if isOwnedUnixEndpointPath cwd ctlSock q (sp_controlSock p) then [q] else []
                     | _ \<Rightarrow> []);
                     gone = sp_controlSock p # owned
                 in Inr ((removeLease p fs)\<lparr>lf_sockets := filter (\<lambda>s. s \<notin> set gone) (lf_sockets fs)\<rparr>, True)))"

section \<open>Owners and processes\<close>

text \<open>The lease file of one session among processes: the clock only moves forward, a dead process stays dead, and
  \<open>eperm\<close> are the live processes of other users. A step is labelled with the owner id that takes it.\<close>

record lease_world =
  lw_fs :: lease_fs
  lw_now :: int
  lw_dead :: "nat set"

definition probe_of :: "nat set \<Rightarrow> lease_world \<Rightarrow> nat \<Rightarrow> pid_status" where
  "probe_of eperm w pid = (if pid \<in> lw_dead w then PidDead else if pid \<in> eperm then PidEperm else PidAlive)"

inductive lease_step ::
  "(string \<Rightarrow> string) \<Rightarrow> nat set \<Rightarrow> string \<Rightarrow> string \<Rightarrow> string \<Rightarrow> lease_world \<Rightarrow> lease_world \<Rightarrow> bool"
  for hash eperm hroot sid
where
  acquire: "acquireLease hash id (probe_of eperm w) (lw_now w) token (lw_fs w) hroot sid opts = Inr (fs', l, tk)
    \<Longrightarrow> lease_step hash eperm hroot sid (ao_ownerId opts) w (w\<lparr>lw_fs := fs'\<rparr>)"
| beat: "heartbeat (lw_fs w) hroot sid a ttl (lw_now w) = Inr (fs', l)
    \<Longrightarrow> lease_step hash eperm hroot sid a w (w\<lparr>lw_fs := fs'\<rparr>)"
| release: "releaseLease (lw_fs w) hroot sid a = Inr fs'
    \<Longrightarrow> lease_step hash eperm hroot sid a w (w\<lparr>lw_fs := fs'\<rparr>)"
| reap: "reapDeadOwnerArtifacts cwd ctlSock (probe_of eperm w) (lw_now w) (lw_fs w) hroot sid o' e' = Inr (fs', b)
    \<Longrightarrow> lease_step hash eperm hroot sid a w (w\<lparr>lw_fs := fs'\<rparr>)"
| tick: "lw_now w \<le> t \<Longrightarrow> lease_step hash eperm hroot sid a w (w\<lparr>lw_now := t\<rparr>)"
| die: "lease_step hash eperm hroot sid a w (w\<lparr>lw_dead := insert pid (lw_dead w)\<rparr>)"

text \<open>The lease the session file holds.\<close>

definition held :: "string \<Rightarrow> string \<Rightarrow> lease_world \<Rightarrow> session_lease option" where
  "held hroot sid w = (case sessionPaths hroot sid of Inl _ \<Rightarrow> None | Inr p \<Rightarrow> readLease (lw_fs w) p)"

lemma held_write: "sessionPaths hroot sid = Inr p \<Longrightarrow> held hroot sid (w\<lparr>lw_fs := writeLeaseAtomic p l fs\<rparr>) = Some l"
  by (simp add: held_def readLease_def writeLeaseAtomic_def js_simps)

lemma held_remove: "sessionPaths hroot sid = Inr p \<Longrightarrow> held hroot sid (w\<lparr>lw_fs := (removeLease p fs)\<lparr>lf_sockets := s\<rparr>\<rparr>) = None"
  "sessionPaths hroot sid = Inr p \<Longrightarrow> held hroot sid (w\<lparr>lw_fs := removeLease p fs\<rparr>) = None"
  by (simp_all add: held_def readLease_def removeLease_def js_simps)

lemma held_update [simp]:
  "held hroot sid (w\<lparr>lw_now := t\<rparr>) = held hroot sid w" "held hroot sid (w\<lparr>lw_dead := d\<rparr>) = held hroot sid w"
  "held hroot sid (w\<lparr>lw_fs := lw_fs w\<rparr>) = held hroot sid w"
  by (simp_all add: held_def split: sum.split)

text \<open>What one step does to the lease: nothing, an acquisition, a heartbeat of the holder, a release by the holder, or
  the removal of a dead holder's lease.\<close>

lemma lease_step_held:
  assumes "lease_step hash eperm hroot sid a w w'"
  obtains (same) "held hroot sid w' = held hroot sid w"
  | (acquired) opts token where "a = ao_ownerId opts"
      "may_take_over (held hroot sid w) (held hroot sid w) a (lw_now w) (probe_of eperm w)"
      "held hroot sid w' = Some (new_lease hash sid opts (held hroot sid w) token (lw_now w))"
  | (beaten) l ttl where "held hroot sid w = Some l" "l_ownerId l = a"
      "held hroot sid w' = Some (l\<lparr>l_heartbeatAt := lw_now w, l_expiresAt := lw_now w + ttl\<rparr>)"
  | (released) l where "held hroot sid w = Some l" "l_ownerId l = a" "held hroot sid w' = None"
  | (reaped) l where "held hroot sid w = Some l" "l_pid l \<in> lw_dead w" "held hroot sid w' = None"
  using assms
proof cases
  case (acquire token opts fs' l tk)
  then obtain p where p: "sessionPaths hroot sid = Inr p" by (auto simp: acquireLease_def split: sum.splits)
  have h: "held hroot sid w = readLease (lw_fs w) p" by (simp add: held_def p)
  from acquire(3) p h have "may_take_over (held hroot sid w) (held hroot sid w) a (lw_now w) (probe_of eperm w)"
    "fs' = writeLeaseAtomic p (new_lease hash sid opts (held hroot sid w) token (lw_now w)) (lw_fs w)"
    by (auto simp: acquireLease_def Let_def acquire(1) split: if_splits)
  with acquire(1,2) that(2) show ?thesis by (simp add: held_write [OF p])
next
  case (beat ttl fs' l)
  then obtain p where p: "sessionPaths hroot sid = Inr p" by (auto simp: heartbeat_def split: sum.splits)
  have h: "held hroot sid w = readLease (lw_fs w) p" by (simp add: held_def p)
  obtain l0 where "held hroot sid w = Some l0" "l_ownerId l0 = a"
    "fs' = writeLeaseAtomic p (l0\<lparr>l_heartbeatAt := lw_now w, l_expiresAt := lw_now w + ttl\<rparr>) (lw_fs w)"
    using beat(2) p h by (auto simp: heartbeat_def Let_def split: option.splits if_splits)
  with beat(1) that(3) show ?thesis by (simp add: held_write [OF p])
next
  case (release fs')
  then obtain p where p: "sessionPaths hroot sid = Inr p" by (auto simp: releaseLease_def split: sum.splits)
  have h: "held hroot sid w = readLease (lw_fs w) p" by (simp add: held_def p)
  consider "held hroot sid w = None" "fs' = lw_fs w" | l where "held hroot sid w = Some l" "l_ownerId l = a" "fs' = removeLease p (lw_fs w)"
    using release(2) p h by (auto simp: releaseLease_def split: option.splits if_splits)
  then show ?thesis by cases (use release(1) that(1,4) held_remove [OF p] in auto)
next
  case (reap cwd ctlSock o' e' fs' b)
  then obtain p where p: "sessionPaths hroot sid = Inr p" by (auto simp: reapDeadOwnerArtifacts_def split: sum.splits)
  have h: "held hroot sid w = readLease (lw_fs w) p" by (simp add: held_def p)
  consider "fs' = lw_fs w"
    | l s where "held hroot sid w = Some l" "l_pid l \<in> lw_dead w" "fs' = (removeLease p (lw_fs w))\<lparr>lf_sockets := s\<rparr>"
    using reap(2) p h
    by (auto simp: reapDeadOwnerArtifacts_def Let_def classifyLeaseStatus_def probe_of_def split: option.splits if_splits)
  then show ?thesis by cases (use reap(1) that(1,5) held_remove [OF p] in auto)
qed (use that(1) in auto)

lemma lease_step_dead: "lease_step hash eperm hroot sid a w w' \<Longrightarrow> lw_dead w \<subseteq> lw_dead w'"
  by (cases rule: lease_step.cases) auto

lemma takeover_of_live: "may_take_over (Some l) r a now (probe_of eperm w) \<Longrightarrow> l_pid l \<notin> lw_dead w \<Longrightarrow> l_ownerId l = a"
  by (auto simp: may_take_over_def classifyLeaseStatus_def probe_of_def split: if_splits)

section \<open>Properties of leases\<close>



text \<open>Acquisition: with the lock held, a safe session id is acquired exactly when there is no lease, the caller
  already owns it, or its process is dead; every other case fails closed with \<^verbatim>\<open>lease_held\<close>. The new lease
  names the caller as single writer under the old epoch (same owner) or the next one, and nobody else can
  write events under it.\<close>

theorem acquire_spec:
  "acquireLease hash id probe now token fs hroot sid opts =
     (case sessionPaths hroot sid of
        Inl e \<Rightarrow> Inl (LeasePathError e)
      | Inr p \<Rightarrow>
          (let lease = new_lease hash sid opts (readLease fs p) token now in
           if (case readLease fs p of None \<Rightarrow> True | Some l \<Rightarrow> l_ownerId l = ao_ownerId opts \<or> probe (l_pid l) = PidDead)
           then Inr (writeLeaseAtomic p lease fs, lease, token) else Inl (lease_held sid)))
   \<and> l_writer (new_lease hash sid opts old token now) = (ao_ownerId opts, l_leaseEpoch (new_lease hash sid opts old token now))
   \<and> (canWriteEvents (new_lease hash sid opts old token now) b t \<longleftrightarrow> b = ao_ownerId opts \<and> t < now + ao_ttlMs opts)
   \<and> l_leaseEpoch (new_lease hash sid opts old token now)
       = (case old of None \<Rightarrow> 1 | Some l \<Rightarrow> if l_ownerId l = ao_ownerId opts then l_leaseEpoch l else l_leaseEpoch l + 1)"
proof -
  have "may_take_over x x (ao_ownerId opts) now probe
      = (case x of None \<Rightarrow> True | Some l \<Rightarrow> l_ownerId l = ao_ownerId opts \<or> probe (l_pid l) = PidDead)" for x
    by (auto simp: may_take_over_def classifyLeaseStatus_def split: option.split pid_status.splits)
  then show ?thesis
    by (auto simp: acquireLease_def Let_def new_lease_def canWriteEvents_def isExpired_def
        split: sum.split option.split)
qed

text \<open>An expired lease whose process is alive blocks every other owner, although nobody can write events.\<close>

theorem expired_alive_blocks:
  assumes "sessionPaths hroot sid = Inr p" "readLease fs p = Some l" "l_ownerId l \<noteq> ao_ownerId opts"
    and "probe (l_pid l) = PidAlive" "l_expiresAt l \<le> now"
  shows "isStale l now probe \<and> \<not> canWriteEvents l b now
    \<and> acquireLease hash between probe now token fs hroot sid opts = Inl (lease_held sid)"
  using assms by (simp add: isStale_def isExpired_def canWriteEvents_def acquireLease_def may_take_over_def
      classifyLeaseStatus_def Let_def)

text \<open>A second writer that slips past the lock between the two reads makes the acquisition fail closed.\<close>

lemma takeover_detects_interference:
  assumes "sessionPaths hroot sid = Inr p" "readLease fs p = Some l" "l_ownerId l \<noteq> ao_ownerId opts"
    and "readLease (between fs) p = Some l'" "l_leaseEpoch l' \<noteq> l_leaseEpoch l"
  shows "acquireLease hash between probe now token fs hroot sid opts = Inl (lease_held sid)"
  using assms by (simp add: acquireLease_def may_take_over_def Let_def)

section \<open>A concrete run\<close>

definition lease_opts :: "string \<Rightarrow> nat \<Rightarrow> acquire_options" where
  "lease_opts a pid = \<lparr>ao_ownerId = a, ao_pid = pid, ao_endpoint = None, ao_eventsPath = ''e'', ao_ttlMs = 1000\<rparr>"

text \<open>The world in which the session file holds one given lease at time \<open>t\<close>, with dead processes \<open>d\<close>.\<close>

definition with_lease :: "session_lease \<Rightarrow> int \<Rightarrow> nat set \<Rightarrow> lease_world" where
  "with_lease l t d = (case sessionPaths ''/r'' ''s'' of
      Inr p \<Rightarrow> \<lparr>lw_fs = writeLeaseAtomic p l \<lparr>lf_leases = [], lf_sockets = []\<rparr>, lw_now = t, lw_dead = d\<rparr>
    | Inl _ \<Rightarrow> \<lparr>lw_fs = \<lparr>lf_leases = [], lf_sockets = []\<rparr>, lw_now = t, lw_dead = d\<rparr>)"

definition first_lease :: session_lease where
  "first_lease = new_lease id ''s'' (lease_opts ''a'' 1) None ''t'' 0"

lemma safe_s: "SESSION_ID_RE ''s''"
  by (simp add: SESSION_ID_RE_def alnum_char_def word_char_def)

lemma sessionPaths_s: "\<exists>p. sessionPaths ''/r'' ''s'' = Inr p"
  using safe_s by (simp add: sessionPaths_def assertSafeSessionId_def Let_def)

lemma held_with_lease: "held ''/r'' ''s'' (with_lease l t d) = Some l"
  using sessionPaths_s by (auto simp: with_lease_def held_def readLease_def writeLeaseAtomic_def)

lemma first_lease_simps [simp]: "l_ownerId first_lease = ''a''" "l_pid first_lease = 1" "l_leaseEpoch first_lease = 1"
  by (simp_all add: first_lease_def new_lease_def lease_opts_def Let_def)


definition second_lease :: session_lease where
  "second_lease = new_lease id ''s'' (lease_opts ''b'' 2) (Some first_lease) ''u'' 9"

lemma takeover_step: "lease_step id {} ''/r'' ''s'' ''b'' (with_lease first_lease 9 {1}) (with_lease second_lease 9 {1})"
proof -
  obtain p where p: "sessionPaths ''/r'' ''s'' = Inr p" using sessionPaths_s by blast
  let ?w = "with_lease first_lease 9 {1}"
  have "acquireLease id id (probe_of {} ?w) (lw_now ?w) ''u'' (lw_fs ?w) ''/r'' ''s'' (lease_opts ''b'' 2)
      = Inr (lw_fs (with_lease second_lease 9 {1}), second_lease, ''u'')"
    by (simp add: acquireLease_def p with_lease_def may_take_over_def readLease_def writeLeaseAtomic_def Let_def
        classifyLeaseStatus_def probe_of_def second_lease_def)
  then have "lease_step id {} ''/r'' ''s'' (ao_ownerId (lease_opts ''b'' 2)) ?w (?w\<lparr>lw_fs := lw_fs (with_lease second_lease 9 {1})\<rparr>)"
    by (rule acquire)
  then show ?thesis by (simp add: p with_lease_def lease_opts_def)
qed


end
