(* ===== verification/Agent_Wire.thy ===== *)
theory Agent_Wire
  imports Harness_Receipts
begin

text \<open>
  The agent wire protocol as the harness sees it: \<^verbatim>\<open>modes/shared/agent-wire/event-observation.ts\<close>, which maps a wire frame
  to the bounded observation an owner may persist, and \<^verbatim>\<open>event-envelope.ts\<close>, which numbers the frames of a session and
  compacts streaming message updates.

  Frames and events are values of \<open>jv\<close>: an owner receives them unchecked, so every field is read as a value of
  unknown type. The exception of \<^verbatim>\<open>event.message.details\<close> on an event without a message is the \<open>Inl\<close> of
  \<open>observeAgentSessionEvent\<close>.
\<close>

section \<open>Reading fields\<close>

(* coding-agent/src/modes/shared/agent-wire/event-observation.ts:42-44 str *)
definition str :: "jv \<Rightarrow> string option" where
  "str v = (case v of JStr s \<Rightarrow> Some s | _ \<Rightarrow> None)"

(* coding-agent/src/modes/shared/agent-wire/event-observation.ts:45-47 num *)
definition num_field :: "jv \<Rightarrow> jv" where
  "num_field v = (if is_number v then v else JNull)"

text \<open>\<^verbatim>\<open>str(v) ?? null\<close>.\<close>

abbreviation str_field :: "jv \<Rightarrow> jv" where
  "str_field v \<equiv> str_or_null (str v)"

(* coding-agent/src/modes/shared/agent-wire/event-observation.ts:19-33 TOOL_STATUS_CODES *)
definition TOOL_STATUS_CODES :: "string list" where
  "TOOL_STATUS_CODES = [''aborted'', ''blocked'', ''cancelled'', ''complete'', ''completed'', ''error'', ''failed'', ''ok'',
     ''pending'', ''running'', ''skipped'', ''success'', ''timeout'']"

(* coding-agent/src/modes/shared/agent-wire/event-observation.ts:18-18 TEST_RE *)
definition TEST_COMMANDS :: "string list" where
  "TEST_COMMANDS = [''bun test'', ''npm test'', ''yarn test'', ''pnpm test'', ''jest'', ''vitest'', ''pytest'', ''go test'',
     ''cargo test'', ''mocha'', ''ava'']"

(* coding-agent/src/modes/shared/agent-wire/event-observation.ts:35-41 isTestRunnerTool *)
definition isTestRunnerTool :: "jv \<Rightarrow> string option \<Rightarrow> bool" where
  "isTestRunnerTool toolName command =
     (let name = (case str toolName of None \<Rightarrow> [] | Some s \<Rightarrow> s);
          cmd = (case command of None \<Rightarrow> [] | Some s \<Rightarrow> s)
      in mentions ''test'' name \<and> name \<noteq> ''edit'' \<and> name \<noteq> ''read'' \<or> list_ex (\<lambda>w. whole_word False w cmd) TEST_COMMANDS)"

(* coding-agent/src/modes/shared/agent-wire/event-observation.ts:48-53 boundedStatus *)
definition boundedStatus :: "jv \<Rightarrow> string option" where
  "boundedStatus v =
     (case str v of
        None \<Rightarrow> None
      | Some s \<Rightarrow> let status = map lower_char (trim s) in if status \<in> set TOOL_STATUS_CODES then Some status else None)"

(* coding-agent/src/modes/shared/agent-wire/event-observation.ts:54-58 boundedToken *)
definition boundedToken :: "jv \<Rightarrow> string option" where
  "boundedToken v =
     (case str v of
        Some (c # s) \<Rightarrow>
          if word_char c \<and> \<not> digit_char c \<and> c \<noteq> CHR ''_'' \<and> length s \<le> 63 \<and> list_all word_char s then Some (c # s) else None
      | _ \<Rightarrow> None)"

(* coding-agent/src/modes/shared/agent-wire/event-observation.ts:59-61 recordObject *)
definition recordObject :: "jv \<Rightarrow> jv" where
  "recordObject v = (if is_plain_object v then v else JUndef)"

(* coding-agent/src/modes/shared/agent-wire/event-observation.ts:62-65 idOf *)
definition idOf :: "jv \<Rightarrow> string option" where
  "idOf v = str (get_opt (recordObject v) ''id'')"

(* coding-agent/src/modes/shared/agent-wire/event-observation.ts:66-71 toolCommand *)
definition toolCommand :: "jv \<Rightarrow> string option" where
  "toolCommand args =
     (let r = recordObject args
      in str (coalesce (get_opt r ''command'') (coalesce (get_opt r ''cmd'') (get_opt r ''commandLine''))))"

(* coding-agent/src/modes/shared/agent-wire/event-observation.ts:72-79 resultStatus *)
definition resultStatus :: "jv \<Rightarrow> jv \<Rightarrow> string option" where
  "resultStatus result isError =
     (if isError = JBool True then Some ''error''
      else if \<not> is_plain_object result then None
      else if get result ''isError'' = JBool True then Some ''error''
      else case boundedStatus (get result ''status'') of
             Some s \<Rightarrow> Some s
           | None \<Rightarrow> boundedStatus (get_opt (recordObject (get result ''details'')) ''status''))"

section \<open>Observations\<close>

datatype observed_from = EventType string | FrameType string

(* coding-agent/src/modes/shared/agent-wire/event-contract.ts:117-134 AgentWireOwnerObservation *)
record owner_observation =
  wo_source :: observed_from
  wo_kind :: string
  wo_signal :: "string option"
  wo_evidence :: "(string \<times> jv) list"
  wo_severity :: severity
  wo_semantic :: bool
  wo_coalesceKey :: "string option"

(* coding-agent/src/modes/shared/agent-wire/event-observation.ts:81-86 obs *)
definition obs ::
  "string \<Rightarrow> string \<Rightarrow> string option \<Rightarrow> (string \<times> jv) list \<Rightarrow> severity \<Rightarrow> bool \<Rightarrow> string option \<Rightarrow> (string, owner_observation option) outcome"
where
  "obs type kind signal evidence severity semantic key =
     Inr (Some \<lparr>wo_source = EventType type, wo_kind = kind, wo_signal = signal, wo_evidence = evidence,
       wo_severity = severity, wo_semantic = semantic, wo_coalesceKey = key\<rparr>)"

(* coding-agent/src/modes/shared/agent-wire/event-observation.ts:133-171 observeAgentSessionEvent *)
definition observe_tool :: "string \<Rightarrow> jv \<Rightarrow> (string, owner_observation option) outcome" where
  "observe_tool type event =
     (let toolId = (''toolId'', str_field (get event ''toolCallId''));
          toolName = (''toolName'', str_field (get event ''toolName''));
          test = isTestRunnerTool (get event ''toolName'') (toolCommand (get event ''args''))
      in if type = ''tool_execution_start'' then
           obs type ''rpc_tool_started'' (Some (if test then ''test-running'' else ''tool-call'')) [toolId, toolName] Info True None
         else if type = ''tool_execution_update'' then
           obs type ''rpc_tool_updated'' (if test then Some ''test-running'' else None)
             [toolId, (''status'', str_or_null (resultStatus (get event ''partialResult'') JUndef))] Info False
             (Some (''tool:'' @ (case str (get event ''toolCallId'') of None \<Rightarrow> ''tool'' | Some s \<Rightarrow> s)))
         else
           let status = resultStatus (get event ''result'') (get event ''isError'')
           in obs type ''rpc_tool_ended'' (Some (if isTestRunnerTool (get event ''toolName'') None then ''test-running'' else ''tool-call''))
                [toolId, toolName, (''status'', str_or_null status)] (if status = Some ''error'' then Warn else Info) True None)"

(* coding-agent/src/modes/shared/agent-wire/event-observation.ts:200-218 observeAgentSessionEvent *)
definition fallback_evidence :: "jv \<Rightarrow> (string \<times> jv) list" where
  "fallback_evidence event =
     map (\<lambda>k. (k, str_field (get event k))) [''eventId'', ''from'', ''to'', ''reason'', ''role'', ''scope'']
   @ map (\<lambda>k. (k, num_field (get event k))) [''activeIndex'', ''chainLength'', ''attemptsUsed'']"

text \<open>\<^verbatim>\<open>Array.isArray(v) ? v.length : 0\<close>.\<close>

definition array_length :: "jv \<Rightarrow> jv" where
  "array_length v = (case v of JArr xs \<Rightarrow> JNum (of_nat (length xs)) | _ \<Rightarrow> JNum 0)"

(* coding-agent/src/modes/shared/agent-wire/event-observation.ts:88-309 observeAgentSessionEvent *)
definition observeAgentSessionEvent :: "jv \<Rightarrow> (string, owner_observation option) outcome" where
  "observeAgentSessionEvent event =
     (case get event ''type'' of
        JStr type \<Rightarrow>
          if type = ''agent_start'' then obs type ''rpc_agent_started'' (Some ''SessionStart'') [] Info True None
          else if type = ''turn_start'' then obs type ''rpc_turn_started'' (Some ''prompt-accepted'') [] Info True None
          else if type = ''turn_end'' then obs type ''rpc_turn_ended'' None [] Info False None
          else if type \<in> {''message_start'', ''message_update'', ''message_end''} then
            (let messageId = idOf (get event ''message'')
             in obs type ''rpc_message_activity'' None [(''phase'', JStr type), (''messageId'', str_or_null messageId)] Info False
                  (Some (''message:'' @ (case messageId of None \<Rightarrow> ''msg'' | Some i \<Rightarrow> i))))
          else if type \<in> {''tool_execution_start'', ''tool_execution_update'', ''tool_execution_end''} then observe_tool type event
          else if type \<in> {''auto_compaction_start'', ''auto_compaction_end''} then
            obs type ''rpc_compaction'' None [(''phase'', JStr type)] Info False None
          else if type = ''auto_retry_start'' then
            obs type ''rpc_retry'' None [(''phase'', JStr type), (''attempt'', num_field (get event ''attempt''))] Warn False None
          else if type = ''auto_retry_end'' then
            obs type ''rpc_retry'' None [(''phase'', JStr type), (''success'', JBool (get event ''success'' = JBool True))] Warn False None
          else if type = ''model_fallback_switched'' then
            obs type ''rpc_model_fallback_switched'' None (fallback_evidence event) Info True None
          else if type = ''ttsr_triggered'' then
            obs type ''rpc_ttsr'' (Some ''error'') [(''ruleCount'', array_length (get event ''rules''))] Warn True None
          else if type \<in> {''todo_reminder'', ''todo_auto_clear''} then
            obs type ''rpc_todo'' None [(''phase'', JStr type)] Info False None
          else if type = ''irc_message'' then obs type ''rpc_irc'' None [] Info False None
          else if type = ''subagent_steer_message'' then
            (if nullish (get event ''message'') then Inl ''TypeError''
             else let details = recordObject (get (get event ''message'') ''details'')
                  in obs type ''rpc_subagent_steer'' None
                       (map (\<lambda>k. (k, str_field (get_opt details k))) [''from'', ''to'', ''state'', ''observationId'']) Info False None)
          else if type = ''notice'' then
            (let level = get event ''level''
             in obs type ''rpc_notice'' (if level = JStr ''error'' then Some ''error'' else None) [(''level'', level)]
                  (if level = JStr ''info'' then Info else Warn) (level = JStr ''error'') None)
          else if type = ''thinking_level_changed'' then
            obs type ''rpc_thinking'' None [(''thinkingLevel'', str_field (get event ''thinkingLevel''))] Info False None
          else if type = ''goal_updated'' then
            obs type ''rpc_goal'' None [(''hasGoal'', JBool (\<not> nullish (get event ''goal'')))] Info False None
          else if type = ''agent_end'' then
            obs type ''rpc_agent_completed'' (Some ''completed'')
              [(''stopReason'', JStr (case str (get event ''stopReason'') of None \<Rightarrow> ''completed'' | Some s \<Rightarrow> s))] Info True None
          else Inr None
      | _ \<Rightarrow> Inr None)"

(* coding-agent/src/modes/shared/agent-wire/event-observation.ts:319-324 ownerFrame *)
definition ownerFrame ::
  "string \<Rightarrow> string \<Rightarrow> string option \<Rightarrow> (string \<times> jv) list \<Rightarrow> severity \<Rightarrow> bool \<Rightarrow> (string, owner_observation option) outcome"
where
  "ownerFrame type kind signal evidence severity semantic =
     Inr (Some \<lparr>wo_source = FrameType type, wo_kind = kind, wo_signal = signal, wo_evidence = evidence,
       wo_severity = severity, wo_semantic = semantic, wo_coalesceKey = None\<rparr>)"

(* coding-agent/src/modes/shared/agent-wire/event-observation.ts:326-422 observeAgentWireFrame *)
definition observeAgentWireFrame :: "jv \<Rightarrow> (string, owner_observation option) outcome" where
  "observeAgentWireFrame frame =
     (case get frame ''type'' of
        JStr type \<Rightarrow>
          if type = [] \<or> type = ''ready'' then Inr None
          else if type = ''response'' then
            (if get frame ''success'' = JBool False
             then ownerFrame type ''rpc_response_failed'' (Some ''error'')
                    [(''command'', str_or_null (boundedToken (get frame ''command''))),
                     (''id'', str_or_null (boundedToken (get frame ''id''))),
                     (''code'', str_or_null (boundedToken (get_opt (recordObject (get frame ''error'')) ''code'')))] Warn False
             else Inr None)
          else if type = ''event'' then
            (let event = recordObject (get_opt (recordObject (get frame ''payload'')) ''event'')
             in if event = JUndef then Inr None else observeAgentSessionEvent event)
          else if type = ''workflow_gate'' then
            ownerFrame type ''rpc_workflow_gate'' None
              (map (\<lambda>k. (k, str_field (get frame k))) [''gate_id'', ''kind'', ''stage'']) Info True
          else if type = ''extension_ui_request'' then
            ownerFrame type ''rpc_extension_request'' (Some ''tool-call'')
              (map (\<lambda>k. (k, str_field (get frame k))) [''id'', ''method'']) Info False
          else if type = ''extension_error'' then
            ownerFrame type ''rpc_extension_error'' (Some ''error'')
              [(''extensionPath'', str_field (get frame ''extensionPath'')), (''event'', str_or_null (boundedToken (get frame ''event'')))]
              Critical True
          else if type \<in> {''host_tool_call'', ''host_tool_cancel''} then
            ownerFrame type (if type = ''host_tool_cancel'' then ''rpc_host_tool_cancel'' else ''rpc_host_tool_call'') (Some ''tool-call'')
              (map (\<lambda>k. (k, str_field (get frame k))) [''id'', ''toolName'']) Info False
          else if type \<in> {''host_uri_request'', ''host_uri_cancel''} then
            ownerFrame type (if type = ''host_uri_cancel'' then ''rpc_host_uri_cancel'' else ''rpc_host_uri_request'') (Some ''tool-call'')
              (map (\<lambda>k. (k, str_field (get frame k))) [''id'', ''operation'', ''scheme'']) Info False
          else Inr None
      | _ \<Rightarrow> Inr None)"

section \<open>Frames\<close>

(* coding-agent/src/modes/shared/agent-wire/event-contract.ts:33-62 AGENT_SESSION_EVENT_TYPE_REGISTRY *)
definition AGENT_WIRE_EVENT_TYPES :: "string list" where
  "AGENT_WIRE_EVENT_TYPES = [''agent_start'', ''agent_end'', ''turn_start'', ''turn_end'', ''message_start'', ''message_update'',
     ''message_end'', ''tool_execution_start'', ''tool_execution_update'', ''tool_execution_end'', ''auto_compaction_start'',
     ''auto_compaction_end'', ''auto_retry_start'', ''auto_retry_end'', ''ttsr_triggered'', ''todo_reminder'', ''todo_auto_clear'',
     ''irc_message'', ''subagent_steer_message'', ''notice'', ''model_fallback_switched'', ''thinking_level_changed'', ''goal_updated'']"

text \<open>An unknown event variant, and a spread of null or undefined.\<close>

datatype wire_error = UnhandledVariant jv | WireTypeError

(* coding-agent/src/modes/shared/agent-wire/event-envelope.ts:45-83 agentSessionEventType *)
definition agentSessionEventType :: "jv \<Rightarrow> (wire_error, string) outcome" where
  "agentSessionEventType event =
     (case str (get event ''type'') of
        Some t \<Rightarrow> if t \<in> set AGENT_WIRE_EVENT_TYPES then Inr t else Inl (UnhandledVariant event)
      | None \<Rightarrow> Inl (UnhandledVariant event))"

(* coding-agent/src/modes/shared/agent-wire/event-contract.ts:154-165 AgentWireFrameEnvelope *)
record wire_frame =
  wf_protocol_version :: nat
  wf_session_id :: string
  wf_seq :: nat
  wf_frame_id :: string
  wf_correlation_id :: "string option"
  wf_type :: string
  wf_payload :: jv

(* coding-agent/src/modes/shared/agent-wire/event-envelope.ts:89-105 AgentWireFrameSequencer *)
record sequencer =
  sq_sessionId :: string
  sq_seq :: nat

text \<open>\<open>uuid\<close> is \<^verbatim>\<open>randomUUID\<close>, by the number of the frame.\<close>

(* coding-agent/src/modes/shared/agent-wire/event-envelope.ts:107-126 next *)
definition next_frame :: "(nat \<Rightarrow> string) \<Rightarrow> string \<Rightarrow> jv \<Rightarrow> string option \<Rightarrow> sequencer \<Rightarrow> sequencer \<times> wire_frame" where
  "next_frame uuid type payload correlationId sq =
     (let n = sq_seq sq + 1
      in (sq\<lparr>sq_seq := n\<rparr>, \<lparr>wf_protocol_version = 2, wf_session_id = sq_sessionId sq, wf_seq = n, wf_frame_id = uuid n,
            wf_correlation_id = correlationId, wf_type = type, wf_payload = payload\<rparr>))"

(* coding-agent/src/modes/shared/agent-wire/event-envelope.ts:140-143 toAgentWireEventPayload *)
definition event_payload :: "string \<Rightarrow> jv \<Rightarrow> jv" where
  "event_payload type event = JObj [(''event_type'', JStr type), (''event'', event)]"

(* coding-agent/src/modes/shared/agent-wire/event-envelope.ts:129-138 toAgentWireEventFrame *)
definition toAgentWireEventFrame :: "(nat \<Rightarrow> string) \<Rightarrow> jv \<Rightarrow> sequencer \<Rightarrow> sequencer \<times> (wire_error + wire_frame)" where
  "toAgentWireEventFrame uuid event sq =
     (case agentSessionEventType event of
        Inl e \<Rightarrow> (sq, Inl e)
      | Inr t \<Rightarrow> map_prod id Inr (next_frame uuid ''event'' (event_payload t event) None sq))"

(* coding-agent/src/modes/shared/agent-wire/event-envelope.ts:204-215 toAgentWireWorkflowGateFrame *)
definition toAgentWireWorkflowGateFrame :: "(nat \<Rightarrow> string) \<Rightarrow> string \<Rightarrow> jv \<Rightarrow> sequencer \<Rightarrow> sequencer \<times> wire_frame" where
  "toAgentWireWorkflowGateFrame uuid gate_id gate sq = next_frame uuid ''workflow_gate'' gate (Some gate_id) sq"

text \<open>The own enumerable properties an object spread copies; \<open>None\<close> where it throws.\<close>

fun own_entries :: "jv \<Rightarrow> (string \<times> jv) list option" where
  "own_entries JUndef = None"
| "own_entries JNull = None"
| "own_entries (JObj m) = Some m"
| "own_entries (JArr xs) = Some (zip (map dec_string [0..<length xs]) xs)"
| "own_entries (JStr s) = Some (zip (map dec_string [0..<length s]) (map (\<lambda>c. JStr [c]) s))"
| "own_entries _ = Some []"

(* coding-agent/src/modes/shared/agent-wire/event-envelope.ts:144-154 sanitizeAssistantMessageEventForCompact *)
definition sanitizeAssistantMessageEventForCompact :: "jv \<Rightarrow> jv option" where
  "sanitizeAssistantMessageEventForCompact v =
     map_option (\<lambda>m. JObj (filter (\<lambda>(k, _). k \<notin> {''partial'', ''message'', ''error''}) m)) (own_entries v)"

(* coding-agent/src/modes/shared/agent-wire/event-envelope.ts:36-39 contentIndexOf *)
definition contentIndexOf :: "jv \<Rightarrow> jv" where
  "contentIndexOf v =
     (case get_opt (recordObject v) ''contentIndex'' of
        JNum r \<Rightarrow> if of_int \<lfloor>r\<rfloor> = r then JNum r else JNull
      | _ \<Rightarrow> JNull)"

(* coding-agent/src/modes/shared/agent-wire/event-envelope.ts:169-177 AgentWireCompactEventEncoder *)
record compact_encoder =
  en_sequencer :: sequencer
  en_checkpointInterval :: int
  en_messageUpdateCount :: nat

(* coding-agent/src/modes/shared/agent-wire/event-envelope.ts:182-192 frame *)
definition compact_payload :: "jv \<Rightarrow> jv \<Rightarrow> bool \<Rightarrow> jv" where
  "compact_payload event delta checkpoint =
     JObj ([(''event_type'', JStr ''message_update''), (''compact'', JBool True),
            (''message_id'', str_or_null (idOf (get event ''message''))),
            (''content_index'', contentIndexOf (get event ''assistantMessageEvent'')), (''assistantMessageEvent'', delta)]
           @ (if checkpoint then [(''checkpoint_message'', get event ''message''), (''checkpoint_reason'', JStr ''periodic'')] else []))"

definition checkpoint_due :: "int \<Rightarrow> nat \<Rightarrow> bool" where
  "checkpoint_due interval n \<longleftrightarrow> interval > 0 \<and> int n mod interval = 0"

(* coding-agent/src/modes/shared/agent-wire/event-envelope.ts:179-194 frame *)
definition encoder_frame :: "(nat \<Rightarrow> string) \<Rightarrow> jv \<Rightarrow> compact_encoder \<Rightarrow> compact_encoder \<times> (wire_error + wire_frame)" where
  "encoder_frame uuid event en =
     (if get event ''type'' \<noteq> JStr ''message_update''
      then (case toAgentWireEventFrame uuid event (en_sequencer en) of (sq, r) \<Rightarrow> (en\<lparr>en_sequencer := sq\<rparr>, r))
      else let n = en_messageUpdateCount en + 1; en1 = en\<lparr>en_messageUpdateCount := n\<rparr>
           in case sanitizeAssistantMessageEventForCompact (get event ''assistantMessageEvent'') of
                None \<Rightarrow> (en1, Inl WireTypeError)
              | Some delta \<Rightarrow>
                  (case next_frame uuid ''event'' (compact_payload event delta (checkpoint_due (en_checkpointInterval en) n)) None
                          (en_sequencer en) of
                     (sq, fr) \<Rightarrow> (en1\<lparr>en_sequencer := sq\<rparr>, Inr fr)))"

text \<open>The frames of a sequence of events, by one encoder.\<close>

fun encode_all :: "(nat \<Rightarrow> string) \<Rightarrow> jv list \<Rightarrow> compact_encoder \<Rightarrow> compact_encoder \<times> (wire_error + wire_frame) list" where
  "encode_all uuid [] en = (en, [])"
| "encode_all uuid (e # es) en =
     (case encoder_frame uuid e en of (en', r) \<Rightarrow> (case encode_all uuid es en' of (en'', rs) \<Rightarrow> (en'', r # rs)))"

definition new_encoder :: "string \<Rightarrow> int \<Rightarrow> compact_encoder" where
  "new_encoder sid interval =
     \<lparr>en_sequencer = \<lparr>sq_sessionId = sid, sq_seq = 0\<rparr>, en_checkpointInterval = interval, en_messageUpdateCount = 0\<rparr>"

section \<open>What an owner may persist\<close>

(* coding-agent/src/harness-control-plane/types.ts:187-197 OBSERVED_SIGNALS *)
definition OBSERVED_SIGNALS :: "string list" where
  "OBSERVED_SIGNALS = [''SessionStart'', ''prompt-accepted'', ''tool-call'', ''test-running'', ''commit-created'', ''completed'',
     ''error'', ''streaming'', ''idle'']"

text \<open>A field of a value by its path, the fields of an event and of a frame that evidence may repeat, and the closed
  vocabulary of codes.\<close>

definition at_path :: "jv \<Rightarrow> string list \<Rightarrow> jv" where
  "at_path v ks = foldl get v ks"

definition EVENT_PATHS :: "string list list" where
  "EVENT_PATHS = [[''toolCallId''], [''toolName''], [''message'', ''id''], [''eventId''], [''from''], [''to''], [''reason''], [''role''],
     [''scope''], [''thinkingLevel''], [''stopReason''], [''level''], [''message'', ''details'', ''from''],
     [''message'', ''details'', ''to''], [''message'', ''details'', ''state''], [''message'', ''details'', ''observationId'']]"

definition FRAME_PATHS :: "string list list" where
  "FRAME_PATHS = [[''command''], [''id''], [''error'', ''code''], [''gate_id''], [''kind''], [''stage''], [''method''],
     [''extensionPath''], [''event''], [''toolName''], [''operation''], [''scheme'']]"

definition CODES :: "string list" where
  "CODES = TOOL_STATUS_CODES @ AGENT_WIRE_EVENT_TYPES"

definition bounded_value :: "string list list \<Rightarrow> jv \<Rightarrow> jv \<Rightarrow> bool" where
  "bounded_value paths v x \<longleftrightarrow> x = JNull \<or> is_boolean x \<or> is_number x \<or> list_ex (\<lambda>c. x = JStr c) CODES
     \<or> list_ex (\<lambda>p. x = at_path v p \<and> (is_string x \<or> last p = ''level'')) paths"

definition wire_paths :: "string list list" where
  "wire_paths = FRAME_PATHS @ map (\<lambda>p. [''payload'', ''event''] @ p) EVENT_PATHS"

section \<open>Lemmas\<close>

lemma str_field_cases: "str_field v = JNull \<or> str_field v = v \<and> is_string v"
  by (cases v) (simp_all add: str_def str_or_null_def)

lemma str_SomeD: "str v = Some s \<Longrightarrow> v = JStr s"
  by (cases v) (simp_all add: str_def)

lemma bounded_simple [simp]:
  "bounded_value ps v JNull" "bounded_value ps v (JBool b)" "bounded_value ps v (JNum r)" "bounded_value ps v (num_field x)"
  by (simp_all add: bounded_value_def num_field_def)

lemma bounded_code: "c \<in> set CODES \<Longrightarrow> bounded_value ps v (JStr c)"
  by (auto simp: bounded_value_def list_ex_iff)

lemma bounded_str_field: "p \<in> set ps \<Longrightarrow> bounded_value ps v (str_field (at_path v p))"
  using str_field_cases [of "at_path v p"] by (auto simp: bounded_value_def list_ex_iff)

lemma bounded_path: "p \<in> set ps \<Longrightarrow> at_path v p = JStr s \<Longrightarrow> bounded_value ps v (JStr s)"
  unfolding bounded_value_def list_ex_iff by (metis is_string.simps(1))

lemma bounded_token: "p \<in> set ps \<Longrightarrow> bounded_value ps v (str_or_null (boundedToken (at_path v p)))"
  by (auto simp: boundedToken_def str_or_null_def dest!: str_SomeD intro: bounded_path split: option.splits list.splits)

lemma bounded_status: "bounded_value ps v (str_or_null (resultStatus r e))"
proof (cases "resultStatus r e")
  case (Some s)
  then have "s \<in> set TOOL_STATUS_CODES"
    by (auto simp: resultStatus_def boundedStatus_def Let_def TOOL_STATUS_CODES_def split: if_splits option.splits)
  then show ?thesis by (simp add: Some str_or_null_def bounded_code CODES_def)
qed (simp add: str_or_null_def)

lemma recordObject_simps: "get_opt (recordObject v) k = get v k"
  by (cases v) (simp_all add: recordObject_def get_opt_def nullish_def)

lemma wire_types_are_codes: "t \<in> set AGENT_WIRE_EVENT_TYPES \<Longrightarrow> bounded_value ps v (JStr t)"
  by (simp add: bounded_code CODES_def)

lemma event_paths:
  "[''toolCallId''] \<in> set EVENT_PATHS" "[''toolName''] \<in> set EVENT_PATHS"
  "[''message'', ''id''] \<in> set EVENT_PATHS" "[''eventId''] \<in> set EVENT_PATHS"
  "[''from''] \<in> set EVENT_PATHS" "[''to''] \<in> set EVENT_PATHS" "[''reason''] \<in> set EVENT_PATHS"
  "[''role''] \<in> set EVENT_PATHS" "[''scope''] \<in> set EVENT_PATHS" "[''thinkingLevel''] \<in> set EVENT_PATHS"
  "[''message'', ''details'', ''from''] \<in> set EVENT_PATHS"
  "[''message'', ''details'', ''to''] \<in> set EVENT_PATHS"
  "[''message'', ''details'', ''state''] \<in> set EVENT_PATHS"
  "[''message'', ''details'', ''observationId''] \<in> set EVENT_PATHS"
  by (simp_all add: EVENT_PATHS_def)

lemma frame_paths:
  "[''gate_id''] \<in> set FRAME_PATHS" "[''kind''] \<in> set FRAME_PATHS" "[''stage''] \<in> set FRAME_PATHS"
  "[''id''] \<in> set FRAME_PATHS" "[''method''] \<in> set FRAME_PATHS" "[''extensionPath''] \<in> set FRAME_PATHS"
  "[''toolName''] \<in> set FRAME_PATHS" "[''operation''] \<in> set FRAME_PATHS" "[''scheme''] \<in> set FRAME_PATHS"
  by (simp_all add: FRAME_PATHS_def)

lemma token_paths:
  "[''command''] \<in> set FRAME_PATHS" "[''id''] \<in> set FRAME_PATHS" "[''error'', ''code''] \<in> set FRAME_PATHS"
  "[''event''] \<in> set FRAME_PATHS"
  by (simp_all add: FRAME_PATHS_def)

lemmas event_fields = event_paths [THEN bounded_str_field, unfolded at_path_def foldl.simps]
lemmas frame_fields = frame_paths [THEN bounded_str_field, unfolded at_path_def foldl.simps]
  token_paths [THEN bounded_token, unfolded at_path_def foldl.simps]

lemma bounded_level: "bounded_value EVENT_PATHS v (get v ''level'')"
  by (simp add: bounded_value_def EVENT_PATHS_def at_path_def)

lemma bounded_stopReason: "bounded_value EVENT_PATHS v (JStr (case str (get v ''stopReason'') of None \<Rightarrow> ''completed'' | Some s \<Rightarrow> s))"
proof (cases "str (get v ''stopReason'')")
  case None
  then show ?thesis by (simp add: bounded_code CODES_def TOOL_STATUS_CODES_def)
next
  case (Some s)
  have "bounded_value EVENT_PATHS v (JStr s)"
    by (rule bounded_path [of "[''stopReason'']"]) (simp_all add: EVENT_PATHS_def at_path_def str_SomeD [OF Some])
  then show ?thesis by (simp add: Some)
qed

lemma bounded_array_length [simp]: "bounded_value ps v (array_length x)"
  by (simp add: array_length_def split: jv.splits)

text \<open>A result is good when every observation it holds is bounded and its signal in the vocabulary; the completion
  signal appears only under \<open>fin\<close>.\<close>

definition good_result :: "string list list \<Rightarrow> jv \<Rightarrow> bool \<Rightarrow> (string, owner_observation option) outcome \<Rightarrow> bool" where
  "good_result ps v fin r =
     (case r of
        Inr (Some ob) \<Rightarrow> list_all (\<lambda>(k, x). bounded_value ps v x) (wo_evidence ob)
          \<and> wo_signal ob \<in> insert None (Some ` set OBSERVED_SIGNALS) \<and> (wo_signal ob = Some ''completed'' \<longleftrightarrow> fin)
      | Inr None \<Rightarrow> \<not> fin
      | Inl _ \<Rightarrow> \<not> fin)"

lemma good_if: "(c \<Longrightarrow> good_result ps v f a) \<Longrightarrow> good_result ps v f b \<Longrightarrow> good_result ps v f (if c then a else b)"
  by simp

lemma good_leaf:
  "good_result ps v f (obs t k sig e sev sem key) \<longleftrightarrow> list_all (\<lambda>(k, x). bounded_value ps v x) e
     \<and> sig \<in> insert None (Some ` set OBSERVED_SIGNALS) \<and> (sig = Some ''completed'' \<longleftrightarrow> f)"
  "good_result ps v f (ownerFrame t k sig e sev sem) \<longleftrightarrow> list_all (\<lambda>(k, x). bounded_value ps v x) e
     \<and> sig \<in> insert None (Some ` set OBSERVED_SIGNALS) \<and> (sig = Some ''completed'' \<longleftrightarrow> f)"
  "good_result ps v f (Inr None) \<longleftrightarrow> \<not> f" "good_result ps v f (Inl x) \<longleftrightarrow> \<not> f"
  by (simp_all add: good_result_def obs_def ownerFrame_def)

lemma signal_vocabulary:
  "insert None (Some ` set OBSERVED_SIGNALS) = {None, Some ''SessionStart'', Some ''prompt-accepted'', Some ''tool-call'',
     Some ''test-running'', Some ''commit-created'', Some ''completed'', Some ''error'', Some ''streaming'', Some ''idle''}"
  by (simp add: OBSERVED_SIGNALS_def insert_commute)

lemma good_tool: "\<not> fin \<Longrightarrow> good_result EVENT_PATHS event fin (observe_tool type event)"
  unfolding observe_tool_def Let_def
  by (intro good_if) (simp_all add: good_leaf event_fields bounded_status signal_vocabulary)

lemma phase_codes:
  "''message_start'' \<in> set CODES" "''message_update'' \<in> set CODES" "''message_end'' \<in> set CODES"
  "''auto_compaction_start'' \<in> set CODES" "''auto_compaction_end'' \<in> set CODES" "''todo_reminder'' \<in> set CODES"
  "''todo_auto_clear'' \<in> set CODES" "''auto_retry_start'' \<in> set CODES" "''auto_retry_end'' \<in> set CODES"
  by (simp_all add: CODES_def AGENT_WIRE_EVENT_TYPES_def)

lemma phase_bounded:
  "type \<in> {''message_start'', ''message_update'', ''message_end''} \<Longrightarrow> bounded_value ps v (JStr type)"
  "type \<in> {''auto_compaction_start'', ''auto_compaction_end''} \<Longrightarrow> bounded_value ps v (JStr type)"
  "type \<in> {''todo_reminder'', ''todo_auto_clear''} \<Longrightarrow> bounded_value ps v (JStr type)"
  "type = ''auto_retry_start'' \<Longrightarrow> bounded_value ps v (JStr type)" "type = ''auto_retry_end'' \<Longrightarrow> bounded_value ps v (JStr type)"
  by (auto intro!: bounded_code phase_codes)

lemma good_event:
  "good_result EVENT_PATHS event (get event ''type'' = JStr ''agent_end'') (observeAgentSessionEvent event)"
proof (cases "get event ''type'' = JStr ''agent_end''")
  case True
  then show ?thesis by (simp add: observeAgentSessionEvent_def good_leaf bounded_stopReason signal_vocabulary)
next
  case False
  then have "good_result EVENT_PATHS event False (observeAgentSessionEvent event)"
  proof (cases "get event ''type''")
    case (JStr type)
    with False have ne: "type \<noteq> ''agent_end''" by simp
    show ?thesis
      unfolding observeAgentSessionEvent_def JStr jv.simps Let_def
      apply (intro good_if good_tool)
      apply (simp_all only: good_leaf recordObject_simps idOf_def phase_bounded list.pred_inject prod.case event_fields bounded_simple ne
         simp_thms list.map fallback_evidence_def append.simps list_all_append)
      apply (simp_all add: signal_vocabulary bounded_level)
      done
  qed (simp_all add: observeAgentSessionEvent_def good_leaf)
  then show ?thesis by (simp add: False)
qed

lemma at_path_append: "at_path v (p @ q) = at_path (at_path v p) q"
  by (simp add: at_path_def)

lemma good_nested:
  assumes "good_result EVENT_PATHS (at_path v [''payload'', ''event'']) fin r"
  shows "good_result wire_paths v fin r"
proof -
  have "bounded_value EVENT_PATHS (at_path v [''payload'', ''event'']) x \<Longrightarrow> bounded_value wire_paths v x" for x
    by (auto simp: bounded_value_def wire_paths_def list_ex_iff EVENT_PATHS_def at_path_append simp del: append.simps)
  with assms show ?thesis by (auto simp: good_result_def list_all_iff split: sum.splits option.splits)
qed

lemma frame_wire_fields:
  "p \<in> set FRAME_PATHS \<Longrightarrow> bounded_value wire_paths v (str_field (at_path v p))"
  "p \<in> set FRAME_PATHS \<Longrightarrow> bounded_value wire_paths v (str_or_null (boundedToken (at_path v p)))"
  by (rule bounded_str_field bounded_token, simp add: wire_paths_def)+

lemmas wire_fields = frame_paths [THEN frame_wire_fields(1), unfolded at_path_def foldl.simps]
  token_paths [THEN frame_wire_fields(2), unfolded at_path_def foldl.simps]

abbreviation agent_end_frame :: "jv \<Rightarrow> bool" where
  "agent_end_frame v \<equiv> get v ''type'' = JStr ''event'' \<and> at_path v [''payload'', ''event'', ''type''] = JStr ''agent_end''"

lemma good_event_frame:
  assumes "get v ''type'' = JStr ''event''"
  shows "good_result wire_paths v (agent_end_frame v) (observeAgentWireFrame v)"
proof -
  define ev where "ev = at_path v [''payload'', ''event'']"
  have e: "recordObject (get_opt (recordObject (get v ''payload'')) ''event'') = recordObject ev"
    by (simp add: recordObject_simps ev_def at_path_def)
  have fin: "agent_end_frame v \<longleftrightarrow> get ev ''type'' = JStr ''agent_end''"
    using assms by (simp add: ev_def at_path_def)
  have "good_result EVENT_PATHS ev (get ev ''type'' = JStr ''agent_end'') (if recordObject ev = JUndef then Inr None else observeAgentSessionEvent (recordObject ev))"
    using good_event [of ev] by (cases ev) (simp_all add: recordObject_def good_leaf)
  then have "good_result wire_paths v (agent_end_frame v) (if recordObject ev = JUndef then Inr None else observeAgentSessionEvent (recordObject ev))"
    unfolding fin by (intro good_nested) (simp only: ev_def)
  then show ?thesis by (simp add: observeAgentWireFrame_def assms e Let_def)
qed

lemma good_frame: "good_result wire_paths v (agent_end_frame v) (observeAgentWireFrame v)"
proof (cases "get v ''type'' = JStr ''event''")
  case True
  then show ?thesis by (rule good_event_frame)
next
  case False
  then have "good_result wire_paths v False (observeAgentWireFrame v)"
  proof (cases "get v ''type''")
    case (JStr type)
    with False have ne: "type \<noteq> ''event''" by simp
    show ?thesis
      unfolding observeAgentWireFrame_def JStr jv.simps Let_def
      apply (intro good_if)
      apply (simp_all only: good_leaf recordObject_simps list.pred_inject prod.case wire_fields simp_thms list.map ne if_False)
      apply (simp_all add: signal_vocabulary good_leaf ne)
      done
  qed (simp_all add: observeAgentWireFrame_def good_leaf)
  then show ?thesis by (simp add: False)
qed

text \<open>C25. What an owner may persist of a wire frame is bounded: whatever the frame holds, every evidence value of its
  observation is null, a boolean, a number, a code of the closed vocabulary, or one of the listed identifier and
  category fields of the frame or its event, so message text, deltas, tool arguments and tool results never
  reach the event log; the signal is one of the observed-signal vocabulary; and the completion signal is given
  for the end of the agent run and for nothing else.\<close>

theorem wire_observation_bounded:
  "case observeAgentWireFrame frame of
     Inr (Some ob) \<Rightarrow>
       list_all (\<lambda>(k, x). x = JNull \<or> is_boolean x \<or> is_number x \<or> list_ex (\<lambda>c. x = JStr c) CODES
         \<or> list_ex (\<lambda>p. x = at_path frame p \<and> (is_string x \<or> last p = ''level''))
              (FRAME_PATHS @ map (\<lambda>p. [''payload'', ''event''] @ p) EVENT_PATHS)) (wo_evidence ob)
       \<and> wo_signal ob \<in> insert None (Some ` set OBSERVED_SIGNALS)
       \<and> (wo_signal ob = Some ''completed'' \<longleftrightarrow> agent_end_frame frame)
   | _ \<Rightarrow> \<not> agent_end_frame frame"
  using good_frame [of frame] unfolding good_result_def bounded_value_def wire_paths_def
  by (simp split: sum.splits option.splits)

section \<open>Compact frames\<close>

text \<open>An event of the union the encoder is typed for, and the number of streaming updates among events.\<close>

definition is_update :: "jv \<Rightarrow> bool" where
  "is_update e \<longleftrightarrow> get e ''type'' = JStr ''message_update''"

definition wire_event :: "jv \<Rightarrow> bool" where
  "wire_event e \<longleftrightarrow> list_ex (\<lambda>t. get e ''type'' = JStr t) AGENT_WIRE_EVENT_TYPES
     \<and> (is_update e \<longrightarrow> is_plain_object (get e ''assistantMessageEvent''))"

definition updates :: "jv list \<Rightarrow> nat" where
  "updates es = length (filter is_update es)"

definition frame_of :: "(nat \<Rightarrow> string) \<Rightarrow> compact_encoder \<Rightarrow> jv \<Rightarrow> wire_frame" where
  "frame_of uuid en e = \<lparr>wf_protocol_version = 2, wf_session_id = sq_sessionId (en_sequencer en), wf_seq = sq_seq (en_sequencer en) + 1,
     wf_frame_id = uuid (sq_seq (en_sequencer en) + 1), wf_correlation_id = None, wf_type = ''event'',
     wf_payload = (if is_update e
        then compact_payload e (the (sanitizeAssistantMessageEventForCompact (get e ''assistantMessageEvent'')))
               (checkpoint_due (en_checkpointInterval en) (en_messageUpdateCount en + 1))
        else event_payload (the (str (get e ''type''))) e)\<rparr>"

definition after_event :: "jv \<Rightarrow> compact_encoder \<Rightarrow> compact_encoder" where
  "after_event e en = en\<lparr>en_sequencer := (en_sequencer en)\<lparr>sq_seq := sq_seq (en_sequencer en) + 1\<rparr>,
     en_messageUpdateCount := en_messageUpdateCount en + updates [e]\<rparr>"

lemma encoder_frame_typed:
  assumes "wire_event e"
  shows "encoder_frame uuid e en = (after_event e en, Inr (frame_of uuid en e))"
proof -
  obtain t where t: "get e ''type'' = JStr t" "t \<in> set AGENT_WIRE_EVENT_TYPES" using assms by (auto simp: wire_event_def list_ex_iff)
  have "is_update e \<Longrightarrow> \<exists>m. get e ''assistantMessageEvent'' = JObj m"
    using assms by (cases "get e ''assistantMessageEvent''") (auto simp: wire_event_def)
  then show ?thesis using t
    by (cases "is_update e") (auto simp: encoder_frame_def is_update_def toAgentWireEventFrame_def agentSessionEventType_def
      str_def next_frame_def frame_of_def after_event_def updates_def sanitizeAssistantMessageEventForCompact_def Let_def)
qed

lemma encode_all_nth:
  "list_all wire_event es \<Longrightarrow> length (snd (encode_all uuid es en)) = length es
    \<and> (\<forall>i < length es. snd (encode_all uuid es en) ! i = Inr (frame_of uuid (fold after_event (take i es) en) (es ! i)))"
proof (induction es arbitrary: en)
  case (Cons e es)
  have "fst (encoder_frame uuid e en) = after_event e en" using Cons.prems by (simp add: encoder_frame_typed)
  moreover have "snd (encode_all uuid (e # es) en) = Inr (frame_of uuid en e) # snd (encode_all uuid es (after_event e en))"
    using Cons.prems by (simp add: encoder_frame_typed split: prod.splits)
  ultimately show ?case using Cons.IH [of "after_event e en"] Cons.prems by (auto simp: nth_Cons' take_Cons')
qed simp

lemma fold_after_event:
  "en_checkpointInterval (fold after_event es en) = en_checkpointInterval en"
  "sq_sessionId (en_sequencer (fold after_event es en)) = sq_sessionId (en_sequencer en)"
  "sq_seq (en_sequencer (fold after_event es en)) = sq_seq (en_sequencer en) + length es"
  "en_messageUpdateCount (fold after_event es en) = en_messageUpdateCount en + updates es"
  by (induction es arbitrary: en) (simp_all add: after_event_def updates_def)

lemma map_of_filter_keys: "map_of (filter (\<lambda>(k, _). P k) m) k = (if P k then map_of m k else None)"
  by (induction m) auto

text \<open>C26. The compact encoder numbers and trims without losing the thread: for any events of the union, frame \<open>i\<close> carries
  sequence number \<open>i + 1\<close> with its own id; an event that is not a streaming update travels whole; an update
  travels as its delta, without the partial message, the message and the error but with every other field, and
  the full message is attached exactly to every \<open>k\<close>-th update, so a client that joins late resynchronises
  after at most \<open>k\<close> updates; with a non-positive interval never.\<close>

theorem compact_encoder_frames:
  assumes "list_all wire_event events" "i < length events"
  shows "length (snd (encode_all uuid events (new_encoder sid k))) = length events \<and>
    (\<exists>fr. snd (encode_all uuid events (new_encoder sid k)) ! i = Inr fr
      \<and> wf_seq fr = i + 1 \<and> wf_session_id fr = sid \<and> wf_frame_id fr = uuid (i + 1)
      \<and> (if is_update (events ! i)
         then get (wf_payload fr) ''checkpoint_message''
              = (if k > 0 \<and> int (updates (take (Suc i) events)) mod k = 0 then get (events ! i) ''message'' else JUndef)
           \<and> get (get (wf_payload fr) ''assistantMessageEvent'') key
              = (if key \<in> {''partial'', ''message'', ''error''} then JUndef else get (get (events ! i) ''assistantMessageEvent'') key)
         else get (wf_payload fr) ''event'' = events ! i \<and> get (wf_payload fr) ''event_type'' = get (events ! i) ''type''))"
proof -
  let ?en = "fold after_event (take i events) (new_encoder sid k)"
  let ?fr = "frame_of uuid ?en (events ! i)"
  have e: "wire_event (events ! i)" using assms by (simp add: list_all_length)
  have upd: "updates (take (Suc i) events) = (if is_update (events ! i) then Suc (updates (take i events)) else updates (take i events))"
    using assms(2) by (simp add: take_Suc_conv_app_nth updates_def)
  have en: "sq_seq (en_sequencer ?en) = i" "sq_sessionId (en_sequencer ?en) = sid" "en_checkpointInterval ?en = k"
    "en_messageUpdateCount ?en = updates (take i events)"
    using assms(2) by (simp_all add: fold_after_event new_encoder_def)
  have 1: "is_update (events ! i) \<Longrightarrow> get (wf_payload ?fr) ''checkpoint_message''
      = (if k > 0 \<and> int (updates (take (Suc i) events)) mod k = 0 then get (events ! i) ''message'' else JUndef)"
    by (simp add: frame_of_def en upd compact_payload_def checkpoint_due_def)
  have 2: "get (get (wf_payload ?fr) ''assistantMessageEvent'') key
      = (if key \<in> {''partial'', ''message'', ''error''} then JUndef else get (get (events ! i) ''assistantMessageEvent'') key)"
    if u: "is_update (events ! i)"
  proof -
    obtain m where "get (events ! i) ''assistantMessageEvent'' = JObj m"
      using e u by (cases "get (events ! i) ''assistantMessageEvent''") (auto simp: wire_event_def)
    with u show ?thesis
      by (simp add: frame_of_def compact_payload_def sanitizeAssistantMessageEventForCompact_def map_of_filter_keys)
  qed
  have 3: "get (wf_payload ?fr) ''event'' = events ! i \<and> get (wf_payload ?fr) ''event_type'' = get (events ! i) ''type''"
    if "\<not> is_update (events ! i)"
    using e that by (auto simp: frame_of_def event_payload_def wire_event_def list_ex_iff str_def)
  have 4: "wf_seq ?fr = i + 1 \<and> wf_session_id ?fr = sid \<and> wf_frame_id ?fr = uuid (i + 1)"
    by (simp add: frame_of_def en)
  show ?thesis using encode_all_nth [OF assms(1), of uuid "new_encoder sid k"] assms(2) 1 2 3 4 by (intro conjI exI [of _ ?fr]) auto
qed

definition demo_update :: jv where
  "demo_update = JObj [(''type'', JStr ''message_update''), (''message'', JObj [(''id'', JStr ''m1'')]),
     (''assistantMessageEvent'', JObj [(''delta'', JStr ''hi''), (''partial'', JStr ''all of it'')])]"

theorem compact_encoder_frames_witness:
  "\<exists>fr. snd (encode_all (\<lambda>n. ''f'' @ dec_string n) [demo_update, demo_update] (new_encoder ''s'' 2)) ! 1 = Inr fr
     \<and> wf_seq fr = 2 \<and> get (wf_payload fr) ''checkpoint_message'' = JObj [(''id'', JStr ''m1'')]
     \<and> get (get (wf_payload fr) ''assistantMessageEvent'') ''partial'' = JUndef"
proof -
  have w: "list_all wire_event [demo_update, demo_update]" "is_update demo_update" "get demo_update ''message'' = JObj [(''id'', JStr ''m1'')]"
    by (simp_all add: wire_event_def is_update_def demo_update_def AGENT_WIRE_EVENT_TYPES_def)
  show ?thesis using compact_encoder_frames [of "[demo_update, demo_update]" 1 "\<lambda>n. ''f'' @ dec_string n" "''s''" 2 "''partial''"] w
    by (auto simp: updates_def)
qed

text \<open>Evidence is bounded in kind, not in size: an identifier of any length passes unchanged.\<close>

lemma evidence_size_unbounded:
  "\<exists>ob. observeAgentWireFrame (JObj [(''type'', JStr ''host_tool_call''), (''toolName'', JStr (replicate n CHR ''x''))]) = Inr (Some ob)
     \<and> map_of (wo_evidence ob) ''toolName'' = Some (JStr (replicate n CHR ''x''))"
  by (simp add: observeAgentWireFrame_def ownerFrame_def str_def str_or_null_def)

end
