(* ===== verification/State_Error.thy ===== *)
theory State_Error
  imports GJC_Prelude
begin

text \<open>
  Stateful code that may throw. A run takes the state and returns it, updated, together with an error or a result:
  what was written before an exception stays written. \<open>bindr\<close> is the sequence of two statements, \<open>tryr\<close> the
  \<^verbatim>\<open>try\<close>/\<^verbatim>\<open>catch\<close> statement. Two ways of reasoning: \<open>triple P m Q E\<close> gives the result condition \<open>Q\<close> and the error condition
  \<open>E\<close> that a run from a state with \<open>P\<close> meets; \<open>keeps R m\<close> says that every run relates its first to its last state. The rules
  of the first are in the collection \<open>vcg\<close>, those of the second in the locale \<open>run_relation\<close>.
\<close>

named_theorems vcg \<open>rules for triples over stateful code that may throw\<close>

type_synonym ('s, 'e, 'a) run = "'s \<Rightarrow> 's \<times> ('e + 'a)"

definition ret :: "'a \<Rightarrow> ('s, 'e, 'a) run" where
  "ret x s = (s, Inr x)"

definition throw :: "'e \<Rightarrow> ('s, 'e, 'a) run" where
  "throw e s = (s, Inl e)"

definition bindr :: "('s, 'e, 'a) run \<Rightarrow> ('a \<Rightarrow> ('s, 'e, 'b) run) \<Rightarrow> ('s, 'e, 'b) run" where
  "bindr m k s = (case m s of (s', Inl e) \<Rightarrow> (s', Inl e) | (s', Inr x) \<Rightarrow> k x s')"

definition tryr :: "('s, 'e, 'a) run \<Rightarrow> ('e \<Rightarrow> ('s, 'f, 'a) run) \<Rightarrow> ('s, 'f, 'a) run" where
  "tryr m h s = (case m s of (s', Inl e) \<Rightarrow> h e s' | (s', Inr x) \<Rightarrow> (s', Inr x))"

definition modify :: "('s \<Rightarrow> 's) \<Rightarrow> ('s, 'e, unit) run" where
  "modify f s = (f s, Inr ())"

definition gets :: "('s \<Rightarrow> 'a) \<Rightarrow> ('s, 'e, 'a) run" where
  "gets f s = (s, Inr (f s))"

lemmas run_defs = ret_def throw_def bindr_def tryr_def modify_def gets_def

text \<open>The monad laws.\<close>

lemma bindr_ret [simp]: "bindr (ret x) k = k x"
  by (rule ext) (simp add: run_defs)

lemma bindr_ret_right [simp]: "bindr m ret = m"
  by (rule ext) (simp add: run_defs split: prod.splits sum.splits)

lemma bindr_throw [simp]: "bindr (throw e) k = throw e"
  by (rule ext) (simp add: run_defs)

lemma bindr_assoc: "bindr (bindr m k) l = bindr m (\<lambda>x. bindr (k x) l)"
  by (rule ext) (simp add: run_defs split: prod.splits sum.splits)

lemma bindr_Inr:
  assumes "bindr m k s = (s', Inr y)"
  obtains s1 x where "m s = (s1, Inr x)" "k x s1 = (s', Inr y)"
  using assms by (auto simp: bindr_def split: prod.splits sum.splits)

lemma bindr_apply [simp]:
  "m s = (s1, Inr x) \<Longrightarrow> bindr m k s = k x s1" "m s = (s1, Inl e) \<Longrightarrow> bindr m k s = (s1, Inl e)"
  by (simp_all add: bindr_def)

section \<open>Triples\<close>

definition triple :: "('s \<Rightarrow> bool) \<Rightarrow> ('s, 'e, 'a) run \<Rightarrow> ('a \<Rightarrow> 's \<Rightarrow> bool) \<Rightarrow> ('e \<Rightarrow> 's \<Rightarrow> bool) \<Rightarrow> bool" where
  "triple P m Q E \<longleftrightarrow> (\<forall>s. P s \<longrightarrow> (case m s of (s', Inl e) \<Rightarrow> E e s' | (s', Inr x) \<Rightarrow> Q x s'))"

lemma tripleD:
  assumes "triple P m Q E" "P s"
  shows "m s = (s', Inr x) \<Longrightarrow> Q x s'" "m s = (s', Inl e) \<Longrightarrow> E e s'"
  using assms by (auto simp: triple_def)

lemma tripleI:
  assumes "\<And>s s' x. P s \<Longrightarrow> m s = (s', Inr x) \<Longrightarrow> Q x s'" "\<And>s s' e. P s \<Longrightarrow> m s = (s', Inl e) \<Longrightarrow> E e s'"
  shows "triple P m Q E"
  using assms by (auto simp: triple_def split: prod.splits sum.splits)

lemma triple_ret [vcg]: "(\<And>s. P s \<Longrightarrow> Q x s) \<Longrightarrow> triple P (ret x) Q E"
  by (simp add: triple_def ret_def)

lemma triple_throw [vcg]: "(\<And>s. P s \<Longrightarrow> E e s) \<Longrightarrow> triple P (throw e) Q E"
  by (simp add: triple_def throw_def)

lemma triple_modify [vcg]: "(\<And>s. P s \<Longrightarrow> Q () (f s)) \<Longrightarrow> triple P (modify f) Q E"
  by (simp add: triple_def modify_def)

lemma triple_bind: "triple P m R E \<Longrightarrow> (\<And>x. triple (R x) (k x) Q E) \<Longrightarrow> triple P (bindr m k) Q E"
  by (fastforce simp: triple_def bindr_def split: prod.splits sum.splits)

lemma triple_if [vcg]:
  "(c \<Longrightarrow> triple P m Q E) \<Longrightarrow> (\<not> c \<Longrightarrow> triple P m' Q E) \<Longrightarrow> triple P (if c then m else m') Q E"
  by simp

lemma triple_conseq:
  "triple P' m Q' E' \<Longrightarrow> (\<And>s. P s \<Longrightarrow> P' s) \<Longrightarrow> (\<And>x s. Q' x s \<Longrightarrow> Q x s) \<Longrightarrow> (\<And>e s. E' e s \<Longrightarrow> E e s) \<Longrightarrow> triple P m Q E"
  by (fastforce simp: triple_def split: prod.splits sum.splits)

section \<open>Relations every run keeps\<close>

definition keeps :: "('s \<Rightarrow> 's \<Rightarrow> bool) \<Rightarrow> ('s, 'e, 'a) run \<Rightarrow> bool" where
  "keeps R m \<longleftrightarrow> (\<forall>s. R s (fst (m s)))"

text \<open>The contract of a relation that composes: whatever keeps it in every statement keeps it as a whole.\<close>

locale run_relation =
  fixes R :: "'s \<Rightarrow> 's \<Rightarrow> bool"
  assumes R_refl: "R s s"
    and R_trans: "R s t \<Longrightarrow> R t u \<Longrightarrow> R s u"
begin

lemma keeps_ret: "keeps R (ret x)"
  by (simp add: keeps_def ret_def R_refl)

lemma keeps_throw: "keeps R (throw e)"
  by (simp add: keeps_def throw_def R_refl)

lemma keeps_gets: "keeps R (gets f)"
  by (simp add: keeps_def gets_def R_refl)

lemma keeps_bind: "keeps R m \<Longrightarrow> (\<And>x. keeps R (k x)) \<Longrightarrow> keeps R (bindr m k)"
  unfolding keeps_def
proof
  fix s assume m: "\<forall>s. R s (fst (m s))" and k: "\<And>x. \<forall>s. R s (fst (k x s))"
  obtain s' r where "m s = (s', r)" by fastforce
  with m have "m s = (s', r)" "R s s'" by (auto dest: spec [of _ s])
  then show "R s (fst (bindr m k s))" using k by (cases r) (auto simp: bindr_def intro: R_trans)
qed

lemma keeps_try: "keeps R m \<Longrightarrow> (\<And>e. keeps R (h e)) \<Longrightarrow> keeps R (tryr m h)"
  unfolding keeps_def
proof
  fix s assume m: "\<forall>s. R s (fst (m s))" and k: "\<And>e. \<forall>s. R s (fst (h e s))"
  obtain s' r where "m s = (s', r)" by fastforce
  with m have "m s = (s', r)" "R s s'" by (auto dest: spec [of _ s])
  then show "R s (fst (tryr m h s))" using k by (cases r) (auto simp: tryr_def intro: R_trans)
qed

lemma keeps_if: "keeps R m \<Longrightarrow> keeps R m' \<Longrightarrow> keeps R (if c then m else m')"
  by simp

lemma keeps_option: "keeps R m \<Longrightarrow> (\<And>x. keeps R (k x)) \<Longrightarrow> keeps R (case v of None \<Rightarrow> m | Some x \<Rightarrow> k x)"
  by (cases v) simp_all

lemma keeps_prod: "(\<And>x y. keeps R (k x y)) \<Longrightarrow> keeps R (case v of (x, y) \<Rightarrow> k x y)"
  by (cases v) simp

lemma keeps_let: "(\<And>x. keeps R (k x)) \<Longrightarrow> keeps R (let x = v in k x)"
  by simp

lemmas keeps_rules = keeps_ret keeps_throw keeps_gets keeps_bind keeps_try keeps_if keeps_option keeps_prod keeps_let

end

end
