(* ===== verification/Harness_Owner.thy ===== *)
theory Harness_Owner
  imports Harness_Operate Harness_Lease Agent_Wire State_Error
begin

text \<open>
  The runtime owner of a session (\<^verbatim>\<open>harness-control-plane/owner.ts\<close>): the process that holds the lease, is the only writer
  of the event log, maps wire frames to events and serves the owner-routed primitives. Its teardown is in
  \<open>Owner_Teardown\<close>.

  The state of the owner and the files it works on are one record; every operation is a run of \<open>State_Error\<close>, so what it
  wrote before throwing stays written. A request is served in one step, at one reading of the clock. What the host
  answers during it (clock, git, the transport, the injected checks, random ids) is the record \<open>owner_host\<close>. The
  operate loop is run by \<open>Harness_Operate\<close> against the observations of the host; its events reach the log in the order
  in which the loop emits them, after its receipts.
\<close>

section \<open>State\<close>

datatype owner_error =
    OwnerMessage string
  | OwnerStorage storage_error
  | OwnerLease lease_error
  | OwnerAggregate "owner_error list" string

(* coding-agent/src/harness-control-plane/owner.ts:103-128 OwnerOptions *)
record owner_options =
  oc_root :: string
  oc_sessionId :: string
  oc_ownerId :: string
  oc_pid :: nat
  oc_socketPath :: string
  oc_ttlMs :: int
  oc_acceptanceTimeoutMs :: nat
  oc_validationCommands :: "validation_spec list"
  oc_cleanupRetryLimit :: "nat option"

(* coding-agent/src/harness-control-plane/owner.ts:142-172 RuntimeOwner *)
record owner =
  ro_fs :: harness_fs
  ro_lease :: lease_fs
  ro_cursor :: nat
  ro_leaseEpoch :: nat
  ro_leaseHeld :: bool
  ro_heartbeatTimer :: bool
  ro_heartbeatFenced :: bool
  ro_heartbeatInFlight :: "int list"
  ro_subscribed :: bool
  ro_framePump :: "owner_observation list"
  ro_framePumpFailure :: "owner_error option"
  ro_coalesced :: "string list"
  ro_stopRequested :: bool
  ro_lastStopFailures :: "owner_error list"
  ro_reportedStopFailures :: "string list"
  ro_transportClosed :: bool
  ro_serverClosed :: bool

type_synonym 'a owner_run = "(owner, owner_error, 'a) run"

text \<open>What the frame persistence seams throw for one frame: writing the state, appending the coalesced event, appending the
  event of the frame.\<close>

record frame_io =
  fi_write :: "string option"
  fi_flush :: "string option"
  fi_append :: "string option"

text \<open>What the host answers while one request is served. \<open>wh_rpcState\<close> is \<open>None\<close> when the transport throws; the git answers are
  \<open>None\<close> when the command fails; functions of a number give successive answers.\<close>

record owner_host =
  wh_clock :: int
  wh_now :: string
  wh_eventId :: "nat \<Rightarrow> string"
  wh_env :: finalize_env
  wh_checks :: "string \<Rightarrow> finalize_checks"
  wh_transport :: "nat \<Rightarrow> session_transport"
  wh_rpcState :: "session_snapshot option"
  wh_isLive :: "bool option"
  wh_lastFrameAt :: "string option"
  wh_lastAssistantText :: "string option"
  wh_exists :: "string \<Rightarrow> bool"
  wh_branch :: "string \<Rightarrow> string option"
  wh_porcelain :: "string \<Rightarrow> string option"
  wh_worktree :: "nat \<Rightarrow> string \<Rightarrow> worktree"
  wh_observe :: "nat \<Rightarrow> observation"
  wh_frameIo :: "nat \<Rightarrow> frame_io"

text \<open>Reading and updating the files of the session.\<close>

definition on_read :: "(harness_fs \<Rightarrow> (storage_error, 'a) outcome) \<Rightarrow> 'a owner_run" where
  "on_read f ow = (ow, map_sum OwnerStorage id (f (ro_fs ow)))"

definition on_fs :: "(harness_fs \<Rightarrow> (storage_error, harness_fs \<times> 'a) outcome) \<Rightarrow> 'a owner_run" where
  "on_fs f ow =
     (case f (ro_fs ow) of
        Inl e \<Rightarrow> (ow, Inl (OwnerStorage e))
      | Inr (fs', x) \<Rightarrow> (ow\<lparr>ro_fs := fs'\<rparr>, Inr x))"

definition store_state :: "owner_options \<Rightarrow> session_state \<Rightarrow> unit owner_run" where
  "store_state oc st = on_fs (\<lambda>fs. map_sum id (\<lambda>fs'. (fs', ())) (writeSessionState fs (oc_root oc) st))"

section \<open>Loading the state\<close>

(* coding-agent/src/harness-control-plane/owner.ts:62-64 isStartupLivenessBlocker *)
definition isStartupLivenessBlocker :: "string \<Rightarrow> bool" where
  "isStartupLivenessBlocker b \<longleftrightarrow> b = ''detached-owner-not-live''"

(* coding-agent/src/harness-control-plane/owner.ts:66-68 isOwnerVanishedBlocker *)
definition isOwnerVanishedBlocker :: "string \<Rightarrow> bool" where
  "isOwnerVanishedBlocker b \<longleftrightarrow> take 15 b = ''owner-vanished:''"

(* coding-agent/src/harness-control-plane/owner.ts:70-85 reconcileLiveOwnerState *)
definition reconcileLiveOwnerState :: "string \<Rightarrow> session_state \<Rightarrow> session_state \<times> bool" where
  "reconcileLiveOwnerState now state =
     (let blockers = filter (\<lambda>b. \<not> isStartupLivenessBlocker b) (s_blockers state);
          had = (length blockers \<noteq> length (s_blockers state));
          l = (if had \<and> s_lifecycle state = Blocked \<and> blockers = [] then Observing else s_lifecycle state)
      in if \<not> had \<and> l = s_lifecycle state then (state, False)
         else (state\<lparr>s_lifecycle := l, s_blockers := blockers, s_updatedAt := now\<rparr>, True))"

(* coding-agent/src/harness-control-plane/owner.ts:269-278 loadState *)
definition loadState :: "owner_options \<Rightarrow> owner_host \<Rightarrow> session_state owner_run" where
  "loadState oc h =
     bindr (on_read (\<lambda>fs. readSessionState fs (oc_root oc) (oc_sessionId oc))) (\<lambda>stored.
       case stored of
         None \<Rightarrow> throw (OwnerMessage (''session_not_found:'' @ oc_sessionId oc))
       | Some state \<Rightarrow>
           (case reconcileLiveOwnerState (wh_now h) state of (state', reconciled) \<Rightarrow>
              if reconciled then bindr (store_state oc state') (\<lambda>_. ret state') else ret state))"

section \<open>Emitting events\<close>

text \<open>\<^verbatim>\<open>typeof v === "string" && v === s\<close> for a field of the evidence.\<close>

(* coding-agent/src/harness-control-plane/owner.ts:347-359 eventSubmitGateReason *)
definition eventSubmitGateReason :: "string \<Rightarrow> jv \<Rightarrow> string option" where
  "eventSubmitGateReason kind evidence =
     (if kind = ''prompt_accepted'' \<or> get evidence ''reason'' = JStr ''pre-state-not-idle'' \<or> take 4 kind = ''rpc_''
         \<or> get evidence ''signal'' \<in> {JStr ''prompt-accepted'', JStr ''streaming'', JStr ''tool-call'', JStr ''test-running''}
      then Some ''rpc-not-idle'' else None)"

(* coding-agent/src/harness-control-plane/owner.ts:370-391 emit *)
definition envelope ::
  "owner_options \<Rightarrow> owner_host \<Rightarrow> severity \<Rightarrow> string \<Rightarrow> jv \<Rightarrow> session_paths \<Rightarrow> owner \<Rightarrow> event_envelope"
where
  "envelope oc h sev kind evidence p ow =
     (let view = (case map_of (fs_states (ro_fs ow)) (sp_state p) of
            Some st \<Rightarrow> buildStateView st True
          | None \<Rightarrow> \<lparr>v_sessionId = oc_sessionId oc, v_lifecycle = Started, v_harness = GajaeCode, v_ownerLive = True, v_blockers = []\<rparr>)
      in \<lparr>ev_eventId = wh_eventId h (ro_cursor ow + 1), ev_cursor = ro_cursor ow + 1, ev_createdAt = wh_now h, ev_severity = sev,
          ev_kind = kind, ev_state = view, ev_evidence = evidence,
          ev_nextAllowedActions = nextAllowedActions (v_lifecycle view) True (eventSubmitGateReason kind evidence),
          ev_writer = (oc_ownerId oc, ro_leaseEpoch ow)\<rparr>)"

text \<open>\<open>io\<close> is what the append throws.\<close>

(* coding-agent/src/harness-control-plane/owner.ts:361-397 emit *)
definition emit_event :: "owner_options \<Rightarrow> owner_host \<Rightarrow> string option \<Rightarrow> severity \<Rightarrow> string \<Rightarrow> jv \<Rightarrow> unit owner_run" where
  "emit_event oc h io sev kind evidence ow =
     (case sessionPaths (oc_root oc) (oc_sessionId oc) of
        Inl e \<Rightarrow> (ow, Inl (OwnerStorage e))
      | Inr p \<Rightarrow>
          (case readLease (ro_lease ow) p of
             None \<Rightarrow> (ow, Inr ())
           | Some lease \<Rightarrow>
               if \<not> canWriteEvents lease (oc_ownerId oc) (wh_clock h) then (ow, Inr ())
               else let ev = envelope oc h sev kind evidence p ow; ow1 = ow\<lparr>ro_cursor := ro_cursor ow + 1\<rparr>
                    in (case io of
                          Some msg \<Rightarrow> (ow1, Inl (OwnerMessage msg))
                        | None \<Rightarrow> on_fs (\<lambda>fs. map_sum id (\<lambda>fs'. (fs', ())) (appendEvent fs (oc_root oc) (oc_sessionId oc) ev)) ow1)))"

section \<open>The frame pump\<close>

(* coding-agent/src/harness-control-plane/owner.ts:305-310 flushCoalesced *)
definition flushCoalesced :: "owner_options \<Rightarrow> owner_host \<Rightarrow> frame_io \<Rightarrow> unit owner_run" where
  "flushCoalesced oc h io =
     bindr (gets ro_coalesced) (\<lambda>ks.
       if ks = [] then ret ()
       else bindr (modify (\<lambda>ow. ow\<lparr>ro_coalesced := []\<rparr>)) (\<lambda>_.
         emit_event oc h (fi_flush io) Info ''rpc_activity'' (JObj [(''coalescedFrames'', JNum (of_nat (length ks)))])))"

(* coding-agent/src/harness-control-plane/owner.ts:313-325 emitMapped *)
definition mark_finalizing :: "owner_options \<Rightarrow> owner_host \<Rightarrow> frame_io \<Rightarrow> unit owner_run" where
  "mark_finalizing oc h io =
     bindr (on_read (\<lambda>fs. readSessionState fs (oc_root oc) (oc_sessionId oc))) (\<lambda>stored.
       case stored of
         None \<Rightarrow> ret ()
       | Some state \<Rightarrow>
           if s_lifecycle state \<in> {Completed, Retired, Finalizing} then ret ()
           else (case fi_write io of
                   Some msg \<Rightarrow> throw (OwnerMessage msg)
                 | None \<Rightarrow> store_state oc (state\<lparr>s_lifecycle := Finalizing, s_updatedAt := wh_now h\<rparr>)))"

(* coding-agent/src/harness-control-plane/owner.ts:312-332 emitMapped *)
definition emitMapped :: "owner_options \<Rightarrow> owner_host \<Rightarrow> frame_io \<Rightarrow> owner_observation \<Rightarrow> unit owner_run" where
  "emitMapped oc h io mapped =
     bindr (if wo_kind mapped = ''rpc_agent_completed'' then mark_finalizing oc h io else ret ()) (\<lambda>_.
       emit_event oc h (fi_append io) (wo_severity mapped) (wo_kind mapped)
         (JObj (wo_evidence mapped @ opt_field ''signal'' (wo_signal mapped))))"

(* coding-agent/src/harness-control-plane/owner.ts:285-293 handleFrame *)
definition pump_task :: "owner_options \<Rightarrow> owner_host \<Rightarrow> frame_io \<Rightarrow> owner_observation \<Rightarrow> unit owner_run" where
  "pump_task oc h io mapped =
     bindr (gets ro_framePumpFailure) (\<lambda>failed.
       if failed \<noteq> None then ret ()
       else tryr (bindr (flushCoalesced oc h io) (\<lambda>_. emitMapped oc h io mapped))
              (\<lambda>e. modify (\<lambda>ow. ow\<lparr>ro_framePumpFailure := Some e\<rparr>)))"

fun run_tasks :: "owner_options \<Rightarrow> owner_host \<Rightarrow> nat \<Rightarrow> owner_observation list \<Rightarrow> unit owner_run" where
  "run_tasks oc h n [] = ret ()"
| "run_tasks oc h n (m # ms) = bindr (pump_task oc h (wh_frameIo h n) m) (\<lambda>_. run_tasks oc h (Suc n) ms)"

text \<open>Awaiting the pump: every task queued so far has run, in order.\<close>

definition drain_pump :: "owner_options \<Rightarrow> owner_host \<Rightarrow> unit owner_run" where
  "drain_pump oc h =
     bindr (gets ro_framePump) (\<lambda>tasks. bindr (modify (\<lambda>ow. ow\<lparr>ro_framePump := []\<rparr>)) (\<lambda>_. run_tasks oc h 0 tasks))"

text \<open>A \<^verbatim>\<open>Map.set\<close> on keys only, bounded to the 256 most recent keys.\<close>

(* coding-agent/src/harness-control-plane/owner.ts:294-302 handleFrame *)
definition coalesce_key :: "string \<Rightarrow> string list \<Rightarrow> string list" where
  "coalesce_key k ks = (let ks' = (if k \<in> set ks then ks else ks @ [k]) in if length ks' > 256 then tl ks' else ks')"

(* coding-agent/src/harness-control-plane/owner.ts:281-303 handleFrame *)
definition handleFrame :: "jv \<Rightarrow> unit owner_run" where
  "handleFrame frame =
     (case observeAgentWireFrame frame of
        Inl e \<Rightarrow> throw (OwnerMessage e)
      | Inr None \<Rightarrow> ret ()
      | Inr (Some mapped) \<Rightarrow>
          if wo_semantic mapped \<or> present (wo_signal mapped) \<and> \<not> present (wo_coalesceKey mapped)
          then modify (\<lambda>ow. ow\<lparr>ro_framePump := ro_framePump ow @ [mapped]\<rparr>)
          else if present (wo_coalesceKey mapped)
          then modify (\<lambda>ow. ow\<lparr>ro_coalesced := coalesce_key (the (wo_coalesceKey mapped)) (ro_coalesced ow)\<rparr>)
          else ret ())"

section \<open>Observing\<close>

(* coding-agent/src/harness-control-plane/owner.ts:334-345 aggregateSignals *)
definition add_signal :: "jv \<Rightarrow> string list \<Rightarrow> string list" where
  "add_signal v out = (case v of JStr s \<Rightarrow> if s \<in> set OBSERVED_SIGNALS \<and> s \<notin> set out then out @ [s] else out | _ \<Rightarrow> out)"

(* coding-agent/src/harness-control-plane/owner.ts:334-345 aggregateSignals *)
definition aggregateSignals :: "event_envelope list \<Rightarrow> string list" where
  "aggregateSignals events =
     foldl (\<lambda>out e. let out1 = add_signal (get (ev_evidence e) ''signal'') out
                    in if ev_kind e = ''prompt_accepted'' then add_signal (JStr ''prompt-accepted'') out1 else out1) [] events"

(* coding-agent/src/harness-control-plane/owner.ts:413-420 submitGateReason *)
definition submitGateReason :: "session_state \<Rightarrow> session_snapshot option \<Rightarrow> string option" where
  "submitGateReason state rpcState =
     submitUnavailableReason (s_lifecycle state) True
       (case rpcState of
          None \<Rightarrow> Some ''rpc-not-live''
        | Some s \<Rightarrow> if ss_isStreaming s \<or> ss_steeringQueueDepth s > 0 \<or> ss_followupQueueDepth s > 0 then Some ''rpc-not-idle'' else None)"

(* coding-agent/src/harness-control-plane/owner.ts:462-487 observeGit *)
definition git_reading :: "owner_host \<Rightarrow> session_state \<Rightarrow> git_delta \<times> string option \<times> bool" where
  "git_reading h state =
     (let ws = h_workspace (s_handle state)
      in if \<not> wh_exists h ws then (UnknownDelta, h_branch (s_handle state), True)
         else (case wh_porcelain h ws of None \<Rightarrow> UnknownDelta | Some out \<Rightarrow> if trim out \<noteq> [] then Dirty else Clean,
               case wh_branch h ws of None \<Rightarrow> h_branch (s_handle state) | Some b \<Rightarrow> Some (trim b), False))"

text \<open>\<^verbatim>\<open>xs.slice(-n)\<close>.\<close>

definition last_n :: "nat \<Rightarrow> 'a list \<Rightarrow> 'a list" where
  "last_n n xs = drop (length xs - n) xs"

(* coding-agent/src/harness-control-plane/owner.ts:488-512 observeGit *)
definition observation_of :: "owner_host \<Rightarrow> session_state \<Rightarrow> event_envelope list \<Rightarrow> observation" where
  "observation_of h state events =
     (let recent = last_n 200 events;
          streaming = (case wh_rpcState h of None \<Rightarrow> False | Some s \<Rightarrow> ss_isStreaming s);
          stamps = [s_updatedAt state] @ (case wh_lastFrameAt h of None \<Rightarrow> [] | Some t \<Rightarrow> [t])
                   @ (if recent = [] then [] else [ev_createdAt (last recent)]);
          gate = submitGateReason state (wh_rpcState h)
      in case git_reading h state of (gitDelta, branch, deleted) \<Rightarrow>
           \<lparr>o_lifecycle = s_lifecycle state, o_ownerLive = True, o_cwd = h_workspace (s_handle state), o_branch = branch,
            o_gitDelta = gitDelta, o_lastActivityAt = Some (Max (set stamps)),
            o_observedSignals = take 7 (aggregateSignals recent) @ [if streaming then ''streaming'' else ''idle''],
            o_risk = (if deleted then DeletedWorktree else NormalRisk),
            o_rpcLive = Some (case wh_isLive h of Some b \<Rightarrow> b | None \<Rightarrow> wh_rpcState h \<noteq> None),
            o_rpcLastFrameAt = wh_lastFrameAt h, o_readyForSubmit = Some (gate = None), o_submitUnavailableReason = gate\<rparr>)"

(* coding-agent/src/harness-control-plane/owner.ts:451-513 observeGit *)
definition observeGit :: "owner_options \<Rightarrow> owner_host \<Rightarrow> observation owner_run" where
  "observeGit oc h =
     bindr (loadState oc h) (\<lambda>state.
       bindr (on_read (\<lambda>fs. readEvents fs (oc_root oc) (oc_sessionId oc) 0)) (\<lambda>events. ret (observation_of h state events)))"

section \<open>Requests\<close>

text \<open>The evidence of the answers.\<close>

datatype owner_evidence =
    EvError string
  | EvValidation "(string \<times> bool \<times> int) list" bool
  | EvRecover recovery_decision observation "string option"
  | EvOperate operate_result
  | EvFinalize finalize_result
  | EvRefused string
  | EvSubmit acceptance_result
  | EvObserve observation
  | EvPumpFailure bool owner_error
  | EvRetired

type_synonym answer = "owner_evidence primitive_response"

(* coding-agent/src/harness-control-plane/owner.ts:399-411 response *)
definition response :: "session_state \<Rightarrow> owner_evidence \<Rightarrow> bool \<Rightarrow> string option \<Rightarrow> answer" where
  "response state evidence ok gate =
     \<lparr>pr_ok = ok, pr_state = buildStateView state True, pr_evidence = evidence,
      pr_nextAllowedActions = nextAllowedActions (s_lifecycle state) True gate\<rparr>"

(* coding-agent/src/harness-control-plane/owner.ts:536-552 validate *)
definition owner_validation_receipt ::
  "owner_options \<Rightarrow> owner_host \<Rightarrow> session_state \<Rightarrow> string option \<Rightarrow> nat \<Rightarrow> validation_spec \<Rightarrow> jv"
where
  "owner_validation_receipt oc h state commit n spec =
     (let run = fc_runValidation (wh_checks h (h_workspace (s_handle state))) spec
      in buildReceipt (fe_eng (wh_env h)) (fe_now (wh_env h) n)
           \<lparr>br_receiptId = receiptId (wh_env h) ''val'' n, br_sessionId = oc_sessionId oc, br_family = ValidationFamily,
            br_source = ''owner'',
            br_subject = \<lparr>rs_workspace = h_workspace (s_handle state), rs_branch = h_branch (s_handle state), rs_head = commit, rs_commit = commit\<rparr>,
            br_evidence = validation_evidence spec run commit, br_artifactHashes = None, br_createdAt = None,
            br_valid = Some (vr_pass run)\<rparr>)"

definition write_receipt :: "owner_options \<Rightarrow> owner_host \<Rightarrow> receipt_family \<Rightarrow> string \<Rightarrow> jv \<Rightarrow> receipt_index_entry owner_run" where
  "write_receipt oc h fam rid r =
     on_fs (\<lambda>fs. writeReceiptImmutable (fe_eng (wh_env h)) (fe_write (wh_env h)) fs (oc_root oc) (oc_sessionId oc) fam rid r)"

(* coding-agent/src/harness-control-plane/owner.ts:534-555 validate *)
fun validate_specs ::
  "owner_options \<Rightarrow> owner_host \<Rightarrow> session_state \<Rightarrow> string option \<Rightarrow> nat \<Rightarrow> validation_spec list \<Rightarrow> (string \<times> bool \<times> int) list owner_run"
where
  "validate_specs oc h state commit n [] = ret []"
| "validate_specs oc h state commit n (spec # specs) =
     (let r = owner_validation_receipt oc h state commit n spec
      in bindr (write_receipt oc h ValidationFamily (receiptId (wh_env h) ''val'' n) r) (\<lambda>_.
           bindr (validate_specs oc h state commit (Suc n) specs) (\<lambda>more.
             ret ((vs_name spec, vo_valid (validateReceipt (fe_eng (wh_env h)) r),
                   vr_exitStatus (fc_runValidation (wh_checks h (h_workspace (s_handle state))) spec)) # more))))"

(* coding-agent/src/harness-control-plane/owner.ts:515-561 validate *)
definition validate :: "owner_options \<Rightarrow> owner_host \<Rightarrow> answer owner_run" where
  "validate oc h =
     bindr (loadState oc h) (\<lambda>state.
       let review = (h_mode (s_handle state) = Some Review);
           commit = fc_resolveCommit (wh_checks h (h_workspace (s_handle state)));
           state' = state\<lparr>s_lifecycle := Validating, s_updatedAt := wh_now h\<rparr>
       in bindr (if review then ret [] else validate_specs oc h state commit 0 (oc_validationCommands oc)) (\<lambda>validation.
            bindr (store_state oc state') (\<lambda>_.
              bindr (emit_event oc h None Info ''validated''
                       (JObj ([(''count'', JNum (of_nat (length validation)))] @ (if review then [(''reviewOnly'', JBool True)] else []))))
                (\<lambda>_. ret (response state' (EvValidation validation review) True None)))))"

(* coding-agent/src/harness-control-plane/owner.ts:566-569 recover *)
definition recovery_observation :: "session_state \<Rightarrow> observation \<Rightarrow> observation" where
  "recovery_observation state ob =
     (if list_ex isOwnerVanishedBlocker (s_blockers state)
      then ob\<lparr>o_ownerLive := False, o_risk := (if o_gitDelta ob = Dirty then VanishedDirty else o_risk ob)\<rparr> else ob)"

(* coding-agent/src/harness-control-plane/owner.ts:573-599 recover *)
definition recover_receipt :: "owner_options \<Rightarrow> owner_host \<Rightarrow> observation \<Rightarrow> recovery_classification \<Rightarrow> jv" where
  "recover_receipt oc h ob c =
     (let dirty = protected_delta (o_gitDelta ob);
          p = preserveDirtyWorktree (fe_eng (wh_env h)) (wh_worktree h 0 (o_cwd ob));
          stash = (if dirty then ps_stashRef p else None)
      in buildReceipt (fe_eng (wh_env h)) (fe_now (wh_env h) 0)
           \<lparr>br_receiptId = receiptId (wh_env h) ''vanish'' 0, br_sessionId = oc_sessionId oc, br_family = VanishFamily,
            br_source = ''owner'', br_subject = \<lparr>rs_workspace = o_cwd ob, rs_branch = o_branch ob, rs_head = None, rs_commit = None\<rparr>,
            br_evidence = JObj
              [(''classification'', JStr (classification_name c)), (''gitDelta'', JStr (git_delta_name (o_gitDelta ob))),
               (''gitStatusPorcelain'', JStr (if dirty
                   then ''tracked:'' @ ps_trackedDiffSha256 p @ '';untracked:'' @ dec_string (length (ps_untrackedManifest p))
                   else join '','' (o_observedSignals ob))),
               (''untrackedManifest'', JArr (if dirty
                   then map (\<lambda>u. JObj [(''path'', JStr (ue_path u)), (''size'', JNum (of_int (ue_size u))), (''sha256'', JStr (ue_sha256 u))])
                          (ps_untrackedManifest p) else [])),
               (''preservation'', JStr (if present stash then ''stash'' else ''snapshot'')), (''stashRef'', str_or_null stash),
               (''snapshotComplete'', JBool (if dirty then ps_snapshotComplete p else True)),
               (''forbiddenActions'', JArr (if dirty then map JStr [''restart-clean'', ''delete'', ''reset''] else []))],
            br_artifactHashes = None, br_createdAt = None, br_valid = None\<rparr>)"

(* coding-agent/src/harness-control-plane/owner.ts:603-607 recover *)
definition recovered_state :: "owner_host \<Rightarrow> session_state \<Rightarrow> session_state" where
  "recovered_state h state =
     (let blockers = filter (\<lambda>b. \<not> isOwnerVanishedBlocker b) (s_blockers state)
      in state\<lparr>s_blockers := blockers, s_lifecycle := (if blockers = [] then Observing else s_lifecycle state), s_updatedAt := wh_now h\<rparr>)"

(* coding-agent/src/harness-control-plane/owner.ts:563-611 recover *)
definition recover :: "owner_options \<Rightarrow> owner_host \<Rightarrow> answer owner_run" where
  "recover oc h =
     bindr (observeGit oc h) (\<lambda>ob. bindr (loadState oc h) (\<lambda>state.
       let rob = recovery_observation state ob;
           dec = classifyRecovery \<lparr>ci_observation = rob, ci_retryBudget = DEFAULT_RETRY_BUDGET, ci_acceptedPromptActive = None\<rparr>;
           c = d_classification dec;
           vanish = requiresVanishBeforeAction c;
           rid = receiptId (wh_env h) ''vanish'' 0;
           state' = (if vanish then recovered_state h state else state)
       in bindr (if vanish
                 then bindr (write_receipt oc h VanishFamily rid (recover_receipt oc h rob c)) (\<lambda>_. store_state oc state')
                 else ret ()) (\<lambda>_.
            bindr (emit_event oc h None (d_severity dec) ''recover_classified'' (JObj [(''classification'', JStr (classification_name c))]))
              (\<lambda>_. ret (response state' (EvRecover dec rob (if vanish then Some rid else None)) True None)))))"

(* coding-agent/src/harness-control-plane/owner.ts:658-684 finalize *)
definition owner_finalize_options :: "owner_options \<Rightarrow> owner_host \<Rightarrow> jv \<Rightarrow> session_state \<Rightarrow> finalize_options" where
  "owner_finalize_options oc h input state =
     (let handle = s_handle state; review = (h_mode handle = Some Review);
          verdict = (if review then str (get input ''verdict'') else None)
      in \<lparr>fo_root = oc_root oc, fo_sessionId = oc_sessionId oc, fo_workspace = h_workspace handle,
          fo_branch = (case h_branch handle of None \<Rightarrow> [] | Some b \<Rightarrow> b),
          fo_requireTests = (get input ''requireTests'' \<noteq> JBool False), fo_requireCommit = (get input ''requireCommit'' \<noteq> JBool False),
          fo_requirePr = (get input ''requirePr'' \<noteq> JBool False), fo_reviewOnly = review, fo_verdict = verdict,
          fo_assistantText = (if review \<and> verdict = None then wh_lastAssistantText h else None),
          fo_prTarget = (if review then h_issueOrPr handle else None),
          fo_validationCommands = oc_validationCommands oc, fo_checks = wh_checks h (h_workspace handle)\<rparr>)"

(* coding-agent/src/harness-control-plane/owner.ts:657-695 finalize *)
definition finalize :: "owner_options \<Rightarrow> owner_host \<Rightarrow> jv \<Rightarrow> answer owner_run" where
  "finalize oc h input =
     bindr (loadState oc h) (\<lambda>state.
       let fo = owner_finalize_options oc h input state
       in bindr (on_fs (\<lambda>fs. runFinalize (wh_env h) fs fo)) (\<lambda>fin.
            let state' = state\<lparr>s_lifecycle := (if fr_completed fin then Completed else Blocked), s_updatedAt := wh_now h,
                               s_blockers := (if fr_completed fin then s_blockers state else fr_blockers fin)\<rparr>
            in bindr (store_state oc state') (\<lambda>_.
                 bindr (emit_event oc h None (if fr_completed fin then Info else Critical) ''finalized''
                   (JObj ([(''completed'', JBool (fr_completed fin)), (''blockers'', JArr (map JStr (fr_blockers fin)))]
                     @ (if fo_reviewOnly fo then [(''verdict'', str_or_null (map_option verdict_name (fr_verdict fin))), (''reviewOnly'', JBool True)] else []))))
                   (\<lambda>_. ret (response state' (EvFinalize fin) (fr_completed fin) None)))))"

text \<open>The string members of an array.\<close>

definition string_members :: "jv list \<Rightarrow> string list" where
  "string_members vs = concat (map (\<lambda>v. case v of JStr s \<Rightarrow> [s] | _ \<Rightarrow> []) vs)"

(* coding-agent/src/harness-control-plane/owner.ts:622-633 operate *)
definition terminal_state :: "owner_host \<Rightarrow> string \<Rightarrow> jv \<Rightarrow> session_state \<Rightarrow> session_state" where
  "terminal_state h kind evidence state =
     (let l = (if kind = ''operate_finalized'' \<and> get evidence ''completed'' = JBool True then Completed else Blocked)
      in state\<lparr>s_lifecycle := l,
               s_blockers := (case get evidence ''blockers'' of JArr bs \<Rightarrow> string_members bs | _ \<Rightarrow> if l = Completed then [] else s_blockers state),
               s_updatedAt := wh_now h\<rparr>)"

(* coding-agent/src/harness-control-plane/owner.ts:617-635 operate *)
definition emitOperateEvent :: "owner_options \<Rightarrow> owner_host \<Rightarrow> severity \<times> string \<times> jv \<Rightarrow> unit owner_run" where
  "emitOperateEvent oc h e =
     (case e of (sev, kind, evidence) \<Rightarrow>
        bindr (if kind = ''operate_blocked'' \<or> kind = ''operate_finalized''
               then bindr (loadState oc h) (\<lambda>state. store_state oc (terminal_state h kind evidence state)) else ret ())
          (\<lambda>_. emit_event oc h None sev kind evidence))"

fun emit_all :: "owner_options \<Rightarrow> owner_host \<Rightarrow> (severity \<times> string \<times> jv) list \<Rightarrow> unit owner_run" where
  "emit_all oc h [] = ret ()"
| "emit_all oc h (e # es) = bindr (emitOperateEvent oc h e) (\<lambda>_. emit_all oc h es)"

text \<open>The iterations a limit allows; a limit that is no number is 5. Inputs hold finite numbers.\<close>

(* coding-agent/src/harness-control-plane/owner.ts:645-645 operate *)
definition iteration_limit :: "jv \<Rightarrow> nat" where
  "iteration_limit v = (case v of JNum r \<Rightarrow> nat \<lceil>r\<rceil> | JNonFinite _ \<Rightarrow> 0 | _ \<Rightarrow> 5)"

(* coding-agent/src/harness-control-plane/owner.ts:636-647 operate *)
definition owner_operate_options :: "owner_options \<Rightarrow> owner_host \<Rightarrow> jv \<Rightarrow> session_state \<Rightarrow> operate_options" where
  "owner_operate_options oc h input state =
     (let ws = h_workspace (s_handle state)
      in \<lparr>oo_finalize = \<lparr>fo_root = oc_root oc, fo_sessionId = oc_sessionId oc, fo_workspace = ws,
            fo_branch = (case h_branch (s_handle state) of None \<Rightarrow> [] | Some b \<Rightarrow> b), fo_requireTests = True, fo_requireCommit = True,
            fo_requirePr = True, fo_reviewOnly = False, fo_verdict = None, fo_assistantText = None, fo_prTarget = None,
            fo_validationCommands = oc_validationCommands oc, fo_checks = wh_checks h ws\<rparr>,
          oo_env = wh_env h, oo_transport = wh_transport h, oo_observe = wh_observe h,
          oo_preserve = (\<lambda>n. preserveDirtyWorktree (fe_eng (wh_env h)) (wh_worktree h n ws)),
          oo_acceptanceTimeoutMs = 30000, oo_maxIterations = iteration_limit (get input ''maxIterations''),
          oo_vanishId = receiptId (wh_env h) ''vanish''\<rparr>)"

text \<open>The loop on the files, with the events it emits.\<close>

definition run_operate ::
  "string \<Rightarrow> operate_options \<Rightarrow> harness_fs \<Rightarrow> (storage_error, harness_fs \<times> (severity \<times> string \<times> jv) list \<times> operate_result) outcome"
where
  "run_operate goal opts fs = map_sum id (\<lambda>(st, res). (os_fs st, os_events st, res)) (operate goal DEFAULT_RETRY_BUDGET opts fs)"

(* coding-agent/src/harness-control-plane/owner.ts:613-655 operate *)
definition owner_operate :: "owner_options \<Rightarrow> owner_host \<Rightarrow> jv \<Rightarrow> answer owner_run" where
  "owner_operate oc h input =
     (let goal = (case str (get input ''goal'') of None \<Rightarrow> [] | Some g \<Rightarrow> g)
      in bindr (loadState oc h) (\<lambda>state0.
           if goal = [] then ret (response state0 (EvError ''empty-goal'') False None)
           else bindr (on_fs (run_operate goal (owner_operate_options oc h input state0))) (\<lambda>(events, result).
                  bindr (emit_all oc h events) (\<lambda>_.
                    bindr (loadState oc h) (\<lambda>state.
                      let state' = state\<lparr>s_lifecycle := or_lifecycle result, s_blockers := or_blockers result, s_updatedAt := wh_now h\<rparr>
                      in bindr (store_state oc state') (\<lambda>_. ret (response state' (EvOperate result) (or_completed result) None)))))))"

(* coding-agent/src/harness-control-plane/owner.ts:697-744 submit *)
definition submit :: "owner_options \<Rightarrow> owner_host \<Rightarrow> jv \<Rightarrow> answer owner_run" where
  "submit oc h input =
     (let prompt = (case str (get input ''prompt'') of None \<Rightarrow> [] | Some p \<Rightarrow> p)
      in bindr (loadState oc h) (\<lambda>state.
           if prompt = [] then ret (response state (EvRefused ''empty-prompt'') False (Some ''empty-prompt''))
           else (case submitUnavailableReason (s_lifecycle state) True None of
             Some gate \<Rightarrow> ret (response state (EvRefused gate) False (Some gate))
           | None \<Rightarrow>
               let result = singleFlightAccept (wh_transport h 0) prompt (oc_acceptanceTimeoutMs oc);
                   state' = (if ar_accepted result then state\<lparr>s_lifecycle := Observing, s_updatedAt := wh_now h\<rparr> else state);
                   gate = (if \<not> ar_accepted result \<and> ar_reason result = ''pre-state-not-idle'' then Some ''rpc-not-idle'' else None)
               in bindr (if ar_accepted result
                         then bindr (store_state oc state') (\<lambda>_. emit_event oc h None Info ''prompt_accepted''
                           (JObj [(''reason'', JStr (ar_reason result)),
                              (''agentStartCursor'', case ar_agentStartCursor result of None \<Rightarrow> JNull | Some c \<Rightarrow> JNum (of_nat c))]))
                         else emit_event oc h None Warn ''prompt_not_accepted'' (JObj [(''reason'', JStr (ar_reason result))]))
                    (\<lambda>_. ret (response state' (EvSubmit result) (ar_accepted result) gate)))))"

text \<open>\<^verbatim>\<open>[...new Set(xs)]\<close>: the first occurrence of each element.\<close>

definition uniq :: "'a list \<Rightarrow> 'a list" where
  "uniq xs = rev (remdups (rev xs))"

(* coding-agent/src/harness-control-plane/owner.ts:746-776 observe *)
definition observe :: "owner_options \<Rightarrow> owner_host \<Rightarrow> answer owner_run" where
  "observe oc h =
     bindr (drain_pump oc h) (\<lambda>_. bindr (loadState oc h) (\<lambda>state. bindr (gets ro_framePumpFailure) (\<lambda>failed.
       case failed of
         Some e \<Rightarrow>
           let failedState = state\<lparr>s_lifecycle := Blocked, s_blockers := uniq (s_blockers state @ [''frame-persistence-failed''])\<rparr>
           in ret (response failedState (EvPumpFailure (case wh_isLive h of None \<Rightarrow> True | Some b \<Rightarrow> b) e) False None)
       | None \<Rightarrow> bindr (observeGit oc h) (\<lambda>ob. ret (response state (EvObserve ob) True (o_submitUnavailableReason ob))))))"

(* coding-agent/src/harness-control-plane/owner.ts:778-786 retire *)
definition retire :: "owner_options \<Rightarrow> owner_host \<Rightarrow> answer owner_run" where
  "retire oc h =
     bindr (loadState oc h) (\<lambda>state.
       let state' = state\<lparr>s_lifecycle := Retired, s_updatedAt := wh_now h\<rparr>
       in bindr (store_state oc state') (\<lambda>_. bindr (emit_event oc h None Info ''owner_retired'' (JObj [])) (\<lambda>_.
            bindr (modify (\<lambda>ow. ow\<lparr>ro_stopRequested := True\<rparr>)) (\<lambda>_. ret (response state' EvRetired True None)))))"

text \<open>The spool directory a request asks for replaces the configured one while it is served.\<close>

(* coding-agent/src/harness-control-plane/owner.ts:422-426 withReceiptSpoolFromInput *)
definition withReceiptSpoolFromInput :: "jv \<Rightarrow> owner_host \<Rightarrow> owner_host" where
  "withReceiptSpoolFromInput input h =
     (case str (get input ''GJC_RECEIPT_SPOOL_DIR'') of
        None \<Rightarrow> h
      | Some d \<Rightarrow>
          if trim d = [] then h
          else let env = wh_env h; we = fe_write env
               in h\<lparr>wh_env := env\<lparr>fe_write := we\<lparr>we_spoolDir := Some (path_resolve (we_cwd we) (trim d))\<rparr>\<rparr>\<rparr>)"

datatype owner_reply = Pong string nat | Answer answer | Unsupported string

(* coding-agent/src/harness-control-plane/owner.ts:428-449 handle *)
definition handle :: "owner_options \<Rightarrow> owner_host \<Rightarrow> string \<Rightarrow> jv \<Rightarrow> owner_reply owner_run" where
  "handle oc h verb input =
     (let h' = withReceiptSpoolFromInput input h; answer = (\<lambda>m. bindr m (\<lambda>r. ret (Answer r)))
      in if verb = ''ping'' then bindr (gets ro_leaseEpoch) (\<lambda>ep. ret (Pong (oc_ownerId oc) ep))
         else if verb = ''submit'' then answer (submit oc h input)
         else if verb = ''observe'' then answer (observe oc h)
         else if verb = ''retire'' then answer (retire oc h)
         else if verb = ''finalize'' then answer (finalize oc h' input)
         else if verb = ''recover'' then answer (recover oc h')
         else if verb = ''validate'' then answer (validate oc h')
         else if verb = ''operate'' then answer (owner_operate oc h' input)
         else ret (Unsupported (''owner_unsupported_verb:'' @ verb)))"

section \<open>Start and heartbeat\<close>

text \<open>The process: the hash and token of the lease, the probe of process ids, what \<^verbatim>\<open>listen\<close> throws and whether the
  transport offers event frames.\<close>

record owner_process =
  op_hash :: "string \<Rightarrow> string"
  op_token :: string
  op_probe :: "nat \<Rightarrow> pid_status"
  op_listen :: "string option"
  op_frames :: bool

(* coding-agent/src/harness-control-plane/owner.ts:230-239 startOnce *)
definition take_lease :: "owner_options \<Rightarrow> owner_host \<Rightarrow> owner_process \<Rightarrow> session_paths \<Rightarrow> unit owner_run" where
  "take_lease oc h pr p ow =
     (case acquireLease (op_hash pr) id (op_probe pr) (wh_clock h) (op_token pr) (ro_lease ow) (oc_root oc) (oc_sessionId oc)
             \<lparr>ao_ownerId = oc_ownerId oc, ao_pid = oc_pid oc, ao_endpoint = Some (UnixSocket, oc_socketPath oc),
              ao_eventsPath = sp_events p, ao_ttlMs = oc_ttlMs oc\<rparr> of
        Inl e \<Rightarrow> (ow, Inl (OwnerLease e))
      | Inr (lf, lease, _) \<Rightarrow>
          (ow\<lparr>ro_lease := lf, ro_leaseHeld := True, ro_leaseEpoch := l_leaseEpoch lease, ro_heartbeatTimer := True\<rparr>, Inr ()))"

(* coding-agent/src/harness-control-plane/owner.ts:225-267 startOnce *)
definition startOnce :: "owner_options \<Rightarrow> owner_host \<Rightarrow> owner_process \<Rightarrow> nat owner_run" where
  "startOnce oc h pr =
     (case sessionPaths (oc_root oc) (oc_sessionId oc) of
        Inl e \<Rightarrow> throw (OwnerStorage e)
      | Inr p \<Rightarrow>
          bindr (on_read (\<lambda>fs. readEvents fs (oc_root oc) (oc_sessionId oc) 0)) (\<lambda>existing.
            bindr (modify (\<lambda>ow. ow\<lparr>ro_cursor := foldl (\<lambda>m e. max m (ev_cursor e)) 0 existing\<rparr>)) (\<lambda>_.
              bindr (take_lease oc h pr p) (\<lambda>_.
                case op_listen pr of
                  Some msg \<Rightarrow> throw (OwnerMessage msg)
                | None \<Rightarrow>
                    bindr (gets ro_leaseEpoch) (\<lambda>ep.
                      bindr (emit_event oc h None Info ''owner_started''
                               (JObj [(''ownerId'', JStr (oc_ownerId oc)), (''leaseEpoch'', JNum (of_nat ep))])) (\<lambda>_.
                        bindr (modify (\<lambda>ow. ow\<lparr>ro_subscribed := op_frames pr\<rparr>)) (\<lambda>_. ret ep)))))))"

text \<open>A tick of the interval starts a renewal; a renewal settles later, at its own time.\<close>

(* coding-agent/src/harness-control-plane/owner.ts:240-259 startOnce *)
definition heartbeat_tick :: "int \<Rightarrow> owner \<Rightarrow> owner" where
  "heartbeat_tick now ow =
     (if \<not> ro_heartbeatTimer ow \<or> ro_heartbeatFenced ow then ow
      else ow\<lparr>ro_heartbeatInFlight := ro_heartbeatInFlight ow @ [now]\<rparr>)"

(* coding-agent/src/harness-control-plane/owner.ts:245-258 startOnce *)
definition settle_renewal :: "owner_options \<Rightarrow> int \<Rightarrow> owner \<Rightarrow> owner" where
  "settle_renewal oc now ow =
     (case Harness_Lease.heartbeat (ro_lease ow) (oc_root oc) (oc_sessionId oc) (oc_ownerId oc) (oc_ttlMs oc) now of
        Inl (LeaseError _ code) \<Rightarrow> ow\<lparr>ro_stopRequested := (ro_stopRequested ow \<or> code = ''not_lease_holder'')\<rparr>
      | Inl _ \<Rightarrow> ow
      | Inr (lf, _) \<Rightarrow> ow\<lparr>ro_lease := lf\<rparr>)"

section \<open>Finding the owner\<close>

(* coding-agent/src/harness-control-plane/owner.ts:959-963 ResolvedOwner *)
record resolved_owner =
  rv_live :: bool
  rv_socketPath :: "string option"
  rv_lease :: "session_lease option"

(* coding-agent/src/harness-control-plane/owner.ts:966-973 resolveOwner *)
definition resolveOwner :: "lease_fs \<Rightarrow> string \<Rightarrow> string \<Rightarrow> int \<Rightarrow> (nat \<Rightarrow> pid_status) \<Rightarrow> (storage_error, resolved_owner) outcome" where
  "resolveOwner lf hroot sid now probe =
     map_sum id (\<lambda>p. case readLease lf p of
         None \<Rightarrow> \<lparr>rv_live = False, rv_socketPath = None, rv_lease = None\<rparr>
       | Some lease \<Rightarrow> \<lparr>rv_live = (classifyLeaseStatus (Some lease) now probe \<in> {Live, ExpiredAlive, EpermAlive}),
                        rv_socketPath = map_option snd (l_endpoint lease), rv_lease = Some lease\<rparr>) (sessionPaths hroot sid)"

(* coding-agent/src/harness-control-plane/owner.ts:981-984 resolveOwnerLive *)
definition resolveOwnerLive :: "lease_fs \<Rightarrow> string \<Rightarrow> string \<Rightarrow> int \<Rightarrow> (nat \<Rightarrow> pid_status) \<Rightarrow> (storage_error, bool) outcome" where
  "resolveOwnerLive lf hroot sid now probe =
     map_sum id (\<lambda>r. rv_live r \<and> rv_socketPath r \<noteq> None) (resolveOwner lf hroot sid now probe)"

section \<open>A concrete owner\<close>

definition demo_state :: session_state where
  "demo_state = \<lparr>s_schemaVersion = 1, s_sessionId = ''s'', s_lifecycle = Observing, s_harness = GajaeCode,
     s_handle = \<lparr>h_sessionId = ''s'', h_harness = GajaeCode, h_mode = None, h_repo = None, h_workspace = ''/w'', h_branch = Some ''main'',
       h_base = None, h_issueOrPr = None, h_ownerId = None, h_pid = None, h_leasePath = [], h_endpoint = None, h_heartbeatAt = None,
       h_policy = [], h_eventsPath = [], h_tmuxSessionName = None, h_startedAt = [], h_updatedAt = []\<rparr>,
     s_retries = [], s_blockers = [], s_createdAt = [], s_updatedAt = []\<rparr>"

definition demo_oc :: owner_options where
  "demo_oc = \<lparr>oc_root = ''/r'', oc_sessionId = ''s'', oc_ownerId = ''o1'', oc_pid = 7, oc_socketPath = ''/sock'', oc_ttlMs = 100,
     oc_acceptanceTimeoutMs = 5, oc_validationCommands = fo_validationCommands (demo_options False None), oc_cleanupRetryLimit = None\<rparr>"

definition demo_owner :: "harness_fs \<Rightarrow> owner" where
  "demo_owner fs = \<lparr>ro_fs = fs, ro_lease = \<lparr>lf_leases = [], lf_sockets = []\<rparr>, ro_cursor = 0, ro_leaseEpoch = 0, ro_leaseHeld = False,
     ro_heartbeatTimer = False, ro_heartbeatFenced = False, ro_heartbeatInFlight = [], ro_subscribed = False, ro_framePump = [],
     ro_framePumpFailure = None, ro_coalesced = [], ro_stopRequested = False, ro_lastStopFailures = [], ro_reportedStopFailures = [],
     ro_transportClosed = False, ro_serverClosed = False\<rparr>"

definition demo_host :: owner_host where
  "demo_host = \<lparr>wh_clock = 0, wh_now = ''t'', wh_eventId = dec_string, wh_env = demo_env,
     wh_checks = (\<lambda>_. fo_checks (demo_options False None)), wh_transport = (\<lambda>_. idle_transport), wh_rpcState = None, wh_isLive = None,
     wh_lastFrameAt = None, wh_lastAssistantText = None, wh_exists = (\<lambda>_. True), wh_branch = (\<lambda>_. None), wh_porcelain = (\<lambda>_. None),
     wh_worktree = (\<lambda>_ _. \<lparr>wt_diffHead = None, wt_lsFilesOthers = None, wt_readFile = (\<lambda>_. None), wt_stashCreate = None, wt_stashStore = False\<rparr>),
     wh_observe = (\<lambda>_. demo_observation True Clean [''completed'']), wh_frameIo = (\<lambda>_. \<lparr>fi_write = None, fi_flush = None, fi_append = None\<rparr>)\<rparr>"

definition demo_process :: owner_process where
  "demo_process = \<lparr>op_hash = id, op_token = ''t'', op_probe = (\<lambda>_. PidAlive), op_listen = None, op_frames = True\<rparr>"

lemma demo_owner_paths: obtains p where "sessionPaths ''/r'' ''s'' = Inr p"
  using demo_paths by (auto simp: abs_path_def sep_def)

text \<open>An owner with one queued frame and the lease, on a store that holds its session.\<close>

definition demo_lease :: session_lease where
  "demo_lease = \<lparr>l_ownerId = ''o1'', l_sessionId = ''s'', l_pid = 7, l_leaseTokenHash = [], l_endpoint = None, l_eventsPath = [],
     l_heartbeatAt = 0, l_expiresAt = 100, l_leaseEpoch = 1, l_writer = (''o1'', 1)\<rparr>"

definition demo_frame :: owner_observation where
  "demo_frame = \<lparr>wo_source = EventType ''agent_start'', wo_kind = ''rpc_agent_started'', wo_signal = Some ''SessionStart'',
     wo_evidence = [], wo_severity = Info, wo_semantic = True, wo_coalesceKey = None\<rparr>"

end
