(* ===== verification/Owner_Log.thy ===== *)
theory Owner_Log
  imports Harness_Owner
begin

text \<open>
  The runtime owner as the single writer of the event log: what every request does to the files, once and for all
  relations that compose (\<open>owner_relation\<close>), the order of the log over the life of an owner among rivals, and what a
  cursor that was read too early leads to.
\<close>

section \<open>What the files of a session go through\<close>

text \<open>Every file operation of a request but the append of an event: the log stays, receipts stay and may be added.\<close>

definition files_step :: "harness_fs \<Rightarrow> harness_fs \<Rightarrow> bool" where
  "files_step fs fs' \<longleftrightarrow> fs_events fs' = fs_events fs \<and> map_of (fs_receipts fs) \<subseteq>\<^sub>m map_of (fs_receipts fs')"

text \<open>The same without the session state.\<close>

definition receipts_step :: "harness_fs \<Rightarrow> harness_fs \<Rightarrow> bool" where
  "receipts_step fs fs' \<longleftrightarrow> files_step fs fs' \<and> fs_states fs' = fs_states fs"

lemma files_step_refl [simp]: "files_step fs fs" "receipts_step fs fs"
  by (simp_all add: files_step_def receipts_step_def)

lemma files_step_trans: "files_step a b \<Longrightarrow> files_step b c \<Longrightarrow> files_step a c"
  unfolding files_step_def using map_le_trans by auto

lemma receipts_step_trans: "receipts_step a b \<Longrightarrow> receipts_step b c \<Longrightarrow> receipts_step a c"
  unfolding receipts_step_def using files_step_trans by auto

lemma receipts_filesD: "receipts_step a b \<Longrightarrow> files_step a b"
  by (simp add: receipts_step_def)

lemma files_writeSessionState: "writeSessionState fs r st = Inr fs' \<Longrightarrow> files_step fs fs'"
  by (cases "sessionPaths r (s_sessionId st)") (auto simp: writeSessionState_def files_step_def)

lemma receipts_writeReceipt:
  assumes "writeReceiptImmutable eng env fs r sid f i v = Inr (fs', e)"
  shows "receipts_step fs fs'"
  using write_preserves(1) [OF assms] by (rule_tac writeReceipt_Inr [OF assms]) (simp add: receipts_step_def files_step_def)

lemma receipts_run_validations:
  "run_validations env o' c n specs vst = Inr vst' \<Longrightarrow> receipts_step (va_fs vst) (va_fs vst')"
proof (induction specs arbitrary: n vst)
  case (Cons spec specs)
  then obtain fs' e where w: "writeReceiptImmutable (fe_eng env) (fe_write env) (va_fs vst) (fo_root o') (fo_sessionId o')
      ValidationFamily (receiptId env ''val'' n) (validation_receipt env o' c n spec) = Inr (fs', e)"
    by (auto simp: Let_def split: sum.splits)
  from Cons.prems have "\<exists>v. va_fs v = fs' \<and> run_validations env o' c (Suc n) specs v = Inr vst'"
    by (simp add: w Let_def) (rule exI, rule conjI [rotated], assumption, simp)
  with Cons.IH receipts_writeReceipt [OF w] receipts_step_trans show ?case by blast
qed simp

text \<open>A completion receipt or an autonomous verdict in the store.\<close>

definition evidenced :: "js_engine \<Rightarrow> harness_fs \<Rightarrow> bool" where
  "evidenced eng fs \<longleftrightarrow> (\<exists>r \<in> ran (map_of (fs_receipts fs)). vo_valid (validateReceipt eng r)
     \<and> get r ''family'' \<in> {JStr ''completion'', JStr ''review-verdict''})"

lemma evidenced_mono: "evidenced eng fs \<Longrightarrow> files_step fs fs' \<Longrightarrow> evidenced eng fs'"
  unfolding evidenced_def files_step_def by (meson ran_mono)

lemma writeReceipt_stored: "writeReceiptImmutable eng env fs r sid f i v = Inr (fs', e) \<Longrightarrow> v \<in> ran (map_of (fs_receipts fs'))"
  by (erule writeReceipt_Inr) (auto simp: js_simps intro: ranI)

lemma writeReceipt_files:
  "writeReceiptImmutable eng env fs r sid f i v = Inr (fs', e) \<Longrightarrow> receipts_step fs fs' \<and> v \<in> ran (map_of (fs_receipts fs'))"
  using receipts_writeReceipt writeReceipt_stored by blast

lemma finish_finalize_files:
  assumes "finish_finalize env o' c st = Inr (fs', f)"
  shows "receipts_step (va_fs st) fs' \<and> (fr_completed f \<longrightarrow> evidenced (fe_eng env) fs')"
proof -
  let ?n = "length (va_ids st)"
  let ?r = "completion_receipt env o' c (va_ids st) ?n"
  have "fs' = va_fs st \<and> \<not> fr_completed f \<or> (\<exists>e. writeReceiptImmutable (fe_eng env) (fe_write env) (va_fs st) (fo_root o') (fo_sessionId o')
      CompletionFamily (receiptId env ''done'' ?n) ?r = Inr (fs', e)) \<and> fr_completed f = vo_valid (validateReceipt (fe_eng env) ?r)"
    using assms unfolding finish_finalize_def Let_def by (auto simp: finalize_base_def split: sum.splits if_splits)
  moreover have "get ?r ''family'' = JStr ''completion''" by (simp add: completion_receipt_def get_buildReceipt receipt_base_def)
  ultimately show ?thesis
    by (auto simp: evidenced_def dest!: writeReceipt_files)
qed

lemma review_finalize_files:
  assumes "runReviewFinalize env fs o' = Inr (fs', f)"
  shows "receipts_step fs fs' \<and> (fr_completed f \<longrightarrow> evidenced (fe_eng env) fs')"
proof (cases "review_verdict_of o'")
  case None
  then show ?thesis using assms
    by (auto simp: runReviewFinalize_def Let_def review_base_def split: sum.splits intro: receipts_writeReceipt)
next
  case (Some v)
  let ?r = "review_receipt env o' ReviewVerdictFamily (receiptId env ''verdict'' 0) (review_verdict_evidence env o' v)"
  obtain e where "writeReceiptImmutable (fe_eng env) (fe_write env) fs (fo_root o') (fo_sessionId o') ReviewVerdictFamily
      (receiptId env ''verdict'' 0) ?r = Inr (fs', e)" "fr_completed f \<longrightarrow> vo_valid (validateReceipt (fe_eng env) ?r)"
    using assms Some by (auto simp: runReviewFinalize_def Let_def review_base_def split: sum.splits)
  moreover have "get ?r ''family'' = JStr ''review-verdict''" by (simp add: review_receipt_def get_buildReceipt receipt_base_def)
  ultimately show ?thesis by (auto simp: evidenced_def dest!: writeReceipt_files)
qed

lemma runFinalize_files:
  assumes "runFinalize env fs o' = Inr (fs', f)"
  shows "receipts_step fs fs' \<and> (fr_completed f \<longrightarrow> evidenced (fe_eng env) fs')"
proof (cases "fo_reviewOnly o'")
  case True
  then show ?thesis using assms review_finalize_files by (simp add: runFinalize_def)
next
  case False
  then obtain st where v: "run_validations env o' (fc_resolveCommit (fo_checks o')) 0 (fo_validationCommands o') (empty_validation fs) = Inr st"
    and f: "finish_finalize env o' (fc_resolveCommit (fo_checks o')) st = Inr (fs', f)"
    using assms by (auto simp: runFinalize_def Let_def split: sum.splits)
  have "receipts_step fs (va_fs st)" using receipts_run_validations [OF v] by (simp add: empty_validation_def)
  with finish_finalize_files [OF f] receipts_step_trans show ?thesis by blast
qed

text \<open>The events of the operate loop before its end change no session state, and a completed end has its evidence.\<close>

definition plain_event :: "severity \<times> string \<times> jv \<Rightarrow> bool" where
  "plain_event e \<longleftrightarrow> fst (snd e) \<noteq> ''operate_blocked'' \<and> fst (snd e) \<noteq> ''operate_finalized''"

definition op_files :: "harness_fs \<Rightarrow> operate_state \<Rightarrow> bool" where
  "op_files fs st \<longleftrightarrow> receipts_step fs (os_fs st) \<and> list_all plain_event (os_events st)"

lemma op_files_submit: "op_files fs st \<Longrightarrow> op_files fs (op_submit g opts st)"
  by (simp add: op_files_def op_submit_def emit_def trace_def Let_def plain_event_def)

lemma op_files_classified: "op_files fs st \<Longrightarrow> op_files fs (op_classified opts st)"
  by (simp add: op_files_def op_classified_def emit_def trace_def plain_event_def)

lemma op_files_updates [simp]:
  "op_files fs (st\<lparr>os_budget := b\<rparr>) = op_files fs st" "op_files fs (trace a st) = op_files fs st"
  "op_files fs (block x st) = op_files fs st" "op_files fs (st\<lparr>os_lifecycle := l\<rparr>) = op_files fs st"
  by (simp_all add: op_files_def trace_def block_def)

lemma op_files_act: "op_files fs st \<Longrightarrow> (st', brk) = op_act g opts c st \<Longrightarrow> op_files fs st'"
  by (cases c) (auto simp: op_act_def intro!: op_files_submit)

lemma op_files_vanish: "op_files fs st \<Longrightarrow> writeVanish opts ob c st = Inr (st', ok) \<Longrightarrow> op_files fs st'"
  by (auto simp: writeVanish_def Let_def op_files_def emit_def trace_def plain_event_def split: sum.splits
      intro: receipts_step_trans dest!: receipts_writeReceipt)

lemma op_files_iteration:
  assumes "op_files fs st" "op_iteration g opts st = Inr (st', brk)"
  shows "op_files fs st'"
  using assms(2)
proof (cases rule: op_iteration_cases)
  case continue
  then show ?thesis using op_files_classified [OF assms(1)] by simp
next
  case (refused st1)
  then show ?thesis using op_files_vanish [OF op_files_classified [OF assms(1)] refused(4)] by simp
next
  case (vanished st1)
  then show ?thesis using op_files_act [OF op_files_vanish [OF op_files_classified [OF assms(1)] vanished(2)]] by blast
next
  case plain
  then show ?thesis using op_files_act [OF op_files_classified [OF assms(1)]] by blast
qed

lemma op_files_loop: "op_files fs st \<Longrightarrow> op_loop g opts n st = Inr st' \<Longrightarrow> op_files fs st'"
proof (induction n arbitrary: st)
  case (Suc n)
  obtain st1 brk where it: "op_iteration g opts st = Inr (st1, brk)" using Suc.prems by (auto split: sum.splits)
  have "op_files fs st1" by (rule op_files_iteration [OF Suc.prems(1) it])
  with it Suc.prems(2) Suc.IH show ?case by (cases brk) auto
qed simp

lemma run_operate_files:
  assumes "run_operate g opts fs = Inr (fs', es, res)"
  shows "receipts_step fs fs'
    \<and> (\<forall>(sev, k, ev) \<in> set es. k = ''operate_finalized'' \<longrightarrow> get ev ''completed'' = JBool True \<longrightarrow> evidenced (fe_eng (oo_env opts)) fs')
    \<and> (or_lifecycle res = Completed \<longrightarrow> evidenced (fe_eng (oo_env opts)) fs')"
proof -
  define s0 where "s0 = op_submit g opts (emit Info ''operate_started'' (JObj [(''goal'', JStr g)]) (op_start DEFAULT_RETRY_BUDGET fs))"
  define s1 where "s1 = s0\<lparr>os_lifecycle := (if os_accepted s0 then Observing else Submitted)\<rparr>"
  obtain st where r: "operate g DEFAULT_RETRY_BUDGET opts fs = Inr (st, res)" and o': "fs' = os_fs st" "es = os_events st"
    using assms by (cases "operate g DEFAULT_RETRY_BUDGET opts fs") (auto simp: run_operate_def)
  obtain st1 where l: "op_loop g opts (oo_maxIterations opts) s1 = Inr st1" and fin: "op_finish opts st1 = Inr (st, res)"
    using r by (auto simp: operate_def Let_def s0_def s1_def split: sum.splits)
  have "op_files fs (emit Info ''operate_started'' (JObj [(''goal'', JStr g)]) (op_start DEFAULT_RETRY_BUDGET fs))"
    by (simp add: op_files_def emit_def op_start_def plain_event_def)
  then have "op_files fs s1" by (simp add: s1_def s0_def op_files_submit)
  then have st1: "op_files fs st1" using l by (rule op_files_loop)
  then have plain: "(s, ''operate_finalized'', e) \<notin> set (os_events st1)" for s e
    by (auto simp: op_files_def list_all_iff plain_event_def)
  show ?thesis
  proof (cases "os_lifecycle st1 = Finalizing")
    case False
    then have "fs' = os_fs st1" "or_lifecycle res = Blocked" "\<exists>e. es = os_events st1 @ [(Critical, ''operate_blocked'', e)]"
      using fin by (auto simp: op_finish_def Let_def o' emit_def op_result_def split: if_splits)
    then show ?thesis using st1 plain by (auto simp: op_files_def)
  next
    case True
    then obtain f where r: "runFinalize (oo_env opts) (os_fs st1) ((oo_finalize opts)\<lparr>fo_requireTests := True,
          fo_requireCommit := True, fo_requirePr := True, fo_reviewOnly := False\<rparr>) = Inr (fs', f)"
      and "or_lifecycle res = (if fr_completed f then Completed else Blocked)"
      and "\<exists>s. es = os_events st1 @ [(s, ''operate_finalized'',
          JObj [(''completed'', JBool (fr_completed f)), (''blockers'', JArr (map JStr (fr_blockers f)))])]"
      using fin by (auto simp: op_finish_def o' emit_def op_result_def split: sum.splits)
    moreover have "receipts_step fs fs'" using runFinalize_files [OF r] st1 receipts_step_trans unfolding op_files_def by blast
    ultimately show ?thesis using conjunct2 [OF runFinalize_files [OF r]] plain by (auto split: if_splits)
  qed
qed

section \<open>Relations every request respects\<close>

text \<open>The contract of a relation between the owner before and after that holds for what a request is made of: the file
  operations other than appends, the appends at the clock reading \<open>clk\<close>, and the bookkeeping of the pump.\<close>

locale owner_relation = run_relation R for R :: "owner \<Rightarrow> owner \<Rightarrow> bool" +
  fixes oc :: owner_options and clk :: int
  assumes R_files: "files_step (ro_fs ow) fs' \<Longrightarrow> R ow (ow\<lparr>ro_fs := fs'\<rparr>)"
    and R_emit: "wh_clock h = clk \<Longrightarrow> keeps R (emit_event oc h io sev kind ev)"
    and R_pump: "R ow (ow\<lparr>ro_framePump := q\<rparr>)" "R ow (ow\<lparr>ro_coalesced := ks\<rparr>)"
    and R_flags: "R ow (ow\<lparr>ro_framePumpFailure := f\<rparr>)" "R ow (ow\<lparr>ro_stopRequested := b\<rparr>)"
begin

lemma keeps_read: "keeps R (on_read f)"
  by (simp add: keeps_def on_read_def R_refl)

lemma keeps_on_fs:
  assumes "\<And>fs fs' x. f fs = Inr (fs', x) \<Longrightarrow> files_step fs fs'"
  shows "keeps R (on_fs f)"
  unfolding keeps_def on_fs_def using assms R_files R_refl by (auto split: sum.splits)

lemma keeps_store: "keeps R (store_state oc' st)"
  unfolding store_state_def
proof (rule keeps_on_fs)
  fix fs fs' x
  assume "map_sum id (\<lambda>fs'. (fs', ())) (writeSessionState fs (oc_root oc') st) = Inr (fs', x)"
  then show "files_step fs fs'"
    by (cases "writeSessionState fs (oc_root oc') st") (auto intro: files_writeSessionState)
qed

lemma keeps_receipt: "keeps R (write_receipt oc' h fam rid r)"
  unfolding write_receipt_def by (rule keeps_on_fs) (blast intro: receipts_filesD receipts_writeReceipt)

lemma keeps_modify: "(\<And>ow. R ow (f ow)) \<Longrightarrow> keeps R (modify f)"
  by (simp add: keeps_def modify_def)

lemmas keeps_owner = keeps_rules keeps_read keeps_store keeps_receipt keeps_modify R_pump R_flags R_emit

lemma keeps_load: "keeps R (loadState oc' h)"
  unfolding loadState_def by (intro keeps_owner)

lemma keeps_observeGit: "keeps R (observeGit oc' h)"
  unfolding observeGit_def by (intro keeps_owner keeps_load)

lemma keeps_task: "wh_clock h = clk \<Longrightarrow> keeps R (pump_task oc h io m)"
  unfolding pump_task_def flushCoalesced_def emitMapped_def mark_finalizing_def by (intro keeps_owner)

lemma keeps_drain: "wh_clock h = clk \<Longrightarrow> keeps R (drain_pump oc h)"
proof -
  assume c: "wh_clock h = clk"
  have "keeps R (run_tasks oc h n ms)" for n ms
    by (induction ms arbitrary: n) (auto intro!: keeps_owner keeps_task simp: c)
  then show ?thesis unfolding drain_pump_def by (intro keeps_owner)
qed

lemma keeps_frame: "keeps R (handleFrame f)"
  unfolding handleFrame_def by (auto split: sum.splits option.splits intro!: keeps_owner)

lemma keeps_validate_specs: "keeps R (validate_specs oc' h st c n specs)"
  by (induction specs arbitrary: n) (auto intro!: keeps_owner)

lemma keeps_validate: "wh_clock h = clk \<Longrightarrow> keeps R (validate oc h)"
  unfolding validate_def by (intro keeps_owner keeps_load keeps_validate_specs)

lemma keeps_recover: "wh_clock h = clk \<Longrightarrow> keeps R (recover oc h)"
  unfolding recover_def by (intro keeps_owner keeps_load keeps_observeGit)

lemma keeps_finalize: "wh_clock h = clk \<Longrightarrow> keeps R (finalize oc h input)"
  unfolding finalize_def
  by (intro keeps_owner keeps_load keeps_on_fs) (blast intro: receipts_filesD dest: runFinalize_files)+

lemma keeps_submit: "wh_clock h = clk \<Longrightarrow> keeps R (submit oc h input)"
  unfolding submit_def by (intro keeps_owner keeps_load)

lemma keeps_observe: "wh_clock h = clk \<Longrightarrow> keeps R (observe oc h)"
  unfolding observe_def by (intro keeps_owner keeps_load keeps_observeGit keeps_drain)

lemma keeps_retire: "wh_clock h = clk \<Longrightarrow> keeps R (retire oc h)"
  unfolding retire_def by (intro keeps_owner keeps_load)

lemma keeps_operate: "wh_clock h = clk \<Longrightarrow> keeps R (owner_operate oc h input)"
proof -
  assume c: "wh_clock h = clk"
  have "keeps R (emit_all oc h es)" for es
    by (induction es) (auto intro!: keeps_owner keeps_load simp: c emitOperateEvent_def)
  moreover have "keeps R (on_fs (run_operate g opts))" for g opts
    by (rule keeps_on_fs) (metis prod.exhaust receipts_filesD run_operate_files)
  ultimately show ?thesis unfolding owner_operate_def by (intro keeps_owner keeps_load)
qed

lemma spool_clock: "wh_clock (withReceiptSpoolFromInput input h) = wh_clock h"
  by (simp add: withReceiptSpoolFromInput_def Let_def split: option.splits)

lemma keeps_handle: "wh_clock h = clk \<Longrightarrow> keeps R (handle oc h verb input)"
  unfolding handle_def Let_def
  by (intro keeps_owner keeps_validate keeps_recover keeps_finalize keeps_submit keeps_observe keeps_retire keeps_operate)
     (simp_all add: spool_clock)

end

section \<open>The event log has one writer\<close>

definition event_log :: "owner_options \<Rightarrow> owner \<Rightarrow> event_envelope list" where
  "event_log oc ow = (case sessionPaths (oc_root oc) (oc_sessionId oc) of Inl _ \<Rightarrow> [] | Inr p \<Rightarrow> log_of (fs_events (ro_fs ow)) (sp_events p))"

definition lease_of :: "owner_options \<Rightarrow> owner \<Rightarrow> session_lease option" where
  "lease_of oc ow = (case sessionPaths (oc_root oc) (oc_sessionId oc) of Inl _ \<Rightarrow> None | Inr p \<Rightarrow> readLease (ro_lease ow) p)"

definition may_write :: "owner_options \<Rightarrow> int \<Rightarrow> owner \<Rightarrow> bool" where
  "may_write oc clk ow = (case lease_of oc ow of None \<Rightarrow> False | Some l \<Rightarrow> canWriteEvents l (oc_ownerId oc) clk)"

text \<open>The events \<open>new\<close> are what the owner adds between two states: numbered upwards from its cursor, signed with its id and
  lease epoch, and none without the live lease.\<close>

definition own_events :: "owner_options \<Rightarrow> int \<Rightarrow> owner \<Rightarrow> owner \<Rightarrow> event_envelope list \<Rightarrow> bool" where
  "own_events oc clk ow ow' new \<longleftrightarrow>
     sorted_wrt (<) (map ev_cursor new)
   \<and> (\<forall>e \<in> set new. ro_cursor ow < ev_cursor e \<and> ev_cursor e \<le> ro_cursor ow' \<and> ev_writer e = (oc_ownerId oc, ro_leaseEpoch ow))
   \<and> ro_cursor ow \<le> ro_cursor ow'
   \<and> (may_write oc clk ow \<or> new = [] \<and> ro_cursor ow' = ro_cursor ow)"

definition log_rel :: "owner_options \<Rightarrow> int \<Rightarrow> owner \<Rightarrow> owner \<Rightarrow> bool" where
  "log_rel oc clk ow ow' \<longleftrightarrow> (\<exists>new. event_log oc ow' = event_log oc ow @ new \<and> own_events oc clk ow ow' new)
     \<and> ro_leaseEpoch ow' = ro_leaseEpoch ow \<and> ro_lease ow' = ro_lease ow"

lemma may_write_cong: "ro_lease ow' = ro_lease ow \<Longrightarrow> may_write oc clk ow' = may_write oc clk ow"
  by (cases "sessionPaths (oc_root oc) (oc_sessionId oc)") (simp_all add: may_write_def lease_of_def)

lemma own_events_trans:
  assumes "own_events oc clk a b n" "own_events oc clk b c m" "ro_leaseEpoch b = ro_leaseEpoch a" "ro_lease b = ro_lease a"
  shows "own_events oc clk a c (n @ m)"
  using assms may_write_cong [of b a oc clk] unfolding own_events_def by (fastforce simp: sorted_wrt_append)

lemma log_rel_same:
  assumes "fs_events (ro_fs ow') = fs_events (ro_fs ow)" "ro_cursor ow' = ro_cursor ow" "ro_leaseEpoch ow' = ro_leaseEpoch ow"
    "ro_lease ow' = ro_lease ow"
  shows "log_rel oc clk ow ow'"
  unfolding log_rel_def own_events_def using assms by (intro conjI exI [of _ "[]"]) (auto simp: event_log_def split: sum.splits)

lemma emit_event_cases:
  obtains (skip) e where "emit_event oc h io sev kind ev ow = (ow, e)" "\<not> (e = Inr () \<and> may_write oc (wh_clock h) ow)"
  | (failed) msg where "may_write oc (wh_clock h) ow" "io = Some msg"
      "emit_event oc h io sev kind ev ow = (ow\<lparr>ro_cursor := ro_cursor ow + 1\<rparr>, Inl (OwnerMessage msg))"
  | (written) p where "may_write oc (wh_clock h) ow" "io = None" "sessionPaths (oc_root oc) (oc_sessionId oc) = Inr p"
      "emit_event oc h io sev kind ev ow = (ow\<lparr>ro_cursor := ro_cursor ow + 1,
         ro_fs := (ro_fs ow)\<lparr>fs_events := append_log (sp_events p) (envelope oc h sev kind ev p ow) (fs_events (ro_fs ow))\<rparr>\<rparr>, Inr ())"
proof (cases "sessionPaths (oc_root oc) (oc_sessionId oc)")
  case (Inl e)
  then show ?thesis by (intro skip) (auto simp: emit_event_def)
next
  case (Inr p)
  show ?thesis
  proof (cases "may_write oc (wh_clock h) ow")
    case True
    then obtain l where l: "readLease (ro_lease ow) p = Some l" "canWriteEvents l (oc_ownerId oc) (wh_clock h)"
      by (auto simp: may_write_def lease_of_def Inr split: option.splits)
    show ?thesis
    proof (cases io)
      case None
      then show ?thesis using True Inr l
        by (intro written [of p]) (simp_all add: emit_event_def on_fs_def appendEvent_def Let_def)
    next
      case (Some msg)
      then show ?thesis using True Inr l by (intro failed [of msg]) (simp_all add: emit_event_def Let_def)
    qed
  next
    case False
    then show ?thesis using Inr by (intro skip) (auto simp: emit_event_def may_write_def lease_of_def split: option.splits)
  qed
qed

lemma log_rel_emit: "log_rel oc (wh_clock h) ow (fst (emit_event oc h io sev kind ev ow))"
proof (cases rule: emit_event_cases [of oc h io sev kind ev ow])
  case (skip e)
  then show ?thesis by (simp add: log_rel_same)
next
  case (failed msg)
  then show ?thesis unfolding log_rel_def own_events_def
    by (intro conjI exI [of _ "[]"]) (auto simp: event_log_def split: sum.splits)
next
  case (written p)
  then show ?thesis unfolding log_rel_def own_events_def
    by (intro conjI exI [of _ "[envelope oc h sev kind ev p ow]"]) (auto simp: event_log_def envelope_def Let_def split: sum.splits)
qed

interpretation owner_log: owner_relation "log_rel oc clk" oc clk for oc clk
proof (unfold_locales, goal_cases)
  case (2 a b c)
  then obtain n m where "event_log oc b = event_log oc a @ n" "own_events oc clk a b n" "event_log oc c = event_log oc b @ m"
    "own_events oc clk b c m" and e: "ro_leaseEpoch b = ro_leaseEpoch a" "ro_lease b = ro_lease a" "ro_leaseEpoch c = ro_leaseEpoch b"
    "ro_lease c = ro_lease b"
    unfolding log_rel_def by blast
  then have "event_log oc c = event_log oc a @ (n @ m)" "own_events oc clk a c (n @ m)" using own_events_trans by auto
  with e show ?case unfolding log_rel_def by auto
next
  case (4 h io sev kind ev)
  then show ?case unfolding keeps_def using log_rel_emit by metis
qed (simp_all add: log_rel_same files_step_def)

text \<open>C21. The owner is the only writer: whatever the verb and its input, whatever the host answers, and also when the request
  fails half way, a request extends the event log at its end only, by events that are numbered upwards from the
  owner's cursor and signed with its id and lease epoch; it adds none unless the lease file names this owner
  and is not expired; and it never touches the lease.\<close>

theorem owner_single_writer:
  "\<exists>new. event_log oc (fst (handle oc h verb input ow)) = event_log oc ow @ new
     \<and> sorted_wrt (<) (map ev_cursor new)
     \<and> list_all (\<lambda>e. ro_cursor ow < ev_cursor e \<and> ev_cursor e \<le> ro_cursor (fst (handle oc h verb input ow))
                    \<and> ev_writer e = (oc_ownerId oc, ro_leaseEpoch ow)) new
     \<and> (if may_write oc (wh_clock h) ow then True else new = [])
     \<and> ro_lease (fst (handle oc h verb input ow)) = ro_lease ow"
proof -
  have "log_rel oc (wh_clock h) ow (fst (handle oc h verb input ow))"
    using owner_log.keeps_handle [OF refl] unfolding keeps_def by blast
  then show ?thesis unfolding log_rel_def own_events_def list_all_iff by auto
qed

section \<open>The life of an owner\<close>

definition holds_lease :: "owner_options \<Rightarrow> owner \<Rightarrow> bool" where
  "holds_lease oc ow = (case lease_of oc ow of None \<Rightarrow> False | Some l \<Rightarrow> l_ownerId l = oc_ownerId oc)"

datatype owner_label = Request | FrameIn | PumpRun | Beat | Rival

lemma demo_started: obtains ow ep where "startOnce demo_oc demo_host demo_process (demo_owner empty_fs) = (ow, Inr ep)"
proof -
  obtain p where p: "sessionPaths ''/r'' ''s'' = Inr p" by (rule demo_owner_paths)
  then show thesis using that
    by (simp add: startOnce_def demo_oc_def run_defs on_read_def readEvents_def take_lease_def acquireLease_def readLease_def demo_owner_def
        may_take_over_def demo_process_def emit_event_def writeLeaseAtomic_def new_lease_def canWriteEvents_def isExpired_def demo_host_def
        on_fs_def appendEvent_def Let_def js_simps)
qed

text \<open>Requests, frames and heartbeats, among other processes that may take the lease away at any moment, never give it
  back, and append to the log only while this owner does not hold it, numbering on from the end.\<close>

inductive owner_step :: "owner_options \<Rightarrow> js_engine \<Rightarrow> owner \<Rightarrow> owner_label \<Rightarrow> owner \<Rightarrow> bool" for oc eng where
  request: "fe_eng (wh_env h) = eng \<Longrightarrow> handle oc h verb input ow = (ow', r) \<Longrightarrow> owner_step oc eng ow Request ow'"
| frame: "handleFrame f ow = (ow', r) \<Longrightarrow> owner_step oc eng ow FrameIn ow'"
| pump: "fe_eng (wh_env h) = eng \<Longrightarrow> drain_pump oc h ow = (ow', r) \<Longrightarrow> owner_step oc eng ow PumpRun ow'"
| tick: "owner_step oc eng ow Beat (heartbeat_tick now ow)"
| renewal: "ro_heartbeatInFlight ow = pre @ r # post
    \<Longrightarrow> owner_step oc eng ow Beat (settle_renewal oc now (ow\<lparr>ro_heartbeatInFlight := pre @ post\<rparr>))"
| rival_lease: "\<not> holds_lease oc (ow\<lparr>ro_lease := lf\<rparr>) \<Longrightarrow> owner_step oc eng ow Rival (ow\<lparr>ro_lease := lf\<rparr>)"
| rival_event: "\<not> holds_lease oc ow \<Longrightarrow> \<forall>e' \<in> set (event_log oc ow). ev_cursor e' < ev_cursor e
    \<Longrightarrow> appendEvent (ro_fs ow) (oc_root oc) (oc_sessionId oc) e = Inr fs' \<Longrightarrow> owner_step oc eng ow Rival (ow\<lparr>ro_fs := fs'\<rparr>)"

inductive_cases owner_stepE: "owner_step oc eng ow l ow'"

definition log_ok :: "owner_options \<Rightarrow> event_envelope list \<Rightarrow> owner \<Rightarrow> bool" where
  "log_ok oc L ow \<longleftrightarrow> prefix L (event_log oc ow) \<and> sorted_wrt (<) (map ev_cursor (event_log oc ow))
     \<and> (holds_lease oc ow \<longrightarrow> (\<forall>e \<in> set (event_log oc ow). ev_cursor e \<le> ro_cursor ow))"

lemma may_write_holds: "may_write oc clk ow \<Longrightarrow> holds_lease oc ow"
  by (auto simp: may_write_def holds_lease_def canWriteEvents_def split: option.splits)

lemma holds_lease_cong: "ro_lease ow' = ro_lease ow \<Longrightarrow> holds_lease oc ow' = holds_lease oc ow"
  by (cases "sessionPaths (oc_root oc) (oc_sessionId oc)") (simp_all add: holds_lease_def lease_of_def)

lemma event_log_cong: "fs_events (ro_fs ow') = fs_events (ro_fs ow) \<Longrightarrow> event_log oc ow' = event_log oc ow"
  by (cases "sessionPaths (oc_root oc) (oc_sessionId oc)") (simp_all add: event_log_def)

lemma log_ok_rel:
  assumes "log_ok oc L ow" "log_rel oc clk ow ow'"
  shows "log_ok oc L ow'"
proof -
  obtain new where n: "event_log oc ow' = event_log oc ow @ new" "own_events oc clk ow ow' new" "ro_lease ow' = ro_lease ow"
    using assms(2) unfolding log_rel_def by blast
  show ?thesis
  proof (cases "may_write oc clk ow")
    case True
    have "\<forall>e \<in> set (event_log oc ow). ev_cursor e \<le> ro_cursor ow"
      using assms(1) may_write_holds [OF True] by (simp add: log_ok_def)
    then show ?thesis using assms(1) n unfolding log_ok_def own_events_def by (fastforce simp: sorted_wrt_append)
  next
    case False
    then show ?thesis using assms(1) n holds_lease_cong [OF n(3), of oc] by (simp add: log_ok_def own_events_def)
  qed
qed

lemma settle_renewal_simps:
  "ro_fs (settle_renewal oc now ow) = ro_fs ow" "ro_cursor (settle_renewal oc now ow) = ro_cursor ow"
  "holds_lease oc (settle_renewal oc now ow) = holds_lease oc ow"
proof -
  show "ro_fs (settle_renewal oc now ow) = ro_fs ow" "ro_cursor (settle_renewal oc now ow) = ro_cursor ow"
    by (simp_all add: settle_renewal_def split: sum.splits lease_error.splits prod.splits)
  show "holds_lease oc (settle_renewal oc now ow) = holds_lease oc ow"
    by (cases "sessionPaths (oc_root oc) (oc_sessionId oc)")
       (auto simp: settle_renewal_def Harness_Lease.heartbeat_def holds_lease_def lease_of_def readLease_def writeLeaseAtomic_def
          js_simps Let_def split: option.splits)
qed

lemma log_ok_cong:
  assumes "fs_events (ro_fs ow') = fs_events (ro_fs ow)" "ro_cursor ow' = ro_cursor ow" "holds_lease oc ow' = holds_lease oc ow"
  shows "log_ok oc L ow' = log_ok oc L ow"
  using assms(2,3) event_log_cong [OF assms(1), of oc] by (simp add: log_ok_def)

lemma log_ok_step: "log_ok oc L ow \<Longrightarrow> owner_step oc eng ow l ow' \<Longrightarrow> log_ok oc L ow'"
proof (erule owner_stepE, goal_cases)
  case (1 h verb input r)
  then show ?case using owner_log.keeps_handle [OF refl, of oc h verb input] log_ok_rel unfolding keeps_def by (metis fst_conv)
next
  case (2 f r)
  then show ?case using owner_log.keeps_frame [of oc 0 f] log_ok_rel unfolding keeps_def by (metis fst_conv)
next
  case (3 h r)
  then show ?case using owner_log.keeps_drain [OF refl, of oc h] log_ok_rel unfolding keeps_def by (metis fst_conv)
next
  case (4 now)
  have "holds_lease oc (heartbeat_tick now ow) = holds_lease oc ow" by (rule holds_lease_cong) (simp add: heartbeat_tick_def)
  then have "log_ok oc L (heartbeat_tick now ow) = log_ok oc L ow" by (intro log_ok_cong) (simp_all add: heartbeat_tick_def)
  with 4 show ?case by simp
next
  case (5 pre r post now)
  let ?w = "ow\<lparr>ro_heartbeatInFlight := pre @ post\<rparr>"
  have "holds_lease oc ?w = holds_lease oc ow" by (rule holds_lease_cong) simp
  then have "log_ok oc L (settle_renewal oc now ?w) = log_ok oc L ow" by (intro log_ok_cong) (simp_all add: settle_renewal_simps)
  with 5 show ?case by simp
next
  case (6 lf)
  then show ?case using event_log_cong [of "ow\<lparr>ro_lease := lf\<rparr>" ow oc] by (simp add: log_ok_def)
next
  case (7 e fs')
  have nh: "\<not> holds_lease oc (ow\<lparr>ro_fs := fs'\<rparr>)" using 7(4) holds_lease_cong [of "ow\<lparr>ro_fs := fs'\<rparr>" ow oc] by simp
  have "event_log oc (ow\<lparr>ro_fs := fs'\<rparr>) = event_log oc ow @ [e]"
    using 7(6) by (cases "sessionPaths (oc_root oc) (oc_sessionId oc)") (auto simp: event_log_def appendEvent_def)
  with 7 nh show ?case by (auto simp: log_ok_def sorted_wrt_append)
qed

interpretation owner_life: invariant_system "owner_step oc eng" "log_ok oc L" for oc eng L
  by unfold_locales (rule log_ok_step)

lemma foldl_max_le:
  fixes f :: "'a \<Rightarrow> nat"
  shows "m \<le> foldl (\<lambda>m e. max m (f e)) m es \<and> (\<forall>e \<in> set es. f e \<le> foldl (\<lambda>m e. max m (f e)) m es)"
proof (induction es arbitrary: m)
  case (Cons x es)
  from Cons.IH [of "max m (f x)"] show ?case by auto
qed simp

lemma take_lease_holds:
  assumes "take_lease oc h pr p ow = (ow', Inr x)" "sessionPaths (oc_root oc) (oc_sessionId oc) = Inr p"
  shows "holds_lease oc ow'" "ro_fs ow' = ro_fs ow" "ro_cursor ow' = ro_cursor ow"
  using assms
  by (auto simp: take_lease_def acquireLease_def holds_lease_def lease_of_def readLease_def writeLeaseAtomic_def new_lease_def Let_def
      js_simps split: sum.splits if_splits)

lemma startOnce_log_ok:
  assumes "startOnce oc h pr ow0 = (ow, Inr ep)" "sorted_wrt (<) (map ev_cursor (event_log oc ow0))"
  shows "log_ok oc (event_log oc ow0) ow"
proof -
  obtain p where p: "sessionPaths (oc_root oc) (oc_sessionId oc) = Inr p"
    using assms(1) by (cases "sessionPaths (oc_root oc) (oc_sessionId oc)") (auto simp: startOnce_def throw_def)
  define c where "c = foldl (\<lambda>m e. max m (ev_cursor e)) 0 (filter (\<lambda>e. 0 < ev_cursor e) (event_log oc ow0))"
  have r: "on_read (\<lambda>fs. readEvents fs (oc_root oc) (oc_sessionId oc) 0) ow0 = (ow0, Inr (filter (\<lambda>e. 0 < ev_cursor e) (event_log oc ow0)))"
    by (simp add: on_read_def readEvents_def p event_log_def)
  obtain ow2 x where t: "take_lease oc h pr p (ow0\<lparr>ro_cursor := c\<rparr>) = (ow2, Inr x)"
    using assms(1) by (cases "take_lease oc h pr p (ow0\<lparr>ro_cursor := c\<rparr>)", cases "snd (take_lease oc h pr p (ow0\<lparr>ro_cursor := c\<rparr>))")
      (auto simp: startOnce_def p bindr_def r modify_def c_def)
  let ?m = "emit_event oc h None Info ''owner_started'' (JObj [(''ownerId'', JStr (oc_ownerId oc)), (''leaseEpoch'', JNum (of_nat (ro_leaseEpoch ow2)))])"
  have "\<exists>y. ?m ow2 = (fst (?m ow2), Inr y) \<and> ow = (fst (?m ow2))\<lparr>ro_subscribed := op_frames pr\<rparr>"
    using assms(1) t
    by (auto simp: startOnce_def p bindr_def r modify_def gets_def ret_def throw_def c_def [symmetric] split: option.splits prod.splits sum.splits)
  then have ow: "ow = (fst (?m ow2))\<lparr>ro_subscribed := op_frames pr\<rparr>" by blast
  note h2 = take_lease_holds [OF t p]
  have "event_log oc ow2 = event_log oc ow0" by (rule event_log_cong) (simp add: h2)
  moreover have "ev_cursor e \<le> c" if "e \<in> set (event_log oc ow0)" for e
    using that foldl_max_le [of 0 ev_cursor "filter (\<lambda>e. 0 < ev_cursor e) (event_log oc ow0)"] unfolding c_def
    by (cases "ev_cursor e = 0") auto
  ultimately have "log_ok oc (event_log oc ow0) ow2" using assms(2) h2 by (simp add: log_ok_def)
  then have "log_ok oc (event_log oc ow0) (fst (?m ow2))" using log_rel_emit log_ok_rel by blast
  moreover have "holds_lease oc ow = holds_lease oc (fst (?m ow2))" by (rule holds_lease_cong) (simp add: ow)
  ultimately show ?thesis using log_ok_cong [of ow "fst (?m ow2)" oc] by (simp add: ow)
qed



text \<open>The start reads the cursor before it takes the lease. An owner whose cursor is behind the log, because the previous owner
  appended in between, repeats a number.\<close>

lemma stale_cursor_repeats:
  assumes "may_write oc (wh_clock h) ow" "e \<in> set (event_log oc ow)" "ev_cursor e = ro_cursor ow + 1"
    and "emit_event oc h None sev kind ev ow = (ow', r)"
  shows "\<not> distinct (map ev_cursor (event_log oc ow'))"
proof (cases rule: emit_event_cases [of oc h None sev kind ev ow])
  case (skip x)
  then show ?thesis using assms(1) by (auto simp: emit_event_def may_write_def lease_of_def on_fs_def appendEvent_def Let_def
      split: sum.splits option.splits)
next
  case (written p)
  have "event_log oc ow' = event_log oc ow @ [envelope oc h sev kind ev p ow]" using written assms(4) by (auto simp: event_log_def)
  moreover have "ev_cursor (envelope oc h sev kind ev p ow) = ev_cursor e" using assms(3) by (simp add: envelope_def Let_def)
  ultimately show ?thesis using assms(2) by auto
qed simp

end
