(* ===== verification/Owner_Evidence.thy ===== *)
theory Owner_Evidence
  imports Owner_Log
begin

text \<open>
  What the state and the answers of an owner rest on: a session is stored as completed only with a receipt that proves
  it, and an observation that answers ok has persisted every frame before it.
\<close>

section \<open>Completion needs evidence\<close>

definition completion_ok :: "owner_options \<Rightarrow> js_engine \<Rightarrow> owner \<Rightarrow> bool" where
  "completion_ok oc eng ow \<longleftrightarrow>
     (case readSessionState (ro_fs ow) (oc_root oc) (oc_sessionId oc) of
        Inr (Some st) \<Rightarrow> s_lifecycle st = Completed \<longrightarrow> evidenced eng (ro_fs ow)
      | _ \<Rightarrow> True)"

text \<open>The invariant, with the evidence at hand when \<open>c\<close>.\<close>

definition backed :: "owner_options \<Rightarrow> js_engine \<Rightarrow> bool \<Rightarrow> owner \<Rightarrow> bool" where
  "backed oc eng c ow \<longleftrightarrow> completion_ok oc eng ow \<and> (c \<longrightarrow> evidenced eng (ro_fs ow))"

lemma backed_step:
  assumes "backed oc eng c ow" "fs_states (ro_fs ow') = fs_states (ro_fs ow)" "map_of (fs_receipts (ro_fs ow)) \<subseteq>\<^sub>m map_of (fs_receipts (ro_fs ow'))"
  shows "backed oc eng c ow'"
proof -
  have "readSessionState (ro_fs ow') (oc_root oc) (oc_sessionId oc) = readSessionState (ro_fs ow) (oc_root oc) (oc_sessionId oc)"
    by (simp add: readSessionState_def assms(2))
  moreover have "evidenced eng (ro_fs ow) \<Longrightarrow> evidenced eng (ro_fs ow')"
    unfolding evidenced_def using ran_mono [OF assms(3)] by blast
  ultimately show ?thesis using assms(1) by (auto simp: backed_def completion_ok_def split: sum.splits option.splits)
qed

lemma backed_emit: "triple (backed oc eng c) (emit_event oc h io sev kind ev) (\<lambda>_. backed oc eng c) (\<lambda>_. backed oc eng False)"
proof -
  have "backed oc eng c ow \<Longrightarrow> backed oc eng c (fst (emit_event oc h io sev kind ev ow))" for ow
    by (cases rule: emit_event_cases [of oc h io sev kind ev ow]) (auto intro: backed_step)
  then show ?thesis by (intro tripleI) (metis fst_conv, metis backed_def fst_conv)
qed

lemma backed_read: "triple (backed oc eng c) (on_read f) (\<lambda>_. backed oc eng c) (\<lambda>_. backed oc eng False)"
  by (auto simp: triple_def on_read_def backed_def split: sum.splits)

lemma backed_gets: "triple (backed oc eng c) (gets f) (\<lambda>_. backed oc eng c) E"
  by (auto simp: triple_def gets_def)

lemma backed_files:
  assumes "\<And>fs fs' x. f fs = Inr (fs', x) \<Longrightarrow> receipts_step fs fs' \<and> (d x \<longrightarrow> evidenced eng fs')"
  shows "triple (backed oc eng c) (on_fs f) (\<lambda>x. backed oc eng (c \<or> d x)) (\<lambda>_. backed oc eng False)"
proof (rule tripleI)
  fix ow ow' x
  assume b: "backed oc eng c ow" and r: "on_fs f ow = (ow', Inr x)"
  then have f: "f (ro_fs ow) = Inr (ro_fs ow', x)" by (auto simp: on_fs_def split: sum.splits)
  have "backed oc eng c ow'" by (rule backed_step [OF b]) (use assms [OF f] in \<open>simp_all add: receipts_step_def files_step_def\<close>)
  then show "backed oc eng (c \<or> d x) ow'" using assms [OF f] by (auto simp: backed_def)
next
  fix ow ow' e
  assume "backed oc eng c ow" "on_fs f ow = (ow', Inl e)"
  then show "backed oc eng False ow'" by (auto simp: on_fs_def backed_def split: sum.splits)
qed

lemma backed_receipt: "triple (backed oc eng c) (write_receipt oc h fam rid r) (\<lambda>_. backed oc eng c) (\<lambda>_. backed oc eng False)"
  unfolding write_receipt_def by (rule backed_files [where d = "\<lambda>_. False", simplified]) (blast intro: receipts_writeReceipt)

lemma backed_store:
  assumes "s_lifecycle st = Completed \<longrightarrow> c"
  shows "triple (backed oc eng c) (store_state oc st) (\<lambda>_. backed oc eng c) (\<lambda>_. backed oc eng False)"
proof (rule tripleI)
  fix ow ow' x
  assume b: "backed oc eng c ow" and r: "store_state oc st ow = (ow', Inr x)"
  then obtain q where q: "sessionPaths (oc_root oc) (s_sessionId st) = Inr q"
    and ow': "ow' = ow\<lparr>ro_fs := (ro_fs ow)\<lparr>fs_states := AList.update (sp_state q) st (fs_states (ro_fs ow))\<rparr>\<rparr>"
    by (cases "sessionPaths (oc_root oc) (s_sessionId st)") (auto simp: store_state_def on_fs_def writeSessionState_def)
  have e: "evidenced eng (ro_fs ow') = evidenced eng (ro_fs ow)" by (simp add: ow' evidenced_def)
  show "backed oc eng c ow'"
  proof (cases "sessionPaths (oc_root oc) (oc_sessionId oc)")
    case (Inr p)
    then show ?thesis using b e assms
      by (cases "sp_state p = sp_state q") (auto simp: backed_def completion_ok_def readSessionState_def ow' js_simps split: option.splits)
  qed (use b e in \<open>simp add: backed_def completion_ok_def readSessionState_def\<close>)
next
  fix ow ow' e
  assume "backed oc eng c ow" "store_state oc st ow = (ow', Inl e)"
  then show "backed oc eng False ow'" by (auto simp: store_state_def on_fs_def backed_def split: sum.splits)
qed

lemma backed_read_state:
  "triple (backed oc eng c) (on_read (\<lambda>fs. readSessionState fs (oc_root oc) (oc_sessionId oc)))
     (\<lambda>x. backed oc eng (c \<or> (\<exists>st. x = Some st \<and> s_lifecycle st = Completed))) (\<lambda>_. backed oc eng False)"
  by (auto simp: triple_def on_read_def backed_def completion_ok_def split: sum.splits)

lemma reconcile_completed: "reconcileLiveOwnerState now st = (st', b) \<Longrightarrow> s_lifecycle st' = Completed \<longleftrightarrow> s_lifecycle st = Completed"
  by (auto simp: reconcileLiveOwnerState_def Let_def split: if_splits)

lemma backed_ret: "(d \<longrightarrow> c) \<Longrightarrow> triple (backed oc eng c) (ret x) (\<lambda>_. backed oc eng d) E"
  by (auto simp: triple_def ret_def backed_def)

lemma backed_throw: "triple (backed oc eng c) (throw e) Q (\<lambda>_. backed oc eng False)"
  by (auto simp: triple_def throw_def backed_def)

lemma backed_load: "triple (backed oc eng c) (loadState oc h) (\<lambda>st. backed oc eng (c \<or> s_lifecycle st = Completed)) (\<lambda>_. backed oc eng False)"
  unfolding loadState_def
proof (rule triple_bind [OF backed_read_state])
  fix stored :: "session_state option"
  let ?P = "backed oc eng (c \<or> (\<exists>st. stored = Some st \<and> s_lifecycle st = Completed))"
  show "triple ?P (case stored of None \<Rightarrow> throw (OwnerMessage (''session_not_found:'' @ oc_sessionId oc))
       | Some state \<Rightarrow> (case reconcileLiveOwnerState (wh_now h) state of (state', reconciled) \<Rightarrow>
            if reconciled then bindr (store_state oc state') (\<lambda>_. ret state') else ret state))
     (\<lambda>st. backed oc eng (c \<or> s_lifecycle st = Completed)) (\<lambda>_. backed oc eng False)"
  proof (cases stored)
    case None
    then show ?thesis by (simp add: backed_throw)
  next
    case (Some st)
    obtain st' b where r: "reconcileLiveOwnerState (wh_now h) st = (st', b)" by fastforce
    have "triple (backed oc eng (c \<or> s_lifecycle st = Completed)) (bindr (store_state oc st') (\<lambda>_. ret st'))
        (\<lambda>st. backed oc eng (c \<or> s_lifecycle st = Completed)) (\<lambda>_. backed oc eng False)"
      by (rule triple_bind [OF backed_store]) (auto simp: reconcile_completed [OF r] triple_def ret_def)
    then show ?thesis by (cases b) (simp_all add: Some r triple_ret)
  qed
qed

text \<open>The rules by which every request keeps the invariant.\<close>

lemma backed_let: "(\<And>x. triple P (k x) Q E) \<Longrightarrow> triple P (let x = v in k x) Q E"
  by simp

lemma backed_same: "triple (backed oc eng c) (ret x) (\<lambda>_. backed oc eng c) E"
  by (simp add: triple_def ret_def)

lemmas backed_rules = triple_bind triple_if backed_emit backed_read backed_gets backed_receipt backed_load backed_throw backed_same
  backed_ret backed_store

lemma backed_modify:
  assumes "\<And>ow. ro_fs (f ow) = ro_fs ow"
  shows "triple (backed oc eng c) (modify f) (\<lambda>_. backed oc eng c) E"
  by (auto simp: triple_def modify_def assms intro: backed_step)

lemma backed_validate: "triple (backed oc eng False) (validate oc h) (\<lambda>_. backed oc eng False) (\<lambda>_. backed oc eng False)"
proof -
  have specs: "triple (backed oc eng c) (validate_specs oc h st cm n specs) (\<lambda>_. backed oc eng c) (\<lambda>_. backed oc eng False)" for c st cm n specs
  proof (induction specs arbitrary: n)
    case (Cons x xs)
    show ?case unfolding validate_specs.simps Let_def by (rule backed_rules Cons.IH)+
  qed (simp add: backed_same)
  show ?thesis unfolding validate_def Let_def
    by (rule backed_rules specs | simp)+
qed

lemma backed_observeGit: "triple (backed oc eng c) (observeGit oc h) (\<lambda>_. backed oc eng c) (\<lambda>_. backed oc eng False)"
  unfolding observeGit_def by (rule backed_rules | simp)+

lemma recovered_not_completed: "s_lifecycle (recovered_state h st) = Completed \<longrightarrow> s_lifecycle st = Completed"
  by (simp add: recovered_state_def Let_def)

lemma backed_recover: "triple (backed oc eng False) (recover oc h) (\<lambda>_. backed oc eng False) (\<lambda>_. backed oc eng False)"
  unfolding recover_def Let_def
  by (rule backed_rules backed_observeGit | simp add: recovered_not_completed)+

lemma backed_finalize:
  assumes "fe_eng (wh_env h) = eng"
  shows "triple (backed oc eng False) (finalize oc h input) (\<lambda>_. backed oc eng False) (\<lambda>_. backed oc eng False)"
proof -
  have run: "triple (backed oc eng c) (on_fs (\<lambda>fs. runFinalize (wh_env h) fs fo)) (\<lambda>fin. backed oc eng (c \<or> fr_completed fin)) (\<lambda>_. backed oc eng False)"
    for c fo by (rule backed_files) (use runFinalize_files assms in blast)
  show ?thesis unfolding finalize_def Let_def by (rule backed_rules run | simp)+
qed

lemma backed_submit: "triple (backed oc eng False) (submit oc h input) (\<lambda>_. backed oc eng False) (\<lambda>_. backed oc eng False)"
proof -
  have refused: "triple (backed oc eng c) (case v of Some g \<Rightarrow> ret (k g) | None \<Rightarrow> m) (\<lambda>_. backed oc eng False) (\<lambda>_. backed oc eng False)"
    if "triple (backed oc eng c) m (\<lambda>_. backed oc eng False) (\<lambda>_. backed oc eng False)" for c v k and m :: "answer owner_run"
    using that by (cases v) (auto intro: backed_ret)
  show ?thesis unfolding submit_def Let_def
    by (rule backed_rules refused | simp)+
qed

lemma backed_retire: "triple (backed oc eng False) (retire oc h) (\<lambda>_. backed oc eng False) (\<lambda>_. backed oc eng False)"
  unfolding retire_def Let_def by (rule backed_rules backed_modify | simp)+

lemma backed_task: "triple (backed oc eng False) (pump_task oc h io m) (\<lambda>_. backed oc eng False) (\<lambda>_. backed oc eng False)"
proof -
  have opt: "triple (backed oc eng c) (case v of None \<Rightarrow> m | Some x \<Rightarrow> k x) Q E"
    if "triple (backed oc eng c) m Q E" "\<And>x. triple (backed oc eng c) (k x) Q E" for c v Q E k and m :: "unit owner_run"
    using that by (cases v) auto
  have fin: "triple (backed oc eng False) (mark_finalizing oc h io) (\<lambda>_. backed oc eng False) (\<lambda>_. backed oc eng False)"
    unfolding mark_finalizing_def by (rule backed_rules opt | simp)+
  have "triple (backed oc eng False) (bindr (flushCoalesced oc h io) (\<lambda>_. emitMapped oc h io m)) (\<lambda>_. backed oc eng False) (\<lambda>_. backed oc eng False)"
    unfolding flushCoalesced_def emitMapped_def by (rule backed_rules fin backed_modify | simp)+
  then have "triple (backed oc eng False) (tryr (bindr (flushCoalesced oc h io) (\<lambda>_. emitMapped oc h io m)) (\<lambda>e. modify (\<lambda>ow. ow\<lparr>ro_framePumpFailure := Some e\<rparr>)))
      (\<lambda>_. backed oc eng False) (\<lambda>_. backed oc eng False)"
    by (fastforce simp: triple_def tryr_def modify_def split: prod.splits sum.splits intro: backed_step)
  then show ?thesis unfolding pump_task_def by - (rule backed_rules | assumption)+
qed

lemma backed_drain: "triple (backed oc eng False) (drain_pump oc h) (\<lambda>_. backed oc eng False) (\<lambda>_. backed oc eng False)"
proof -
  have "triple (backed oc eng False) (run_tasks oc h n ms) (\<lambda>_. backed oc eng False) (\<lambda>_. backed oc eng False)" for n ms
    by (induction ms arbitrary: n) (auto intro!: triple_bind [OF backed_task] backed_ret)
  then show ?thesis unfolding drain_pump_def by - (rule backed_rules backed_modify | assumption | simp)+
qed

lemma backed_observe: "triple (backed oc eng False) (observe oc h) (\<lambda>_. backed oc eng False) (\<lambda>_. backed oc eng False)"
proof -
  have opt: "triple (backed oc eng c) (case v of Some e \<Rightarrow> ret (k e) | None \<Rightarrow> m) (\<lambda>_. backed oc eng False) (\<lambda>_. backed oc eng False)"
    if "triple (backed oc eng c) m (\<lambda>_. backed oc eng False) (\<lambda>_. backed oc eng False)" for c v k and m :: "answer owner_run"
    using that by (cases v) (auto intro: backed_ret)
  show ?thesis unfolding observe_def Let_def
    by (rule backed_rules backed_drain opt backed_observeGit | simp)+
qed

text \<open>Operate: every event that announces a completion has its evidence in the store already.\<close>

definition done_event :: "severity \<times> string \<times> jv \<Rightarrow> bool" where
  "done_event e \<longleftrightarrow> fst (snd e) = ''operate_finalized'' \<and> get (snd (snd e)) ''completed'' = JBool True"

lemma backed_emit_all:
  "(list_ex done_event es \<longrightarrow> c) \<Longrightarrow> triple (backed oc eng c) (emit_all oc h es) (\<lambda>_. backed oc eng c) (\<lambda>_. backed oc eng False)"
proof (induction es)
  case (Cons e es)
  obtain sev k ev where e: "e = (sev, k, ev)" by (cases e)
  have t: "s_lifecycle (terminal_state h k ev st) = Completed \<longrightarrow> c" for st
    using Cons.prems by (auto simp: terminal_state_def Let_def done_event_def e)
  have strong: "triple (backed oc eng c) (bindr (loadState oc h) (\<lambda>st. store_state oc (terminal_state h k ev st))) (\<lambda>_. backed oc eng c) (\<lambda>_. backed oc eng False)"
  proof (rule triple_bind [OF backed_load])
    fix st
    show "triple (backed oc eng (c \<or> s_lifecycle st = Completed)) (store_state oc (terminal_state h k ev st)) (\<lambda>_. backed oc eng c) (\<lambda>_. backed oc eng False)"
      by (rule triple_conseq [OF backed_store]) (use t in \<open>auto simp: backed_def\<close>)
  qed
  show ?case unfolding emit_all.simps emitOperateEvent_def e prod.case
    using Cons by - (rule backed_rules strong | simp)+
qed (auto intro: backed_ret)

lemma backed_operate:
  assumes "fe_eng (wh_env h) = eng"
  shows "triple (backed oc eng False) (owner_operate oc h input) (\<lambda>_. backed oc eng False) (\<lambda>_. backed oc eng False)"
proof -
  have run: "triple (backed oc eng c) (on_fs (run_operate g (owner_operate_options oc h input st)))
      (\<lambda>x. backed oc eng (c \<or> list_ex done_event (fst x) \<or> or_lifecycle (snd x) = Completed)) (\<lambda>_. backed oc eng False)" for c g st
  proof (rule backed_files)
    fix fs fs' x
    assume r: "run_operate g (owner_operate_options oc h input st) fs = Inr (fs', x)"
    have "oo_env (owner_operate_options oc h input st) = wh_env h" by (simp add: owner_operate_options_def Let_def)
    then show "receipts_step fs fs' \<and> (list_ex done_event (fst x) \<or> or_lifecycle (snd x) = Completed \<longrightarrow> evidenced eng fs')"
      using run_operate_files [of g "owner_operate_options oc h input st" fs fs' "fst x" "snd x"] r assms
      by (auto simp: done_event_def list_ex_iff)
  qed
  show ?thesis unfolding owner_operate_def Let_def case_prod_beta
    by (rule backed_rules run backed_emit_all | simp)+
qed

lemma spool_engine: "fe_eng (wh_env (withReceiptSpoolFromInput input h)) = fe_eng (wh_env h)"
  by (simp add: withReceiptSpoolFromInput_def Let_def split: option.splits)

lemma backed_handle:
  assumes "fe_eng (wh_env h) = eng"
  shows "triple (backed oc eng False) (handle oc h verb input) (\<lambda>_. backed oc eng False) (\<lambda>_. backed oc eng False)"
  unfolding handle_def Let_def
  by (rule backed_rules backed_submit backed_observe backed_retire backed_finalize backed_recover backed_validate backed_operate
      | simp add: spool_engine assms)+

lemma completion_ok_step: "backed oc eng False ow \<Longrightarrow> owner_step oc eng ow l ow' \<Longrightarrow> backed oc eng False ow'"
proof (erule owner_stepE, goal_cases)
  case (1 h verb input r)
  then show ?case using tripleD [OF backed_handle [of h eng oc verb input]] by (cases r) blast+
next
  case (2 f r)
  then have "ro_fs ow' = ro_fs ow"
    by (auto simp: handleFrame_def run_defs split: sum.splits option.splits if_splits)
  with 2 show ?case by (auto intro: backed_step)
next
  case (3 h r)
  then show ?case using tripleD [OF backed_drain [of oc eng h]] by (cases r) blast+
next
  case (4 now)
  then show ?case by (auto simp: heartbeat_tick_def intro: backed_step)
next
  case (5 pre r post now)
  then show ?case by (auto simp: settle_renewal_simps intro: backed_step)
next
  case (7 e fs')
  then show ?case by (cases "sessionPaths (oc_root oc) (oc_sessionId oc)") (auto simp: appendEvent_def intro: backed_step)
qed (auto intro: backed_step)

interpretation owner_evidence: invariant_system "owner_step oc eng" "backed oc eng False" for oc eng
  by unfold_locales (rule completion_ok_step)

text \<open>C3. A session is stored as completed only with its evidence: from an owner whose session is not completed, through any
  requests (submit, observe, validate, recover, finalize, operate, retire), frames, heartbeats and rival owners, in
  any order and whatever the host answers, whenever the stored lifecycle is completed the receipt store holds a
  completion receipt or a review verdict that validates.\<close>

theorem owner_completion_evidenced:
  assumes "steps (owner_step oc eng) ow ls ow'"
    and "readSessionState (ro_fs ow) (oc_root oc) (oc_sessionId oc) = Inr (Some st0)" "s_lifecycle st0 \<noteq> Completed"
    and "readSessionState (ro_fs ow') (oc_root oc) (oc_sessionId oc) = Inr (Some st)" "s_lifecycle st = Completed"
  shows "\<exists>q r. map_of (fs_receipts (ro_fs ow')) q = Some r \<and> vo_valid (validateReceipt eng r)
    \<and> get r ''family'' \<in> {JStr ''completion'', JStr ''review-verdict''}"
proof -
  have "backed oc eng False ow" using assms(2,3) by (simp add: backed_def completion_ok_def)
  then have "backed oc eng False ow'" by (rule owner_evidence.steps_inv [OF assms(1)])
  then show ?thesis using assms(4,5) by (auto simp: backed_def completion_ok_def evidenced_def ran_def)
qed

section \<open>Frames are persisted or their loss is reported\<close>

text \<open>Since \<open>ow0\<close> the events of frames have been logged with the kinds \<open>ks\<close>, in order, besides activity summaries.\<close>

definition logged :: "owner_options \<Rightarrow> int \<Rightarrow> owner \<Rightarrow> string list \<Rightarrow> owner \<Rightarrow> bool" where
  "logged oc clk ow0 ks ow \<longleftrightarrow> may_write oc clk ow
     \<and> (\<exists>new. event_log oc ow = event_log oc ow0 @ new \<and> filter (\<lambda>k. k \<noteq> ''rpc_activity'') (map ev_kind new) = ks)"

definition pumping :: "owner_options \<Rightarrow> int \<Rightarrow> owner \<Rightarrow> string list \<Rightarrow> owner \<Rightarrow> bool" where
  "pumping oc clk ow0 ks ow \<longleftrightarrow> logged oc clk ow0 ks ow \<and> ro_framePumpFailure ow = None"

lemma logged_cong:
  assumes "logged oc clk ow0 ks ow" "fs_events (ro_fs ow') = fs_events (ro_fs ow)" "ro_lease ow' = ro_lease ow"
  shows "logged oc clk ow0 ks ow'"
  using assms(1) event_log_cong [OF assms(2), of oc] may_write_cong [OF assms(3), of oc clk] by (simp add: logged_def)

lemma pumping_emit:
  "triple (pumping oc (wh_clock h) ow0 ks) (emit_event oc h io sev kind ev)
     (\<lambda>_. pumping oc (wh_clock h) ow0 (ks @ (if kind = ''rpc_activity'' then [] else [kind]))) (\<lambda>_. pumping oc (wh_clock h) ow0 ks)"
proof (rule tripleI)
  fix ow ow' x
  assume p: "pumping oc (wh_clock h) ow0 ks ow" and e: "emit_event oc h io sev kind ev ow = (ow', Inr x)"
  show "pumping oc (wh_clock h) ow0 (ks @ (if kind = ''rpc_activity'' then [] else [kind])) ow'"
  proof (cases rule: emit_event_cases [of oc h io sev kind ev ow])
    case (written q)
    let ?ev = "envelope oc h sev kind ev q ow"
    have "event_log oc ow' = event_log oc ow @ [?ev]" "ev_kind ?ev = kind" using written e
      by (auto simp: event_log_def envelope_def Let_def)
    moreover have "may_write oc (wh_clock h) ow'" using may_write_cong [of ow' ow oc "wh_clock h"] written e by auto
    moreover have "ro_framePumpFailure ow' = ro_framePumpFailure ow" using written e by auto
    ultimately show ?thesis using p by (auto simp: pumping_def logged_def)
  qed (use p e in \<open>auto simp: pumping_def logged_def\<close>)
next
  fix ow ow' x
  assume p: "pumping oc (wh_clock h) ow0 ks ow" and e: "emit_event oc h io sev kind ev ow = (ow', Inl x)"
  show "pumping oc (wh_clock h) ow0 ks ow'"
    by (cases rule: emit_event_cases [of oc h io sev kind ev ow]) (use p e in \<open>auto simp: pumping_def intro: logged_cong\<close>)
qed

text \<open>Runs that leave the log, the lease and the failure of the pump alone.\<close>

definition quiet :: "owner \<Rightarrow> owner \<Rightarrow> bool" where
  "quiet ow ow' \<longleftrightarrow> fs_events (ro_fs ow') = fs_events (ro_fs ow) \<and> ro_lease ow' = ro_lease ow \<and> ro_framePumpFailure ow' = ro_framePumpFailure ow"

interpretation quiet: run_relation quiet
  by unfold_locales (simp_all add: quiet_def)

lemma quiet_read: "keeps quiet (on_read f)"
  by (simp add: keeps_def on_read_def quiet_def)

lemma quiet_store: "keeps quiet (store_state oc st)"
  by (cases "sessionPaths (oc_root oc) (s_sessionId st)")
     (simp_all add: keeps_def store_state_def on_fs_def quiet_def writeSessionState_def)

lemma pumping_quiet:
  assumes "keeps quiet m"
  shows "triple (pumping oc clk ow0 ks) m (\<lambda>_. pumping oc clk ow0 ks) (\<lambda>_. pumping oc clk ow0 ks)"
proof -
  have "pumping oc clk ow0 ks ow \<Longrightarrow> m ow = (ow', r) \<Longrightarrow> pumping oc clk ow0 ks ow'" for ow ow' r
    using assms logged_cong unfolding keeps_def quiet_def pumping_def by (metis fst_conv)
  then show ?thesis by (intro tripleI) blast+
qed

lemma quiet_mark: "keeps quiet (mark_finalizing oc h io)"
  unfolding mark_finalizing_def by (intro quiet.keeps_rules quiet_read quiet_store)

lemma pumping_body:
  assumes "wo_kind m \<noteq> ''rpc_activity''"
  shows "triple (pumping oc (wh_clock h) ow0 ks) (bindr (flushCoalesced oc h io) (\<lambda>_. emitMapped oc h io m))
    (\<lambda>_. pumping oc (wh_clock h) ow0 (ks @ [wo_kind m])) (\<lambda>_. pumping oc (wh_clock h) ow0 ks)"
proof -
  have clear: "keeps quiet (modify (\<lambda>ow. ow\<lparr>ro_coalesced := []\<rparr>))" by (simp add: keeps_def modify_def quiet_def)
  have flush: "triple (pumping oc (wh_clock h) ow0 ks) (flushCoalesced oc h io) (\<lambda>_. pumping oc (wh_clock h) ow0 ks) (\<lambda>_. pumping oc (wh_clock h) ow0 ks)"
    unfolding flushCoalesced_def
    by (rule triple_bind triple_if pumping_emit [where kind = "''rpc_activity''", simplified] pumping_quiet quiet.keeps_rules clear)+
  have "triple (pumping oc (wh_clock h) ow0 ks) (emitMapped oc h io m) (\<lambda>_. pumping oc (wh_clock h) ow0 (ks @ [wo_kind m])) (\<lambda>_. pumping oc (wh_clock h) ow0 ks)"
    unfolding emitMapped_def
    by (rule triple_bind, rule pumping_quiet, intro quiet.keeps_rules quiet_mark)
       (use pumping_emit [of oc h ow0 ks "fi_append io" "wo_severity m" "wo_kind m"] assms in simp)
  with flush show ?thesis by (rule triple_bind)
qed

lemma pump_task_result:
  assumes "pumping oc (wh_clock h) ow0 ks ow" "wo_kind m \<noteq> ''rpc_activity''" "pump_task oc h io m ow = (ow', r)"
  shows "r = Inr () \<and> (if ro_framePumpFailure ow' = None then pumping oc (wh_clock h) ow0 (ks @ [wo_kind m]) ow' else logged oc (wh_clock h) ow0 ks ow')"
proof -
  obtain ow1 x where b: "bindr (flushCoalesced oc h io) (\<lambda>_. emitMapped oc h io m) ow = (ow1, x)" by fastforce
  have none: "ro_framePumpFailure ow = None" using assms(1) by (simp add: pumping_def)
  show ?thesis
  proof (cases x)
    case (Inl e)
    then have "ow' = ow1\<lparr>ro_framePumpFailure := Some e\<rparr>" "r = Inr ()"
      using assms(3) b none by (simp_all add: pump_task_def bindr_def [of "gets _"] gets_def tryr_def modify_def)
    moreover have "logged oc (wh_clock h) ow0 ks ow1"
      using tripleD(2) [OF pumping_body [OF assms(2)] assms(1)] b Inl by (simp add: pumping_def)
    ultimately show ?thesis by (auto intro: logged_cong)
  next
    case (Inr u)
    then have "ow' = ow1" "r = Inr ()"
      using assms(3) b none by (simp_all add: pump_task_def bindr_def [of "gets _"] gets_def tryr_def)
    moreover have "pumping oc (wh_clock h) ow0 (ks @ [wo_kind m]) ow1"
      using tripleD(1) [OF pumping_body [OF assms(2)] assms(1)] b Inr by simp
    ultimately show ?thesis by (auto simp: pumping_def)
  qed
qed

lemma run_tasks_failed: "ro_framePumpFailure ow \<noteq> None \<Longrightarrow> run_tasks oc h n ms ow = (ow, Inr ())"
  by (induction ms arbitrary: n) (auto simp: run_defs pump_task_def)

lemma run_tasks_result:
  assumes "pumping oc (wh_clock h) ow0 ks ow" "list_all (\<lambda>m. wo_kind m \<noteq> ''rpc_activity'') ms" "run_tasks oc h n ms ow = (ow', r)"
  shows "r = Inr () \<and> (if ro_framePumpFailure ow' = None then logged oc (wh_clock h) ow0 (ks @ map wo_kind ms) ow'
    else (\<exists>j. logged oc (wh_clock h) ow0 (ks @ map wo_kind (take j ms)) ow'))"
  using assms
proof (induction ms arbitrary: n ks ow)
  case Nil
  then show ?case by (auto simp: ret_def pumping_def)
next
  case (Cons m ms)
  obtain ow1 x where t: "pump_task oc h (wh_frameIo h n) m ow = (ow1, x)" by fastforce
  note res = pump_task_result [OF Cons.prems(1) _ t]
  have x: "x = Inr ()" and rest: "run_tasks oc h (Suc n) ms ow1 = (ow', r)" using res Cons.prems t by (auto simp: bindr_def)
  show ?case
  proof (cases "ro_framePumpFailure ow1")
    case None
    then have "pumping oc (wh_clock h) ow0 (ks @ [wo_kind m]) ow1" using res Cons.prems(2) by simp
    from Cons.IH [OF this _ rest] Cons.prems(2) show ?thesis
      by (auto split: if_splits) (metis append_Cons append_Nil list.simps(9) take_Suc_Cons)
  next
    case (Some e)
    then have "ow' = ow1" "r = Inr ()" "logged oc (wh_clock h) ow0 ks ow1"
      using rest run_tasks_failed [of ow1 oc h "Suc n" ms] res Cons.prems(2) by auto
    then show ?thesis using Some by (auto intro: exI [of _ 0])
  qed
qed

lemma quiet_load: "keeps quiet (loadState oc h)"
  unfolding loadState_def by (intro quiet.keeps_rules quiet_read quiet_store)

lemma quiet_observeGit: "keeps quiet (observeGit oc h)"
  unfolding observeGit_def by (intro quiet.keeps_rules quiet_read quiet_load)

lemma drain_result:
  assumes "may_write oc (wh_clock h) ow" "ro_framePumpFailure ow = None" "list_all (\<lambda>m. wo_kind m \<noteq> ''rpc_activity'') (ro_framePump ow)"
    and "drain_pump oc h ow = (ow', r)"
  shows "r = Inr () \<and> (if ro_framePumpFailure ow' = None then logged oc (wh_clock h) ow (map wo_kind (ro_framePump ow)) ow'
    else (\<exists>j. logged oc (wh_clock h) ow (map wo_kind (take j (ro_framePump ow))) ow'))"
proof -
  let ?w = "ow\<lparr>ro_framePump := []\<rparr>"
  have "event_log oc ?w = event_log oc ow" by (rule event_log_cong) simp
  moreover have "may_write oc (wh_clock h) ?w = may_write oc (wh_clock h) ow" by (rule may_write_cong) simp
  ultimately have p: "pumping oc (wh_clock h) ow [] ?w" using assms(1,2) by (simp add: pumping_def logged_def)
  have "run_tasks oc h 0 (ro_framePump ow) ?w = (ow', r)" using assms(4) by (simp add: drain_pump_def bindr_def gets_def modify_def)
  from run_tasks_result [OF p assms(3) this] show ?thesis unfolding append_Nil by blast
qed

lemma observe_split:
  assumes "observe oc h ow = (ow', Inr a)"
  obtains ow1 u where "drain_pump oc h ow = (ow1, Inr u)" "quiet ow1 ow'"
    "if ro_framePumpFailure ow1 = None then pr_ok a
     else \<not> pr_ok a \<and> v_lifecycle (pr_state a) = Blocked \<and> ''frame-persistence-failed'' \<in> set (v_blockers (pr_state a))"
proof -
  obtain ow1 u where d: "drain_pump oc h ow = (ow1, Inr u)"
    and rest: "bindr (loadState oc h) (\<lambda>state. bindr (gets ro_framePumpFailure) (\<lambda>failed.
       case failed of
         Some e \<Rightarrow>
           let failedState = state\<lparr>s_lifecycle := Blocked, s_blockers := uniq (s_blockers state @ [''frame-persistence-failed''])\<rparr>
           in ret (response failedState (EvPumpFailure (case wh_isLive h of None \<Rightarrow> True | Some b \<Rightarrow> b) e) False None)
       | None \<Rightarrow> bindr (observeGit oc h) (\<lambda>ob. ret (response state (EvObserve ob) True (o_submitUnavailableReason ob))))) ow1 = (ow', Inr a)"
    using assms unfolding observe_def by (rule bindr_Inr)
  from rest obtain ow2 st where l: "loadState oc h ow1 = (ow2, Inr st)" and rest2: "bindr (gets ro_framePumpFailure) (\<lambda>failed.
       case failed of
         Some e \<Rightarrow>
           let failedState = st\<lparr>s_lifecycle := Blocked, s_blockers := uniq (s_blockers st @ [''frame-persistence-failed''])\<rparr>
           in ret (response failedState (EvPumpFailure (case wh_isLive h of None \<Rightarrow> True | Some b \<Rightarrow> b) e) False None)
       | None \<Rightarrow> bindr (observeGit oc h) (\<lambda>ob. ret (response st (EvObserve ob) True (o_submitUnavailableReason ob)))) ow2 = (ow', Inr a)"
    by (rule bindr_Inr)
  have q: "quiet ow1 ow2" using quiet_load [of oc h] l unfolding keeps_def by (metis fst_conv)
  show ?thesis
  proof (cases "ro_framePumpFailure ow2")
    case None
    then obtain ow3 ob where "observeGit oc h ow2 = (ow3, Inr ob)" "ow' = ow3" "pr_ok a"
      using rest2 by (auto simp: bindr_def [of "gets _"] gets_def ret_def response_def elim!: bindr_Inr)
    moreover have "quiet ow2 ow3" using calculation(1) quiet_observeGit [of oc h] unfolding keeps_def by (metis fst_conv)
    ultimately show ?thesis using q None by (intro that [OF d]) (auto simp: quiet_def)
  next
    case (Some e)
    then have "ow' = ow2" "\<not> pr_ok a" "v_lifecycle (pr_state a) = Blocked" "''frame-persistence-failed'' \<in> set (v_blockers (pr_state a))"
      using rest2 by (auto simp: bindr_def gets_def ret_def response_def buildStateView_def Let_def uniq_def)
    moreover have "ro_framePumpFailure ow1 = Some e" using q Some by (simp add: quiet_def)
    ultimately show ?thesis using q by (intro that [OF d]) simp_all
  qed
qed


lemma demo_finalize:
  assumes "sessionPaths ''/r'' ''s'' = Inr p"
  obtains fs' fin where "runFinalize demo_env (empty_fs\<lparr>fs_states := [(sp_state p, demo_state)]\<rparr>) ((demo_options False None)\<lparr>fo_requireTests := True\<rparr>) = Inr (fs', fin)"
    "fr_completed fin"
proof -
  let ?fs = "empty_fs\<lparr>fs_states := [(sp_state p, demo_state)]\<rparr>"
  let ?o = "(demo_options False None)\<lparr>fo_requireTests := True\<rparr>"
  have p: "sessionPaths (fo_root ?o) (fo_sessionId ?o) = Inr p" using assms by (simp add: demo_options_def)
  have ok: "env_ok demo_env ?o" "index_wf p ?fs"
    using demo_env_ok [of False None] by (simp_all add: env_ok_def index_wf_def empty_fs_def log_of_def)
  have "\<exists>fs' fin. runFinalize demo_env ?fs ?o = Inr (fs', fin)"
  proof (rule finalize_returns [OF _ _ _ _ ok])
    show "list_all plain [''r'']" by (simp add: plain_def sep_def)
    show "fresh_ids demo_env p ?fs (length (fo_validationCommands ?o))"
      using demo_fresh [of p False None] by (simp add: fresh_ids_def empty_fs_def)
  qed (use p in \<open>simp_all add: demo_options_def abs_path_def sep_def\<close>)
  then obtain fs' fin where r: "runFinalize demo_env ?fs ?o = Inr (fs', fin)" by blast
  from finalize_result [OF _ ok(1) p ok(2) r] have "fr_completed fin" by (simp add: demo_options_def present_def)
  with r that show ?thesis by blast
qed

theorem owner_completion_evidenced_witness:
  "\<exists>(p :: session_paths) ow' st q r. steps (owner_step demo_oc sample_engine) (demo_owner (empty_fs\<lparr>fs_states := [(sp_state p, demo_state)]\<rparr>)) [Request] ow'
     \<and> readSessionState (ro_fs ow') ''/r'' ''s'' = Inr (Some st) \<and> s_lifecycle st = Completed
     \<and> map_of (fs_receipts (ro_fs ow')) q = Some r \<and> vo_valid (validateReceipt sample_engine r)"
proof -
  obtain p where p: "sessionPaths ''/r'' ''s'' = Inr p" by (rule demo_owner_paths)
  define ow where "ow = demo_owner (empty_fs\<lparr>fs_states := [(sp_state p, demo_state)]\<rparr>)"
  obtain fs' fin where r: "runFinalize demo_env (ro_fs ow) ((demo_options False None)\<lparr>fo_requireTests := True\<rparr>) = Inr (fs', fin)"
    and c: "fr_completed fin" using demo_finalize [OF p] by (auto simp: ow_def demo_owner_def)
  define st where "st = demo_state\<lparr>s_lifecycle := Completed, s_updatedAt := ''t'', s_blockers := s_blockers demo_state\<rparr>"
  define ow' where "ow' = ow\<lparr>ro_fs := fs'\<lparr>fs_states := AList.update (sp_state p) st (fs_states fs')\<rparr>\<rparr>"
  have o': "owner_finalize_options demo_oc demo_host (JObj []) demo_state = (demo_options False None)\<lparr>fo_requireTests := True\<rparr>"
    by (simp add: owner_finalize_options_def demo_oc_def demo_host_def demo_state_def demo_options_def Let_def)
  have load: "loadState demo_oc demo_host ow = (ow, Inr demo_state)"
    by (simp add: loadState_def run_defs on_read_def readSessionState_def demo_oc_def p ow_def demo_owner_def reconcileLiveOwnerState_def demo_state_def)
  have run: "on_fs (\<lambda>fs. runFinalize demo_env fs ((demo_options False None)\<lparr>fo_requireTests := True\<rparr>)) ow = (ow\<lparr>ro_fs := fs'\<rparr>, Inr fin)"
    by (simp add: on_fs_def r)
  have store: "store_state demo_oc st (ow\<lparr>ro_fs := fs'\<rparr>) = (ow', Inr ())"
    by (simp add: store_state_def on_fs_def writeSessionState_def demo_oc_def st_def demo_state_def p ow'_def)
  have emit: "emit_event demo_oc demo_host None sev k e ow' = (ow', Inr ())" for sev k e
    by (simp add: emit_event_def demo_oc_def p readLease_def ow'_def ow_def demo_owner_def)
  have "wh_env demo_host = demo_env" "wh_now demo_host = ''t''" by (simp_all add: demo_host_def)
  then have "finalize demo_oc demo_host (JObj []) ow = (ow', Inr (response st (EvFinalize fin) True None))"
    using c by (simp add: finalize_def load o' run st_def [symmetric] store emit Let_def ret_def)
  then have "\<exists>x. handle demo_oc demo_host ''finalize'' (JObj []) ow = (ow', Inr x)"
    by (simp add: handle_def withReceiptSpoolFromInput_def str_def Let_def ret_def)
  then obtain x where hd: "handle demo_oc demo_host ''finalize'' (JObj []) ow = (ow', Inr x)" by blast
  have "owner_step demo_oc sample_engine ow Request ow'"
    by (rule owner_step.request [OF _ hd]) (simp add: demo_host_def demo_env_def)
  then have t: "steps (owner_step demo_oc sample_engine) ow [Request] ow'" by (rule steps_one)
  have s0: "readSessionState (ro_fs ow) (oc_root demo_oc) (oc_sessionId demo_oc) = Inr (Some demo_state)" "s_lifecycle demo_state \<noteq> Completed"
    by (simp_all add: readSessionState_def demo_oc_def p ow_def demo_owner_def demo_state_def)
  have s1: "readSessionState (ro_fs ow') (oc_root demo_oc) (oc_sessionId demo_oc) = Inr (Some st)" "s_lifecycle st = Completed"
    by (simp_all add: readSessionState_def demo_oc_def p ow'_def st_def js_simps)
  obtain q r where "map_of (fs_receipts (ro_fs ow')) q = Some r" "vo_valid (validateReceipt sample_engine r)"
    using owner_completion_evidenced [OF t s0 s1] by blast
  moreover have "readSessionState (ro_fs ow') ''/r'' ''s'' = Inr (Some st)" using s1 by (simp add: demo_oc_def)
  ultimately show ?thesis using t s1(2) unfolding ow_def by blast
qed


section \<open>Two edges of the requests\<close>

text \<open>A completion by finalize keeps the blockers of an earlier attempt in the state, where operate clears them.\<close>

lemma finalize_keeps_blockers:
  assumes "finalize oc h input ow = (ow', Inr a)" "pr_ok a" "loadState oc h ow = (ow1, Inr st)"
  shows "v_lifecycle (pr_state a) = Completed \<and> v_blockers (pr_state a) = s_blockers st"
  using assms by (auto simp: finalize_def Let_def response_def buildStateView_def ret_def elim!: bindr_Inr)

text \<open>A dirty worktree whose diff could not be stashed gives a vanish receipt that does not validate; recover stores it and
  clears the vanish blockers all the same, where operate stops as blocked.\<close>

lemma recover_receipt_invalid:
  assumes "o_gitDelta ob = Dirty" "wt_diffHead (wh_worktree h 0 (o_cwd ob)) = Some d" "trim d \<noteq> []"
    and "wt_stashCreate (wh_worktree h 0 (o_cwd ob)) = None"
  shows "\<not> vo_valid (validateReceipt (fe_eng (wh_env h)) (recover_receipt oc h ob c))"
proof -
  let ?p = "preserveDirtyWorktree (fe_eng (wh_env h)) (wh_worktree h 0 (o_cwd ob))"
  have "ps_stashRef ?p = None" "\<not> ps_snapshotComplete ?p"
    using assms by (simp_all add: preserveDirtyWorktree_def stash_ref_def Let_def)
  then show ?thesis
    by (simp add: recover_receipt_def Let_def buildReceipt_valid_iff family_reasons_def validateVanish_def protected_delta_def assms(1)
        present_def is_str_def)
qed

lemma recovered_state_unblocked:
  "list_all isOwnerVanishedBlocker (s_blockers st) \<Longrightarrow> s_lifecycle (recovered_state h st) = Observing \<and> s_blockers (recovered_state h st) = []"
  by (simp add: recovered_state_def Let_def list_all_iff filter_empty_conv)

end
