(* ===== verification/Owner_Teardown.thy ===== *)
theory Owner_Teardown
  imports Owner_Log
begin

text \<open>
  The teardown of a runtime owner (\<^verbatim>\<open>RuntimeOwner.stop\<close> and its helpers in \<^verbatim>\<open>owner.ts\<close>). One attempt closes what is still open, in
  a fixed order, and throws what failed; the loop repeats attempts until one succeeds. What the transport, the
  endpoint, the subscription and the lease file answer to an attempt is the record \<open>teardown_io\<close>; \<open>None\<close> is success.

  The promise that concurrent callers of \<^verbatim>\<open>stop\<close> share and the one-shot capability handed to \<^verbatim>\<open>transport.close\<close> concern
  re-entrance only and are not modelled.
\<close>

section \<open>One attempt\<close>

datatype release_fault = LockTimeout | ReleaseFault string

record teardown_io =
  ti_unsubscribe :: "string option"
  ti_transport :: "string option"
  ti_server :: "string option"
  ti_release :: "release_fault option"
  ti_report :: "string option"
  ti_settle :: int
  ti_text :: "owner_error \<Rightarrow> string"

(* coding-agent/src/harness-control-plane/owner.ts:87-94 flattenAggregateCauses *)
function flattenAggregateCauses :: "owner_error list \<Rightarrow> owner_error list" where
  "flattenAggregateCauses [] = []"
| "flattenAggregateCauses (OwnerAggregate es m # rest) = flattenAggregateCauses es @ flattenAggregateCauses rest"
| "flattenAggregateCauses (OwnerMessage m # rest) = OwnerMessage m # flattenAggregateCauses rest"
| "flattenAggregateCauses (OwnerStorage s # rest) = OwnerStorage s # flattenAggregateCauses rest"
| "flattenAggregateCauses (OwnerLease l # rest) = OwnerLease l # flattenAggregateCauses rest"
  by pat_completeness auto
termination by (relation "measure (size_list size)") auto

(* coding-agent/src/harness-control-plane/owner.ts:850-859 reportStopFailure *)
definition reportStopFailure :: "owner_options \<Rightarrow> owner_host \<Rightarrow> teardown_io \<Rightarrow> string \<Rightarrow> owner_error \<Rightarrow> owner_error list owner_run" where
  "reportStopFailure oc h io kind e =
     bindr (gets ro_reportedStopFailures) (\<lambda>reported.
       if kind \<in> set reported then ret []
       else bindr (modify (\<lambda>ow. ow\<lparr>ro_reportedStopFailures := reported @ [kind]\<rparr>)) (\<lambda>_.
         tryr (bindr (emit_event oc h (ti_report io) Critical kind (JObj [(''error'', JStr (ti_text io e))])) (\<lambda>_. ret []))
           (\<lambda>e'. ret [e'])))"

(* coding-agent/src/harness-control-plane/owner.ts:863-867 stopOnce *)
definition recordFailure ::
  "owner_options \<Rightarrow> owner_host \<Rightarrow> teardown_io \<Rightarrow> owner_error list \<Rightarrow> string \<Rightarrow> owner_error \<Rightarrow> owner_error list owner_run"
where
  "recordFailure oc h io failures kind e = bindr (reportStopFailure oc h io kind e) (\<lambda>more. ret (failures @ [e] @ more))"

(* coding-agent/src/harness-control-plane/owner.ts:868-876 stopOnce *)
definition stop_unsubscribe :: "owner_options \<Rightarrow> owner_host \<Rightarrow> teardown_io \<Rightarrow> owner_error list owner_run" where
  "stop_unsubscribe oc h io =
     bindr (gets ro_subscribed) (\<lambda>sub.
       if \<not> sub then ret []
       else (case ti_unsubscribe io of
               None \<Rightarrow> bindr (modify (\<lambda>ow. ow\<lparr>ro_subscribed := False\<rparr>)) (\<lambda>_. ret [])
             | Some m \<Rightarrow> recordFailure oc h io [] ''owner_unsubscribe_failed'' (OwnerMessage m)))"

(* coding-agent/src/harness-control-plane/owner.ts:881-889 stopOnce *)
definition stop_transport :: "owner_options \<Rightarrow> owner_host \<Rightarrow> teardown_io \<Rightarrow> owner_error list \<Rightarrow> owner_error list owner_run" where
  "stop_transport oc h io failures =
     bindr (gets ro_transportClosed) (\<lambda>closed.
       if closed then ret failures
       else (case ti_transport io of
               None \<Rightarrow> bindr (modify (\<lambda>ow. ow\<lparr>ro_transportClosed := True\<rparr>)) (\<lambda>_. ret failures)
             | Some m \<Rightarrow> bindr (recordFailure oc h io failures ''owner_transport_stop_failed'' (OwnerMessage m)) (\<lambda>fs.
                 throw (OwnerAggregate fs ''Runtime owner transport cleanup failed.''))))"

(* coding-agent/src/harness-control-plane/owner.ts:891-899 stopOnce *)
definition stop_server :: "owner_options \<Rightarrow> owner_host \<Rightarrow> teardown_io \<Rightarrow> owner_error list \<Rightarrow> owner_error list owner_run" where
  "stop_server oc h io failures =
     bindr (gets ro_serverClosed) (\<lambda>closed.
       if closed then ret failures
       else (case ti_server io of
               None \<Rightarrow> bindr (modify (\<lambda>ow. ow\<lparr>ro_serverClosed := True\<rparr>)) (\<lambda>_. ret failures)
             | Some m \<Rightarrow> bindr (recordFailure oc h io failures ''owner_server_stop_failed'' (OwnerMessage m)) (\<lambda>fs.
                 throw (OwnerAggregate fs ''Runtime owner endpoint cleanup failed.''))))"

text \<open>Fencing waits for every renewal in flight; each of them still runs against the lease file.\<close>

(* coding-agent/src/harness-control-plane/owner.ts:934-956 fenceHeartbeat *)
definition fenceHeartbeat :: "owner_options \<Rightarrow> int \<Rightarrow> owner \<Rightarrow> owner" where
  "fenceHeartbeat oc now ow =
     fold (\<lambda>_. settle_renewal oc now) (ro_heartbeatInFlight ow)
       (ow\<lparr>ro_heartbeatFenced := True, ro_heartbeatTimer := False, ro_heartbeatInFlight := []\<rparr>)"

(* coding-agent/src/harness-control-plane/session-lease.ts:70-84 withLeaseMutationLock *)
definition release_error :: "string \<Rightarrow> release_fault \<Rightarrow> owner_error" where
  "release_error sid fault =
     (case fault of
        LockTimeout \<Rightarrow> OwnerLease (LeaseError (''lease_lock_timeout:'' @ sid) ''lease_lock_timeout'')
      | ReleaseFault m \<Rightarrow> OwnerMessage m)"

definition try_release :: "owner_options \<Rightarrow> teardown_io \<Rightarrow> lease_fs \<Rightarrow> owner_error + lease_fs" where
  "try_release oc io lf =
     (case ti_release io of
        Some fault \<Rightarrow> Inl (release_error (oc_sessionId oc) fault)
      | None \<Rightarrow> map_sum OwnerLease id (releaseLease lf (oc_root oc) (oc_sessionId oc) (oc_ownerId oc)))"

definition is_not_holder :: "owner_error \<Rightarrow> bool" where
  "is_not_holder e = (case e of OwnerLease (LeaseError _ code) \<Rightarrow> code = ''not_lease_holder'' | _ \<Rightarrow> False)"

(* coding-agent/src/harness-control-plane/owner.ts:909-923 stopOnce *)
definition stop_lease :: "owner_options \<Rightarrow> owner_host \<Rightarrow> teardown_io \<Rightarrow> owner_error list \<Rightarrow> owner_error list owner_run" where
  "stop_lease oc h io failures =
     bindr (gets (\<lambda>ow. (ro_leaseHeld ow, ro_lease ow))) (\<lambda>(held, lf).
       if \<not> held then ret failures
       else (case try_release oc io lf of
               Inr lf' \<Rightarrow> bindr (modify (\<lambda>ow. ow\<lparr>ro_lease := lf', ro_leaseHeld := False\<rparr>)) (\<lambda>_. ret failures)
             | Inl e \<Rightarrow>
                 if is_not_holder e then bindr (modify (\<lambda>ow. ow\<lparr>ro_leaseHeld := False\<rparr>)) (\<lambda>_. ret failures)
                 else bindr (recordFailure oc h io failures ''owner_lease_release_failed'' e) (\<lambda>fs.
                        throw (OwnerAggregate fs ''Runtime owner lease cleanup failed.''))))"

(* coding-agent/src/harness-control-plane/owner.ts:861-932 stopOnce *)
definition stopOnce :: "owner_options \<Rightarrow> owner_host \<Rightarrow> teardown_io \<Rightarrow> unit owner_run" where
  "stopOnce oc h io =
     bindr (stop_unsubscribe oc h io) (\<lambda>f0.
     bindr (drain_pump oc h) (\<lambda>_.
     bindr (stop_transport oc h io f0) (\<lambda>f1.
     bindr (stop_server oc h io f1) (\<lambda>f2.
     bindr (modify (fenceHeartbeat oc (ti_settle io))) (\<lambda>_.
     bindr (stop_lease oc h io f2) (\<lambda>f3.
     bindr (modify (\<lambda>ow. ow\<lparr>ro_heartbeatTimer := False\<rparr>)) (\<lambda>_.
       if f3 \<noteq> [] then throw (OwnerAggregate f3 ''Runtime owner cleanup failed.'') else ret ())))))))"

section \<open>The retry loop\<close>

(* coding-agent/src/harness-control-plane/owner.ts:140-140 MAX_RETAINED_CLEANUP_FAILURES *)
definition MAX_RETAINED_CLEANUP_FAILURES :: nat where
  "MAX_RETAINED_CLEANUP_FAILURES = 32"

(* coding-agent/src/harness-control-plane/owner.ts:835-836 stopUntilVerified *)
definition retain_failure :: "owner_error \<Rightarrow> owner \<Rightarrow> owner" where
  "retain_failure e ow =
     (let old = ro_lastStopFailures ow
      in ow\<lparr>ro_lastStopFailures := (if length old = MAX_RETAINED_CLEANUP_FAILURES then tl old else old) @ [e]\<rparr>)"

text \<open>Attempt \<open>n\<close> meets the host \<open>hs n\<close> and the answers \<open>ios n\<close>. The loop may run forever: it is a computation that may not return.\<close>

(* coding-agent/src/harness-control-plane/owner.ts:823-847 stopUntilVerified *)
partial_function (option) stop_loop ::
  "owner_options \<Rightarrow> (nat \<Rightarrow> owner_host) \<Rightarrow> (nat \<Rightarrow> teardown_io) \<Rightarrow> nat \<Rightarrow> owner \<Rightarrow> (owner \<times> (owner_error + unit)) option"
where
  "stop_loop oc hs ios n ow =
     (case stopOnce oc (hs n) (ios n) ow of
        (ow1, Inr _) \<Rightarrow>
          (case ro_framePumpFailure ow1 of
             None \<Rightarrow> Some (ow1, Inr ())
           | Some e \<Rightarrow> Some (ow1, Inl (OwnerAggregate (e # flattenAggregateCauses (ro_lastStopFailures ow1))
               (''Runtime owner frame pump failed after verified cleanup: '' @ ti_text (ios n) e))))
      | (ow1, Inl e) \<Rightarrow>
          let ow2 = retain_failure e ow1
          in if (case oc_cleanupRetryLimit oc of None \<Rightarrow> False | Some limit \<Rightarrow> limit \<le> n)
             then Some (ow2, Inl (OwnerAggregate ((case ro_framePumpFailure ow2 of None \<Rightarrow> [] | Some f \<Rightarrow> [f])
                    @ flattenAggregateCauses (ro_lastStopFailures ow2)) ''Runtime owner cleanup could not be verified.''))
             else stop_loop oc hs ios (Suc n) ow2)"

(* coding-agent/src/harness-control-plane/owner.ts:820-848 stopUntilVerified *)
definition stopUntilVerified ::
  "owner_options \<Rightarrow> (nat \<Rightarrow> owner_host) \<Rightarrow> (nat \<Rightarrow> teardown_io) \<Rightarrow> owner \<Rightarrow> (owner \<times> (owner_error + unit)) option"
where
  "stopUntilVerified oc hs ios ow = stop_loop oc hs ios 1 (ow\<lparr>ro_lastStopFailures := [], ro_reportedStopFailures := []\<rparr>)"

text \<open>The start rolls back what it acquired when it fails.\<close>

(* coding-agent/src/harness-control-plane/owner.ts:203-223 start *)
definition start ::
  "owner_options \<Rightarrow> owner_host \<Rightarrow> owner_process \<Rightarrow> (nat \<Rightarrow> owner_host) \<Rightarrow> (nat \<Rightarrow> teardown_io) \<Rightarrow> owner \<Rightarrow> (owner \<times> (owner_error + nat)) option"
where
  "start oc h pr hs ios ow =
     (case startOnce oc h pr ow of
        (ow1, Inr ep) \<Rightarrow> Some (ow1, Inr ep)
      | (ow1, Inl startError) \<Rightarrow>
          map_option (\<lambda>(ow2, r). (ow2,
            case r of
              Inl cleanupError \<Rightarrow> Inl (OwnerAggregate (startError # flattenAggregateCauses [cleanupError])
                  ''Runtime owner startup and exact-child rollback failed.'')
            | Inr _ \<Rightarrow> if ro_lastStopFailures ow2 \<noteq> []
                then Inl (OwnerAggregate (startError # flattenAggregateCauses (ro_lastStopFailures ow2))
                  ''Runtime owner startup failed after retrying exact-child rollback.'')
                else Inl startError)) (stopUntilVerified oc hs ios ow1))"


text \<open>The answers of an attempt in which everything closes.\<close>

definition quiet_io :: teardown_io where
  "quiet_io = \<lparr>ti_unsubscribe = None, ti_transport = None, ti_server = None, ti_release = None, ti_report = None, ti_settle = 0,
     ti_text = (\<lambda>_. ''error'')\<rparr>"

section \<open>What an attempt keeps\<close>

text \<open>Everything the owner does besides tearing down leaves the teardown's own bookkeeping and the lease alone.\<close>

definition same_control :: "owner \<Rightarrow> owner \<Rightarrow> bool" where
  "same_control ow ow' \<longleftrightarrow>
     ro_lease ow' = ro_lease ow \<and> ro_leaseHeld ow' = ro_leaseHeld ow \<and> ro_heartbeatTimer ow' = ro_heartbeatTimer ow
   \<and> ro_heartbeatFenced ow' = ro_heartbeatFenced ow \<and> ro_heartbeatInFlight ow' = ro_heartbeatInFlight ow
   \<and> ro_transportClosed ow' = ro_transportClosed ow \<and> ro_serverClosed ow' = ro_serverClosed ow
   \<and> ro_subscribed ow' = ro_subscribed ow \<and> ro_lastStopFailures ow' = ro_lastStopFailures ow"

lemma same_control_emit: "same_control ow (fst (emit_event oc h io sev kind ev ow))"
  by (cases rule: emit_event_cases [of oc h io sev kind ev ow]) (simp_all add: same_control_def)

interpretation owner_control: owner_relation same_control oc clk for oc clk
proof (unfold_locales, goal_cases)
  case (4 h io sev kind ev)
  then show ?case unfolding keeps_def using same_control_emit by metis
qed (simp_all add: same_control_def)

lemma same_control_record: "keeps same_control (recordFailure oc h io failures kind e)"
  unfolding recordFailure_def reportStopFailure_def
  by (intro owner_control.keeps_owner refl) (simp_all add: same_control_def)

text \<open>The owner is quiet when it can no longer act on the session: its child and endpoint are closed, and no renewal is
  running or can start.\<close>

definition quiesced :: "owner \<Rightarrow> bool" where
  "quiesced ow \<longleftrightarrow> ro_transportClosed ow \<and> ro_serverClosed ow \<and> ro_heartbeatFenced ow \<and> \<not> ro_heartbeatTimer ow
     \<and> ro_heartbeatInFlight ow = []"

lemma quiesced_same: "same_control ow ow' \<Longrightarrow> quiesced ow' = quiesced ow"
  by (simp add: same_control_def quiesced_def)

lemma holds_same: "same_control ow ow' \<Longrightarrow> holds_lease oc ow' = holds_lease oc ow"
  by (rule holds_lease_cong) (simp add: same_control_def)

lemma settle_control:
  "ro_leaseHeld (settle_renewal oc now ow) = ro_leaseHeld ow" "ro_subscribed (settle_renewal oc now ow) = ro_subscribed ow"
  "ro_lastStopFailures (settle_renewal oc now ow) = ro_lastStopFailures ow"
  "ro_framePumpFailure (settle_renewal oc now ow) = ro_framePumpFailure ow"
  "ro_transportClosed (settle_renewal oc now ow) = ro_transportClosed ow" "ro_serverClosed (settle_renewal oc now ow) = ro_serverClosed ow"
  "ro_heartbeatFenced (settle_renewal oc now ow) = ro_heartbeatFenced ow" "ro_heartbeatTimer (settle_renewal oc now ow) = ro_heartbeatTimer ow"
  "ro_heartbeatInFlight (settle_renewal oc now ow) = ro_heartbeatInFlight ow"
  by (simp_all add: settle_renewal_def split: sum.splits lease_error.splits prod.splits)

lemma fold_settle:
  "quiesced (fold (\<lambda>_. settle_renewal oc now) rs ow) = quiesced ow
   \<and> ro_leaseHeld (fold (\<lambda>_. settle_renewal oc now) rs ow) = ro_leaseHeld ow
   \<and> ro_subscribed (fold (\<lambda>_. settle_renewal oc now) rs ow) = ro_subscribed ow
   \<and> ro_lastStopFailures (fold (\<lambda>_. settle_renewal oc now) rs ow) = ro_lastStopFailures ow
   \<and> holds_lease oc (fold (\<lambda>_. settle_renewal oc now) rs ow) = holds_lease oc ow"
  by (induction rs arbitrary: ow) (simp_all add: settle_control settle_renewal_simps quiesced_def)

lemma fence_control:
  "ro_leaseHeld (fenceHeartbeat oc now ow) = ro_leaseHeld ow" "ro_subscribed (fenceHeartbeat oc now ow) = ro_subscribed ow"
  "ro_lastStopFailures (fenceHeartbeat oc now ow) = ro_lastStopFailures ow"
  "quiesced (fenceHeartbeat oc now ow) \<longleftrightarrow> ro_transportClosed ow \<and> ro_serverClosed ow"
  "holds_lease oc (fenceHeartbeat oc now ow) = holds_lease oc ow"
proof -
  have "holds_lease oc (ow\<lparr>ro_heartbeatFenced := True, ro_heartbeatTimer := False, ro_heartbeatInFlight := []\<rparr>) = holds_lease oc ow"
    by (rule holds_lease_cong) simp
  then show "holds_lease oc (fenceHeartbeat oc now ow) = holds_lease oc ow" by (simp add: fenceHeartbeat_def fold_settle)
qed (simp_all add: fenceHeartbeat_def fold_settle, simp add: quiesced_def)


text \<open>The stages of an attempt, each on success and on failure.\<close>

lemma record_failure_run:
  obtains ow' fs where "recordFailure oc h io failures kind e ow = (ow', Inr fs)" "fs \<noteq> []" "same_control ow ow'"
proof -
  have "\<exists>fs. snd (recordFailure oc h io failures kind e ow) = Inr fs \<and> fs \<noteq> []"
    by (auto simp: recordFailure_def reportStopFailure_def run_defs split: prod.splits sum.splits)
  then show thesis using that same_control_record [of oc h io failures kind e] unfolding keeps_def by (metis prod.collapse)
qed

lemma unsubscribe_run:
  obtains ow' f0 where "stop_unsubscribe oc h io ow = (ow', Inr f0)"
    "f0 = [] \<and> ow' = ow\<lparr>ro_subscribed := False\<rparr> \<or> f0 \<noteq> [] \<and> same_control ow ow'" "ti_unsubscribe io = None \<Longrightarrow> f0 = []"
proof (cases "ro_subscribed ow")
  case True
  show ?thesis
  proof (cases "ti_unsubscribe io")
    case None
    then show ?thesis using True by (intro that) (auto simp: stop_unsubscribe_def run_defs)
  next
    case (Some m)
    obtain ow' fs where "recordFailure oc h io [] ''owner_unsubscribe_failed'' (OwnerMessage m) ow = (ow', Inr fs)" "fs \<noteq> []" "same_control ow ow'"
      by (rule record_failure_run)
    then show ?thesis using True Some by (intro that) (auto simp: stop_unsubscribe_def bindr_def gets_def)
  qed
next
  case False
  then show ?thesis by (intro that [of ow "[]"]) (auto simp: stop_unsubscribe_def run_defs)
qed

lemma drain_run:
  obtains ow' where "drain_pump oc h ow = (ow', Inr ())" "same_control ow ow'"
proof -
  have t: "\<exists>ow'. pump_task oc h io m ow = (ow', Inr ())" for io m ow
    by (auto simp: pump_task_def run_defs split: prod.splits sum.splits)
  have "\<exists>ow'. run_tasks oc h n ms ow = (ow', Inr ())" for n ms ow
  proof (induction ms arbitrary: n ow)
    case (Cons m ms)
    obtain ow1 where "pump_task oc h (wh_frameIo h n) m ow = (ow1, Inr ())" using t by blast
    then show ?case using Cons by simp
  qed (simp add: ret_def)
  then obtain ow' where "drain_pump oc h ow = (ow', Inr ())" by (simp add: drain_pump_def run_defs) blast
  moreover from this have "same_control ow ow'" using owner_control.keeps_drain [OF refl, of oc h] unfolding keeps_def by (metis fst_conv)
  ultimately show thesis by (rule that)
qed

lemma transport_run:
  obtains (closed) "stop_transport oc h io f ow = (ow\<lparr>ro_transportClosed := True\<rparr>, Inr f)"
  | (failed) ow' e where "stop_transport oc h io f ow = (ow', Inl e)" "same_control ow ow'" "ti_transport io \<noteq> None" "\<not> ro_transportClosed ow"
proof (cases "ro_transportClosed ow \<or> ti_transport io = None")
  case True
  then show ?thesis by (intro closed) (cases ow, auto simp: stop_transport_def run_defs)
next
  case False
  then obtain m where m: "ti_transport io = Some m" by auto
  obtain ow' fs where "recordFailure oc h io f ''owner_transport_stop_failed'' (OwnerMessage m) ow = (ow', Inr fs)" "same_control ow ow'"
    by (rule record_failure_run)
  then show ?thesis using False m by (intro failed) (auto simp: stop_transport_def bindr_def gets_def throw_def)
qed

lemma server_run:
  obtains (closed) "stop_server oc h io f ow = (ow\<lparr>ro_serverClosed := True\<rparr>, Inr f)"
  | (failed) ow' e where "stop_server oc h io f ow = (ow', Inl e)" "same_control ow ow'" "ti_server io \<noteq> None" "\<not> ro_serverClosed ow"
proof (cases "ro_serverClosed ow \<or> ti_server io = None")
  case True
  then show ?thesis by (intro closed) (cases ow, auto simp: stop_server_def run_defs)
next
  case False
  then obtain m where m: "ti_server io = Some m" by auto
  obtain ow' fs where "recordFailure oc h io f ''owner_server_stop_failed'' (OwnerMessage m) ow = (ow', Inr fs)" "same_control ow ow'"
    by (rule record_failure_run)
  then show ?thesis using False m by (intro failed) (auto simp: stop_server_def bindr_def gets_def throw_def)
qed

lemma try_release_cases:
  assumes "\<not> is_not_holder e"
  shows "try_release oc io lf = Inl e \<Longrightarrow> sessionPaths (oc_root oc) (oc_sessionId oc) = Inr p \<Longrightarrow> ti_release io \<noteq> None"
  using assms by (auto simp: try_release_def releaseLease_def is_not_holder_def split: option.splits if_splits)

lemma try_release_gone:
  "try_release oc io (ro_lease ow) = Inr lf \<Longrightarrow> \<not> holds_lease oc (ow\<lparr>ro_lease := lf\<rparr>)"
  "try_release oc io (ro_lease ow) = Inl e \<Longrightarrow> is_not_holder e \<Longrightarrow> \<not> holds_lease oc ow"
  by (auto simp: try_release_def releaseLease_def is_not_holder_def release_error_def holds_lease_def lease_of_def readLease_def
      removeLease_def js_simps split: option.splits if_splits sum.splits release_fault.splits)

text \<open>The last stage on a lease that is held, and on one that is not.\<close>

lemma lease_run:
  obtains (released) ow' where "stop_lease oc h io f ow = (ow', Inr f)" "\<not> ro_leaseHeld ow'" "quiesced ow' = quiesced ow"
      "ro_subscribed ow' = ro_subscribed ow" "ro_lastStopFailures ow' = ro_lastStopFailures ow"
      "if ro_leaseHeld ow then \<not> holds_lease oc ow' else ow' = ow"
  | (failed) ow' e where "stop_lease oc h io f ow = (ow', Inl e)" "same_control ow ow'" "ro_leaseHeld ow"
      "(\<forall>p. sessionPaths (oc_root oc) (oc_sessionId oc) \<noteq> Inr p) \<or> ti_release io \<noteq> None"
proof (cases "ro_leaseHeld ow")
  case False
  then show ?thesis by (intro released [of ow]) (auto simp: stop_lease_def run_defs)
next
  case held: True
  show ?thesis
  proof (cases "try_release oc io (ro_lease ow)")
    case (Inr lf)
    have "holds_lease oc (ow\<lparr>ro_lease := lf, ro_leaseHeld := False\<rparr>) = holds_lease oc (ow\<lparr>ro_lease := lf\<rparr>)" by (rule holds_lease_cong) simp
    then show ?thesis using held Inr try_release_gone(1)
      by (intro released [of "ow\<lparr>ro_lease := lf, ro_leaseHeld := False\<rparr>"]) (auto simp: stop_lease_def run_defs quiesced_def)
  next
    case (Inl e)
    show ?thesis
    proof (cases "is_not_holder e")
      case True
      have "holds_lease oc (ow\<lparr>ro_leaseHeld := False\<rparr>) = holds_lease oc ow" by (rule holds_lease_cong) simp
      then show ?thesis using held Inl True try_release_gone(2)
        by (intro released [of "ow\<lparr>ro_leaseHeld := False\<rparr>"]) (auto simp: stop_lease_def run_defs quiesced_def)
    next
      case False
      obtain ow' fs where "recordFailure oc h io f ''owner_lease_release_failed'' e ow = (ow', Inr fs)" "same_control ow ow'"
        by (rule record_failure_run)
      then show ?thesis using held Inl False try_release_cases [OF False Inl]
        by (intro failed) (auto simp: stop_lease_def bindr_def gets_def throw_def)
    qed
  qed
qed


section \<open>One attempt as a whole\<close>

text \<open>What every attempt keeps, however it ends: quiet owners stay quiet, and the lease is given up by quiet owners only.\<close>

definition handover :: "owner_options \<Rightarrow> owner \<Rightarrow> owner \<Rightarrow> bool" where
  "handover oc ow ow' \<longleftrightarrow>
     (quiesced ow \<longrightarrow> quiesced ow')
   \<and> (ro_leaseHeld ow \<longrightarrow> ro_leaseHeld ow' \<or> quiesced ow' \<and> \<not> holds_lease oc ow')
   \<and> (\<not> ro_leaseHeld ow \<longrightarrow> \<not> ro_leaseHeld ow')
   \<and> (holds_lease oc ow \<longrightarrow> holds_lease oc ow' \<or> quiesced ow')
   \<and> (\<not> holds_lease oc ow \<longrightarrow> \<not> holds_lease oc ow')
   \<and> ro_lastStopFailures ow' = ro_lastStopFailures ow"

lemma handover_same: "same_control ow ow' \<Longrightarrow> handover oc ow ow'"
  using quiesced_same [of ow ow'] holds_same [of ow ow' oc] by (simp add: handover_def) (simp add: same_control_def)

lemma handover_trans: "handover oc a b \<Longrightarrow> handover oc b c \<Longrightarrow> handover oc a c"
  unfolding handover_def by metis

lemma handover_updates:
  "handover oc ow (ow\<lparr>ro_subscribed := b\<rparr>)" "handover oc ow (ow\<lparr>ro_transportClosed := True\<rparr>)"
  "handover oc ow (ow\<lparr>ro_serverClosed := True\<rparr>)" "handover oc ow (ow\<lparr>ro_heartbeatTimer := False\<rparr>)"
proof -
  have "holds_lease oc (ow\<lparr>ro_subscribed := b\<rparr>) = holds_lease oc ow" "holds_lease oc (ow\<lparr>ro_transportClosed := True\<rparr>) = holds_lease oc ow"
    "holds_lease oc (ow\<lparr>ro_serverClosed := True\<rparr>) = holds_lease oc ow" "holds_lease oc (ow\<lparr>ro_heartbeatTimer := False\<rparr>) = holds_lease oc ow"
    by (rule holds_lease_cong, simp)+
  then show "handover oc ow (ow\<lparr>ro_subscribed := b\<rparr>)" "handover oc ow (ow\<lparr>ro_transportClosed := True\<rparr>)"
    "handover oc ow (ow\<lparr>ro_serverClosed := True\<rparr>)" "handover oc ow (ow\<lparr>ro_heartbeatTimer := False\<rparr>)"
    by (simp_all add: handover_def quiesced_def)
qed

lemma handover_fence: "handover oc ow (fenceHeartbeat oc now ow)"
  by (simp add: handover_def fence_control quiesced_def [of ow])

text \<open>The attempt after both closures: it succeeds exactly when the lease is given up and nothing failed before.\<close>

lemma final_stages:
  assumes "ro_transportClosed ow" "ro_serverClosed ow"
    and "m = bindr (modify (fenceHeartbeat oc now)) (\<lambda>_. bindr (stop_lease oc h io f) (\<lambda>f3.
      bindr (modify (\<lambda>ow. ow\<lparr>ro_heartbeatTimer := False\<rparr>)) (\<lambda>_. if f3 \<noteq> [] then throw (err f3) else ret ())))"
  obtains (verified) ow' where "m ow = (ow', if f = [] then Inr () else Inl (err f))" "handover oc ow ow'" "quiesced ow'" "\<not> ro_leaseHeld ow'"
      "ro_subscribed ow' = ro_subscribed ow"
  | (failed) ow' e where "m ow = (ow', Inl e)" "handover oc ow ow'"
      "(\<forall>p. sessionPaths (oc_root oc) (oc_sessionId oc) \<noteq> Inr p) \<or> ti_release io \<noteq> None"
proof -
  let ?w = "fenceHeartbeat oc now ow"
  have q: "quiesced ?w" using assms(1,2) by (simp add: fence_control)
  show ?thesis
  proof (cases rule: lease_run [of oc h io f ?w, case_names released failed])
    case (released ow')
    let ?x = "ow'\<lparr>ro_heartbeatTimer := False\<rparr>"
    have "handover oc ?w ow'" using released q by (auto simp: handover_def split: if_splits)
    then have "handover oc ow ?x" using handover_fence handover_updates(4) handover_trans by metis
    then show ?thesis using released q
      by (intro that(1) [of ?x]) (auto simp: assms(3) bindr_def modify_def throw_def ret_def quiesced_def fence_control)
  next
    case (failed ow' e)
    have "handover oc ow ow'" using handover_fence handover_same [OF failed(2)] handover_trans by metis
    then show ?thesis using failed by (intro that(2) [of ow' e]) (auto simp: assms(3) bindr_def modify_def)
  qed
qed

lemma stopOnce_run:
  obtains (verified) ow' where "stopOnce oc h io ow = (ow', Inr ())" "handover oc ow ow'" "quiesced ow'" "\<not> ro_leaseHeld ow'" "\<not> ro_subscribed ow'"
  | (failed) ow' e where "stopOnce oc h io ow = (ow', Inl e)" "handover oc ow ow'"
      "(\<forall>p. sessionPaths (oc_root oc) (oc_sessionId oc) \<noteq> Inr p) \<or> ti_release io \<noteq> None \<or> ti_unsubscribe io \<noteq> None
       \<or> ti_transport io \<noteq> None \<or> ti_server io \<noteq> None"
proof -
  obtain a f0 where a: "stop_unsubscribe oc h io ow = (a, Inr f0)" "ti_unsubscribe io = None \<Longrightarrow> f0 = []"
    and a': "f0 = [] \<and> a = ow\<lparr>ro_subscribed := False\<rparr> \<or> f0 \<noteq> [] \<and> same_control ow a"
    using unsubscribe_run [of oc h io ow] by metis
  obtain b where b: "drain_pump oc h a = (b, Inr ())" "same_control a b" by (rule drain_run)
  have ob: "handover oc ow b" using a' b(2) handover_updates(1) handover_same handover_trans by metis
  have sb: "f0 = [] \<Longrightarrow> \<not> ro_subscribed b" using a' b(2) by (auto simp: same_control_def)
  show ?thesis
  proof (cases rule: transport_run [of oc h io f0 b, case_names closed failed])
    case (failed c e)
    then show ?thesis using a b(1) ob handover_same handover_trans by (intro that(2) [of c e]) (auto simp: stopOnce_def)
  next
    case tc: closed
    let ?c = "b\<lparr>ro_transportClosed := True\<rparr>"
    have oc: "handover oc ow ?c" using ob handover_updates(2) handover_trans by metis
    show ?thesis
    proof (cases rule: server_run [of oc h io f0 ?c, case_names closed failed])
      case (failed d e)
      then show ?thesis using a b(1) tc oc handover_same handover_trans by (intro that(2) [of d e]) (auto simp: stopOnce_def)
    next
      case sc: closed
      let ?d = "?c\<lparr>ro_serverClosed := True\<rparr>"
      have od: "handover oc ow ?d" using oc handover_updates(3) handover_trans by metis
      define m where "m = bindr (modify (fenceHeartbeat oc (ti_settle io))) (\<lambda>_. bindr (stop_lease oc h io f0) (\<lambda>f3.
        bindr (modify (\<lambda>ow. ow\<lparr>ro_heartbeatTimer := False\<rparr>)) (\<lambda>_.
          if f3 \<noteq> [] then throw (OwnerAggregate f3 ''Runtime owner cleanup failed.'') else ret ())))"
      have run: "stopOnce oc h io ow = m ?d" using a(1) b(1) tc sc by (simp add: stopOnce_def m_def)
      show ?thesis
      proof (cases rule: final_stages [OF _ _ m_def, of ?d, case_names closed server verified failed])
        case (verified e)
        have oe: "handover oc ow e" using od verified(2) by (rule handover_trans)
        show ?thesis
        proof (cases "f0 = []")
          case True
          then show ?thesis using run verified oe sb by (intro that(1) [of e]) auto
        next
          case False
          then show ?thesis using run verified(1) oe a(2) by (intro that(2) [of e]) auto
        qed
      next
        case (failed e x)
        then show ?thesis using run handover_trans [OF od failed(2)] by (intro that(2) [of e]) auto
      qed auto
    qed
  qed
qed


section \<open>The teardown among everything else\<close>

datatype teardown_label = Own owner_label | Attempt

text \<open>Attempts at any moment, with any answers, between anything the owner and its rivals do.\<close>

inductive teardown_step :: "owner_options \<Rightarrow> js_engine \<Rightarrow> owner \<Rightarrow> teardown_label \<Rightarrow> owner \<Rightarrow> bool" for oc eng where
  own: "owner_step oc eng ow l ow' \<Longrightarrow> teardown_step oc eng ow (Own l) ow'"
| verified: "stopOnce oc h io ow = (ow', Inr u) \<Longrightarrow> teardown_step oc eng ow Attempt ow'"
| unverified: "stopOnce oc h io ow = (ow', Inl e) \<Longrightarrow> teardown_step oc eng ow Attempt (retain_failure e ow')"

inductive_cases teardown_stepE: "teardown_step oc eng ow l ow'"

definition handed_over :: "owner \<Rightarrow> bool" where
  "handed_over ow \<longleftrightarrow> ro_leaseHeld ow \<or> quiesced ow"

lemma retain_control:
  "quiesced (retain_failure e ow) = quiesced ow" "ro_leaseHeld (retain_failure e ow) = ro_leaseHeld ow"
  "holds_lease oc (retain_failure e ow) = holds_lease oc ow"
proof -
  show "holds_lease oc (retain_failure e ow) = holds_lease oc ow" by (rule holds_lease_cong) (simp add: retain_failure_def Let_def)
qed (simp_all add: retain_failure_def Let_def quiesced_def)

lemma stopOnce_handover: "stopOnce oc h io ow = (ow', r) \<Longrightarrow> handover oc ow ow'"
  by (cases rule: stopOnce_run [of oc h io ow]) auto

text \<open>Ordinary steps start no renewal once the owner is quiet, and never give up the lease.\<close>

lemma owner_step_control:
  assumes "owner_step oc eng ow l ow'"
  shows "ro_leaseHeld ow' = ro_leaseHeld ow" "quiesced ow \<Longrightarrow> quiesced ow'" "l \<noteq> Rival \<Longrightarrow> holds_lease oc ow' = holds_lease oc ow"
proof -
  have same: "same_control ow ow' \<Longrightarrow> ro_leaseHeld ow' = ro_leaseHeld ow \<and> (quiesced ow \<longrightarrow> quiesced ow') \<and> holds_lease oc ow' = holds_lease oc ow"
    using quiesced_same [of ow ow'] holds_same [of ow ow' oc] by (simp add: same_control_def)
  have "ro_leaseHeld ow' = ro_leaseHeld ow \<and> (quiesced ow \<longrightarrow> quiesced ow') \<and> (l \<noteq> Rival \<longrightarrow> holds_lease oc ow' = holds_lease oc ow)"
    using assms
  proof (cases rule: owner_step.cases)
    case (request h verb input r)
    then show ?thesis using same owner_control.keeps_handle [OF refl, of oc h verb input] unfolding keeps_def by (metis fst_conv)
  next
    case (frame f r)
    then show ?thesis using same owner_control.keeps_frame [of f] unfolding keeps_def by (metis fst_conv)
  next
    case (pump h r)
    then show ?thesis using same owner_control.keeps_drain [OF refl, of oc h] unfolding keeps_def by (metis fst_conv)
  next
    case (tick now)
    have "holds_lease oc ow' = holds_lease oc ow" using tick by (intro holds_lease_cong) (simp add: heartbeat_tick_def)
    then show ?thesis using tick by (auto simp: heartbeat_tick_def quiesced_def)
  next
    case (renewal pre r post now)
    have "holds_lease oc (ow\<lparr>ro_heartbeatInFlight := pre @ post\<rparr>) = holds_lease oc ow" by (rule holds_lease_cong) simp
    then show ?thesis using renewal by (simp add: settle_control settle_renewal_simps quiesced_def)
  qed (simp_all add: quiesced_def)
  then show "ro_leaseHeld ow' = ro_leaseHeld ow" "quiesced ow \<Longrightarrow> quiesced ow'" "l \<noteq> Rival \<Longrightarrow> holds_lease oc ow' = holds_lease oc ow"
    by blast+
qed

lemma teardown_step_control:
  assumes "teardown_step oc eng ow l ow'"
  shows "quiesced ow \<Longrightarrow> quiesced ow'" "ro_leaseHeld ow \<Longrightarrow> ro_leaseHeld ow' \<or> quiesced ow'"
    "l \<noteq> Own Rival \<Longrightarrow> holds_lease oc ow \<Longrightarrow> holds_lease oc ow' \<or> quiesced ow'"
proof -
  have "(quiesced ow \<longrightarrow> quiesced ow') \<and> (ro_leaseHeld ow \<longrightarrow> ro_leaseHeld ow' \<or> quiesced ow')
    \<and> (l \<noteq> Own Rival \<longrightarrow> holds_lease oc ow \<longrightarrow> holds_lease oc ow' \<or> quiesced ow')"
    using assms
  proof (cases rule: teardown_step.cases)
    case (own l')
    then show ?thesis using owner_step_control [OF own(2)] by blast
  next
    case (verified h io u)
    then show ?thesis using stopOnce_handover [OF verified(2)] by (auto simp: handover_def)
  next
    case (unverified h io w e)
    then show ?thesis using stopOnce_handover [OF unverified(3)] by (auto simp: handover_def retain_control)
  qed
  then show "quiesced ow \<Longrightarrow> quiesced ow'" "ro_leaseHeld ow \<Longrightarrow> ro_leaseHeld ow' \<or> quiesced ow'"
    "l \<noteq> Own Rival \<Longrightarrow> holds_lease oc ow \<Longrightarrow> holds_lease oc ow' \<or> quiesced ow'" by blast+
qed

lemma handed_over_step: "handed_over ow \<Longrightarrow> teardown_step oc eng ow l ow' \<Longrightarrow> handed_over ow'"
  unfolding handed_over_def using teardown_step_control by blast

interpretation teardown_life: invariant_system "teardown_step oc eng" handed_over for oc eng
  by unfold_locales (rule handed_over_step)

text \<open>Without a rival, the lease file names the owner until the owner is quiet.\<close>

definition own_teardown_step :: "owner_options \<Rightarrow> js_engine \<Rightarrow> owner \<Rightarrow> teardown_label \<Rightarrow> owner \<Rightarrow> bool" where
  "own_teardown_step oc eng ow l ow' \<longleftrightarrow> teardown_step oc eng ow l ow' \<and> l \<noteq> Own Rival"

lemma guarded_step:
  "holds_lease oc ow \<or> quiesced ow \<Longrightarrow> own_teardown_step oc eng ow l ow' \<Longrightarrow> holds_lease oc ow' \<or> quiesced ow'"
  unfolding own_teardown_step_def using teardown_step_control by blast

interpretation guarded_life: invariant_system "own_teardown_step oc eng" "\<lambda>ow. holds_lease oc ow \<or> quiesced ow" for oc eng
  by unfold_locales (rule guarded_step)


lemma steps_restrict: "steps step s ls t \<Longrightarrow> x \<notin> set ls \<Longrightarrow> steps (\<lambda>s l t. step s l t \<and> l \<noteq> x) s ls t"
  by (induction rule: steps.induct) (auto intro: steps.intros)

text \<open>Where a start stops early it has acquired nothing; otherwise it holds the lease.\<close>

lemma startOnce_control:
  assumes "startOnce oc h pr ow0 = (ow, r)"
  shows "ro_leaseHeld ow \<and> holds_lease oc ow \<or> same_control ow0 ow" "r = Inr ep \<Longrightarrow> ro_leaseHeld ow \<and> holds_lease oc ow"
proof -
  have "ro_leaseHeld ow \<and> holds_lease oc ow \<or> (\<exists>e. r = Inl e) \<and> same_control ow0 ow"
  proof (cases "sessionPaths (oc_root oc) (oc_sessionId oc)")
    case (Inl e)
    then show ?thesis using assms by (auto simp: startOnce_def throw_def same_control_def)
  next
    case (Inr p)
    obtain es where r: "on_read (\<lambda>fs. readEvents fs (oc_root oc) (oc_sessionId oc) 0) ow0 = (ow0, Inr es)"
      by (simp add: on_read_def readEvents_def Inr)
    let ?w = "ow0\<lparr>ro_cursor := foldl (\<lambda>m e. max m (ev_cursor e)) 0 es\<rparr>"
    obtain w1 t where t: "take_lease oc h pr p ?w = (w1, t)" by fastforce
    show ?thesis
    proof (cases t)
      case (Inl e)
      have "w1 = ?w" using t Inl by (auto simp: take_lease_def split: sum.splits)
      then show ?thesis using assms t Inl by (auto simp: startOnce_def \<open>sessionPaths _ _ = Inr p\<close> bindr_def r modify_def same_control_def)
    next
      case (Inr x)
      have held: "ro_leaseHeld w1" using t Inr by (auto simp: take_lease_def split: sum.splits)
      have "holds_lease oc w1" using t Inr \<open>sessionPaths _ _ = Inr p\<close> take_lease_holds by blast
      have "\<exists>w2. same_control w1 w2 \<and> (ow = w2 \<or> (\<exists>b. ow = w2\<lparr>ro_subscribed := b\<rparr>))"
        using assms t Inr same_control_emit [of w1 oc h None Info "''owner_started''"
          "JObj [(''ownerId'', JStr (oc_ownerId oc)), (''leaseEpoch'', JNum (of_nat (ro_leaseEpoch w1)))]"]
        by (auto simp: startOnce_def \<open>sessionPaths _ _ = Inr p\<close> bindr_def r modify_def gets_def ret_def throw_def same_control_def
            split: option.splits prod.splits sum.splits)
      then obtain w2 where w2: "same_control w1 w2" "ro_lease ow = ro_lease w2" "ro_leaseHeld ow = ro_leaseHeld w2" by auto
      then show ?thesis using held \<open>holds_lease oc w1\<close> holds_same [OF w2(1), of oc] holds_lease_cong [OF w2(2), of oc]
        by (simp add: same_control_def)
    qed
  qed
  then show "ro_leaseHeld ow \<and> holds_lease oc ow \<or> same_control ow0 ow" "r = Inr ep \<Longrightarrow> ro_leaseHeld ow \<and> holds_lease oc ow" by auto
qed



section \<open>The loop returns, and only when everything is released\<close>

definition released :: "owner_options \<Rightarrow> owner \<Rightarrow> bool" where
  "released oc ow \<longleftrightarrow> quiesced ow \<and> \<not> ro_leaseHeld ow \<and> \<not> ro_subscribed ow \<and> \<not> holds_lease oc ow
     \<and> length (ro_lastStopFailures ow) \<le> MAX_RETAINED_CLEANUP_FAILURES"

definition tearing_down :: "owner_options \<Rightarrow> owner \<Rightarrow> bool" where
  "tearing_down oc ow \<longleftrightarrow> (ro_leaseHeld ow \<or> \<not> holds_lease oc ow) \<and> length (ro_lastStopFailures ow) \<le> MAX_RETAINED_CLEANUP_FAILURES"

lemma tearing_down_retain: "tearing_down oc ow \<Longrightarrow> handover oc ow ow' \<Longrightarrow> tearing_down oc (retain_failure e ow')"
  by (auto simp: tearing_down_def handover_def retain_control) (auto simp: retain_failure_def Let_def MAX_RETAINED_CLEANUP_FAILURES_def)

lemma tearing_down_verified:
  "tearing_down oc ow \<Longrightarrow> handover oc ow ow' \<Longrightarrow> quiesced ow' \<Longrightarrow> \<not> ro_leaseHeld ow' \<Longrightarrow> \<not> ro_subscribed ow' \<Longrightarrow> released oc ow'"
  by (auto simp: tearing_down_def handover_def released_def)

lemma loop_only_released:
  assumes "stop_loop oc hs ios n ow = Some res" "oc_cleanupRetryLimit oc = None" "tearing_down oc ow"
  shows "released oc (fst res) \<and> (snd res = Inr () \<longleftrightarrow> ro_framePumpFailure (fst res) = None)"
proof -
  have "oc_cleanupRetryLimit oc = None \<longrightarrow> tearing_down oc ow \<longrightarrow> released oc (fst res) \<and> (snd res = Inr () \<longleftrightarrow> ro_framePumpFailure (fst res) = None)"
  proof (rule stop_loop.raw_induct [OF _ assms(1)], intro impI)
    fix rec oc hs ios n ow and res :: "owner \<times> (owner_error + unit)"
    assume IH: "\<And>oc hs ios n ow res. rec oc hs ios n ow = Some res
        \<Longrightarrow> oc_cleanupRetryLimit oc = None \<longrightarrow> tearing_down oc ow \<longrightarrow> released oc (fst res) \<and> (snd res = Inr () \<longleftrightarrow> ro_framePumpFailure (fst res) = None)"
      and body: "(case stopOnce oc (hs n) (ios n) ow of
        (ow1, Inl e) \<Rightarrow> let ow2 = retain_failure e ow1
          in if (case oc_cleanupRetryLimit oc of None \<Rightarrow> False | Some limit \<Rightarrow> limit \<le> n)
             then Some (ow2, Inl (OwnerAggregate ((case ro_framePumpFailure ow2 of None \<Rightarrow> [] | Some f \<Rightarrow> [f])
                    @ flattenAggregateCauses (ro_lastStopFailures ow2)) ''Runtime owner cleanup could not be verified.''))
             else rec oc hs ios (Suc n) ow2
      | (ow1, Inr _) \<Rightarrow>
          (case ro_framePumpFailure ow1 of
             None \<Rightarrow> Some (ow1, Inr ())
           | Some e \<Rightarrow> Some (ow1, Inl (OwnerAggregate (e # flattenAggregateCauses (ro_lastStopFailures ow1))
               (''Runtime owner frame pump failed after verified cleanup: '' @ ti_text (ios n) e))))) = Some res"
      and l: "oc_cleanupRetryLimit oc = None" and t: "tearing_down oc ow"
    show "released oc (fst res) \<and> (snd res = Inr () \<longleftrightarrow> ro_framePumpFailure (fst res) = None)"
    proof (cases rule: stopOnce_run [of oc "hs n" "ios n" ow, case_names verified failed])
      case (verified ow')
      have "fst res = ow' \<and> (snd res = Inr () \<longleftrightarrow> ro_framePumpFailure ow' = None)"
        using body [unfolded verified(1)] by (cases "ro_framePumpFailure ow'") auto
      then show ?thesis using verified tearing_down_verified [OF t] by simp
    next
      case (failed ow' e)
      then show ?thesis using body l IH tearing_down_retain [OF t failed(2)] by (auto simp: Let_def)
    qed
  qed
  with assms(2,3) show ?thesis by simp
qed

lemma loop_returns:
  assumes "sessionPaths (oc_root oc) (oc_sessionId oc) = Inr p" "ti_unsubscribe (ios n) = None" "ti_transport (ios n) = None"
    "ti_server (ios n) = None" "ti_release (ios n) = None" "k \<le> n"
  shows "stop_loop oc hs ios k ow \<noteq> None"
  using assms(6)
proof (induction "n - k" arbitrary: k ow)
  case 0
  then have "k = n" by simp
  then show ?case using assms(1-5)
    by (cases rule: stopOnce_run [of oc "hs n" "ios n" ow]) (auto simp: stop_loop.simps [of oc hs ios n ow] split: option.splits)
next
  case (Suc m)
  then have IH: "stop_loop oc hs ios (Suc k) w \<noteq> None" for w by simp
  show ?case
    by (cases rule: stopOnce_run [of oc "hs k" "ios k" ow])
       (simp_all add: stop_loop.simps [of oc hs ios k ow] Let_def IH del: not_None_eq split: option.splits)
qed

lemma stop_start: "ro_leaseHeld ow \<or> \<not> holds_lease oc ow \<Longrightarrow> tearing_down oc (ow\<lparr>ro_lastStopFailures := [], ro_reportedStopFailures := []\<rparr>)"
  using holds_lease_cong [of "ow\<lparr>ro_lastStopFailures := [], ro_reportedStopFailures := []\<rparr>" ow oc] by (simp add: tearing_down_def)


text \<open>C23. Teardown cannot be abandoned half way: with production's unlimited retries, as soon as one attempt meets a child, an
  endpoint, a subscription and a lease lock that answer, the loop returns, whatever failed before; then everything is
  released, at most 32 failures are retained, and the only error it can report is that of the frame pump.\<close>

theorem stop_returns_released:
  assumes "sessionPaths (oc_root oc) (oc_sessionId oc) = Inr p" "oc_cleanupRetryLimit oc = None" "ro_leaseHeld ow \<or> \<not> holds_lease oc ow"
    and "1 \<le> n" "ti_unsubscribe (ios n) = None" "ti_transport (ios n) = None" "ti_server (ios n) = None" "ti_release (ios n) = None"
  shows "\<exists>ow' r. stopUntilVerified oc hs ios ow = Some (ow', r) \<and> released oc ow' \<and> (r = Inr () \<longleftrightarrow> ro_framePumpFailure ow' = None)"
proof -
  let ?w = "ow\<lparr>ro_lastStopFailures := [], ro_reportedStopFailures := []\<rparr>"
  obtain ow' r where r: "stop_loop oc hs ios 1 ?w = Some (ow', r)"
    using loop_returns [where ios = ios and n = n and k = 1] assms by fastforce
  then show ?thesis using loop_only_released [OF r assms(2) stop_start [OF assms(3)]] by (simp add: stopUntilVerified_def)
qed

theorem stop_returns_released_witness:
  "\<exists>ow' r. stopUntilVerified demo_oc (\<lambda>_. demo_host)
      (\<lambda>n. if n < 3 then quiet_io\<lparr>ti_transport := Some ''busy''\<rparr> else quiet_io) (demo_owner empty_fs) = Some (ow', r) \<and> released demo_oc ow'"
proof -
  obtain p where p: "sessionPaths ''/r'' ''s'' = Inr p" by (rule demo_owner_paths)
  have "\<not> holds_lease demo_oc (demo_owner empty_fs)"
    by (simp add: holds_lease_def lease_of_def demo_oc_def p demo_owner_def readLease_def)
  then show ?thesis
    using stop_returns_released [of demo_oc p "demo_owner empty_fs" 3 "\<lambda>n. if n < 3 then quiet_io\<lparr>ti_transport := Some ''busy''\<rparr> else quiet_io"
        "\<lambda>_. demo_host"] p by (auto simp: demo_oc_def quiet_io_def)
qed

text \<open>C24. A failed start leaves nothing behind: when it returns its error, which leads with the error of the start itself, the
  child, the endpoint, the subscription and the lease have been released, wherever the start failed.\<close>

theorem failed_start_rolled_back:
  assumes "start oc h pr hs ios ow = Some (ow', Inl e)" "oc_cleanupRetryLimit oc = None" "ro_leaseHeld ow \<or> \<not> holds_lease oc ow"
  shows "released oc ow' \<and> (\<exists>s es m. snd (startOnce oc h pr ow) = Inl s \<and> (e = s \<or> e = OwnerAggregate (s # es) m))"
proof -
  obtain w s where w: "startOnce oc h pr ow = (w, Inl s)"
    using assms(1) by (auto simp: start_def split: prod.splits sum.splits)
  obtain r where r: "stopUntilVerified oc hs ios w = Some (ow', r)"
    using assms(1) w by (cases "stopUntilVerified oc hs ios w") (auto simp: start_def)
  then have e: "e = s \<or> (\<exists>es m. e = OwnerAggregate (s # es) m)"
    using assms(1) w by (cases r) (auto simp: start_def split: if_splits)
  have "ro_leaseHeld w \<or> \<not> holds_lease oc w"
    using startOnce_control(1) [OF w] assms(3) holds_same [of ow w oc] by (auto simp: same_control_def)
  then have "released oc ow'" using loop_only_released [OF _ assms(2) stop_start, of hs ios 1 w "(ow', r)"] r
    by (simp add: stopUntilVerified_def)
  then show ?thesis using w e by auto
qed

theorem failed_start_rolled_back_witness:
  "\<exists>ow' e. start demo_oc demo_host (demo_process\<lparr>op_listen := Some ''EADDRINUSE''\<rparr>) (\<lambda>_. demo_host) (\<lambda>_. quiet_io) (demo_owner empty_fs)
     = Some (ow', Inl e) \<and> released demo_oc ow'"
proof -
  obtain p where p: "sessionPaths ''/r'' ''s'' = Inr p" by (rule demo_owner_paths)
  let ?pr = "demo_process\<lparr>op_listen := Some ''EADDRINUSE''\<rparr>"
  have n: "\<not> holds_lease demo_oc (demo_owner empty_fs)"
    by (simp add: holds_lease_def lease_of_def demo_oc_def p demo_owner_def readLease_def)
  obtain w where w: "startOnce demo_oc demo_host ?pr (demo_owner empty_fs) = (w, Inl (OwnerMessage ''EADDRINUSE''))"
    by (simp add: startOnce_def demo_oc_def p run_defs on_read_def readEvents_def take_lease_def acquireLease_def readLease_def demo_owner_def
        may_take_over_def demo_process_def Let_def)
  obtain ow' r where "stopUntilVerified demo_oc (\<lambda>_. demo_host) (\<lambda>_. quiet_io) w = Some (ow', r)"
    using loop_returns [of demo_oc p "\<lambda>_. quiet_io" 1 1] p by (fastforce simp: stopUntilVerified_def demo_oc_def quiet_io_def)
  then obtain e where e: "start demo_oc demo_host ?pr (\<lambda>_. demo_host) (\<lambda>_. quiet_io) (demo_owner empty_fs) = Some (ow', Inl e)"
    using w by (cases r; cases "ro_lastStopFailures ow' = []") (auto simp: start_def)
  from failed_start_rolled_back [OF e] n e show ?thesis by (auto simp: demo_oc_def)
qed

end
