(* ===== verification/Goal_Runtime.thy ===== *)
theory Goal_Runtime
  imports JS_Values
begin

text \<open>
  Goal mode: the stored goal (\<^verbatim>\<open>goals/state.ts\<close>), the runtime that accounts tokens and time to the active goal
  (\<^verbatim>\<open>goals/runtime.ts\<close>) and the guard that holds continuations after repeated tool timeouts
  (\<^verbatim>\<open>goals/continuation-timeout-guard.ts\<close>).

  The runtime serialises its operations (\<^verbatim>\<open>#withAccounting\<close>), so an operation is one step. The host's answers during an
  operation are \<open>goal_env\<close>: the clock in milliseconds, the usage counters and the next identifier; an operation
  runs at one instant. What the runtime persists and emits is recorded in order. An operation that throws after it has
  flushed usage keeps the flush, so every operation returns the new runtime beside its result.
\<close>

section \<open>Stored goals\<close>

(* coding-agent/src/goals/state.ts:3-3 GoalStatus *)
datatype goal_status = GActive | GPaused | GComplete | GDropped

(* coding-agent/src/goals/state.ts:3-3 GoalStatus *)
fun goal_status_name :: "goal_status \<Rightarrow> string" where
  "goal_status_name GActive = ''active''"
| "goal_status_name GPaused = ''paused''"
| "goal_status_name GComplete = ''complete''"
| "goal_status_name GDropped = ''dropped''"

(* coding-agent/src/goals/state.ts:5-5 GoalProvenance *)
datatype goal_provenance = Ultragoal string string | UserGoal

(* coding-agent/src/goals/state.ts:7-16 Goal *)
record goal =
  g_id :: string
  g_objective :: string
  g_status :: goal_status
  g_tokensUsed :: rat
  g_timeUsedSeconds :: rat
  g_createdAt :: rat
  g_updatedAt :: rat
  g_provenance :: "goal_provenance option"

datatype goal_mode = ModeActive | ModeExiting

(* coding-agent/src/goals/state.ts:18-23 GoalModeState *)
record goal_mode_state =
  gm_enabled :: bool
  gm_mode :: goal_mode
  gm_completed :: bool
  gm_goal :: goal

(* coding-agent/src/goals/state.ts:33-33 GoalTokenUsage *)
record goal_usage =
  gu_input :: rat
  gu_output :: rat
  gu_cacheRead :: rat
  gu_cacheWrite :: rat

text \<open>Reading a stored goal. Numbers are finite, as in every JSON text; the retired status \<^verbatim>\<open>budget-limited\<close> reads as
  active.\<close>

(* coding-agent/src/goals/state.ts:49-52 normalizeGoal *)
definition read_goal_status :: "string \<Rightarrow> goal_status option" where
  "read_goal_status s =
     (if s = ''budget-limited'' \<or> s = ''active'' then Some GActive
      else if s = ''paused'' then Some GPaused
      else if s = ''complete'' then Some GComplete
      else if s = ''dropped'' then Some GDropped
      else None)"

text \<open>\<open>None\<close> rejects the goal, \<open>Some None\<close> is a goal without provenance.\<close>

(* coding-agent/src/goals/state.ts:53-65 normalizeGoal *)
definition read_goal_provenance :: "jv \<Rightarrow> goal_provenance option option" where
  "read_goal_provenance v =
     (if v = JUndef then Some None
      else if get v ''source'' = JStr ''ultragoal''
      then (case (get v ''runId'', get v ''goalId'') of
              (JStr r, JStr g) \<Rightarrow> Some (Some (Ultragoal r g))
            | _ \<Rightarrow> None)
      else if get v ''source'' = JStr ''user'' then Some (Some UserGoal)
      else None)"

(* coding-agent/src/goals/state.ts:35-77 normalizeGoal *)
definition normalizeGoal :: "jv \<Rightarrow> goal option" where
  "normalizeGoal v =
     (case (get v ''id'', get v ''objective'', get v ''status'', get v ''tokensUsed'', get v ''timeUsedSeconds'',
            get v ''createdAt'', get v ''updatedAt'') of
        (JStr i, JStr ob, JStr s, JNum t, JNum w, JNum c, JNum u) \<Rightarrow>
          (case (read_goal_status s, read_goal_provenance (get v ''provenance'')) of
             (Some st, Some p) \<Rightarrow>
               Some \<lparr>g_id = i, g_objective = ob, g_status = st, g_tokensUsed = t, g_timeUsedSeconds = w,
                     g_createdAt = c, g_updatedAt = u, g_provenance = p\<rparr>
           | _ \<Rightarrow> None)
      | _ \<Rightarrow> None)"

text \<open>The value a typed goal is at run time.\<close>

definition provenance_value :: "goal_provenance \<Rightarrow> jv" where
  "provenance_value p = (case p of
     Ultragoal r g \<Rightarrow> JObj [(''source'', JStr ''ultragoal''), (''runId'', JStr r), (''goalId'', JStr g)]
   | UserGoal \<Rightarrow> JObj [(''source'', JStr ''user'')])"

definition goal_value :: "goal \<Rightarrow> jv" where
  "goal_value g = JObj
     ([(''id'', JStr (g_id g)), (''objective'', JStr (g_objective g)), (''status'', JStr (goal_status_name (g_status g))),
       (''tokensUsed'', JNum (g_tokensUsed g)), (''timeUsedSeconds'', JNum (g_timeUsedSeconds g)),
       (''createdAt'', JNum (g_createdAt g)), (''updatedAt'', JNum (g_updatedAt g))]
      @ (case g_provenance g of None \<Rightarrow> [] | Some p \<Rightarrow> [(''provenance'', provenance_value p)]))"

(* coding-agent/src/goals/state.ts:79-84 normalizeGoalModeState *)
definition normalizeGoalModeState :: "goal_mode_state option \<Rightarrow> goal_mode_state option" where
  "normalizeGoalModeState candidate =
     (case candidate of
        None \<Rightarrow> None
      | Some c \<Rightarrow> (case normalizeGoal (goal_value (gm_goal c)) of
          None \<Rightarrow> None
        | Some g \<Rightarrow> Some (c\<lparr>gm_goal := g\<rparr>)))"

section \<open>Objectives and prompts\<close>

text \<open>The scan for the first character to escape, then the escaping of the rest.\<close>

(* coding-agent/src/goals/runtime.ts:66-69 escapeXmlText *)
definition escape_char :: "char \<Rightarrow> string" where
  "escape_char c =
     (if c = CHR ''&'' then ''&amp;'' else if c = CHR ''<'' then ''&lt;'' else if c = CHR ''>'' then ''&gt;'' else [c])"

(* coding-agent/src/goals/runtime.ts:53-60 escapeXmlText *)
fun first_escapable :: "string \<Rightarrow> nat option" where
  "first_escapable [] = None"
| "first_escapable (c # cs) =
     (if of_char c = (38 :: nat) \<or> of_char c = (60 :: nat) \<or> of_char c = (62 :: nat) then Some 0
      else map_option Suc (first_escapable cs))"

(* coding-agent/src/goals/runtime.ts:52-72 escapeXmlText *)
definition escapeXmlText :: "string \<Rightarrow> string" where
  "escapeXmlText input =
     (case first_escapable input of
        None \<Rightarrow> input
      | Some k \<Rightarrow> foldl (\<lambda>out c. out @ escape_char c) (take k input) (drop k input))"

(* coding-agent/src/goals/runtime.ts:74-76 renderTrustedObjective *)
definition renderTrustedObjective :: "string \<Rightarrow> string" where
  "renderTrustedObjective objective =
     ''<objective>'' @ [CHR 0x0A] @ escapeXmlText objective @ [CHR 0x0A] @ ''</objective>''"

(* coding-agent/src/goals/runtime.ts:78-85 validateGoalObjective *)
definition validateGoalObjective :: "string \<Rightarrow> string \<Rightarrow> (string, string) outcome" where
  "validateGoalObjective objective op =
     (let trimmed = trim objective
      in if trimmed = [] then Inl (''objective is required when op='' @ op)
         else if trimmed = ''/goal''
         then Inl ''objective must describe the goal; `/goal` is the command name, not a goal objective''
         else Inr trimmed)"

(* coding-agent/src/goals/runtime.ts:87-98 goalTokenDelta *)
definition goalTokenDelta :: "goal_usage \<Rightarrow> goal_usage \<Rightarrow> rat" where
  "goalTokenDelta current baseline =
     max 0 (gu_input current - gu_input baseline) + max 0 (gu_cacheWrite current - gu_cacheWrite baseline)
     + max 0 (gu_output current - gu_output baseline)"

section \<open>The runtime\<close>

(* coding-agent/src/goals/runtime.ts:26-30 GoalTurnSnapshot *)
record goal_turn =
  ts_turnId :: string
  ts_baseline :: goal_usage
  ts_goal :: "string option"

(* coding-agent/src/goals/runtime.ts:32-35 GoalWallClockSnapshot *)
record goal_clock =
  wc_last :: rat
  wc_goal :: "string option"

datatype persist_mode = PersistGoal | PersistPaused | PersistNone

record goal_runtime =
  rt_state :: "goal_mode_state option"
  rt_turn :: "goal_turn option"
  rt_clock :: goal_clock
  rt_persisted :: "(persist_mode \<times> goal_mode_state option) list"
  rt_events :: "(goal option \<times> goal_mode_state option) list"

record goal_env =
  ge_now :: rat
  ge_usage :: goal_usage
  ge_newId :: string

(* coding-agent/src/goals/runtime.ts:107-109 isAccountingStatus *)
definition isAccountingStatus :: "goal \<Rightarrow> bool" where
  "isAccountingStatus g \<longleftrightarrow> g_status g = GActive"

(* coding-agent/src/goals/runtime.ts:117-120 constructor *)
definition new_GoalRuntime :: "goal_env \<Rightarrow> goal_mode_state option \<Rightarrow> goal_runtime" where
  "new_GoalRuntime env s = \<lparr>rt_state = s, rt_turn = None, rt_clock = \<lparr>wc_last = ge_now env, wc_goal = None\<rparr>,
     rt_persisted = [], rt_events = []\<rparr>"

(* coding-agent/src/goals/runtime.ts:159-162 getStateClone *)
definition getStateClone :: "goal_runtime \<Rightarrow> goal_mode_state option" where
  "getStateClone rt = normalizeGoalModeState (rt_state rt)"

(* coding-agent/src/goals/runtime.ts:135-138 hasAccountingState *)
definition hasAccountingState :: "goal_runtime \<Rightarrow> bool" where
  "hasAccountingState rt =
     (case getStateClone rt of None \<Rightarrow> False | Some s \<Rightarrow> gm_enabled s \<and> isAccountingStatus (gm_goal s))"

(* coding-agent/src/goals/runtime.ts:164-175 commitState *)
definition commitState :: "goal_mode_state option \<Rightarrow> persist_mode option \<Rightarrow> bool \<Rightarrow> goal_runtime \<Rightarrow> goal_runtime" where
  "commitState s persist emitIt rt =
     rt\<lparr>rt_state := s,
        rt_persisted := rt_persisted rt @ (case persist of None \<Rightarrow> [] | Some m \<Rightarrow> [(m, s)]),
        rt_events := rt_events rt @ (if emitIt then [(map_option gm_goal s, s)] else [])\<rparr>"

(* coding-agent/src/goals/runtime.ts:177-191 markActiveAccounting *)
definition markActiveAccounting :: "goal_env \<Rightarrow> goal \<Rightarrow> goal_runtime \<Rightarrow> goal_runtime" where
  "markActiveAccounting env g rt =
     rt\<lparr>rt_clock := (if wc_goal (rt_clock rt) \<noteq> Some (g_id g) then \<lparr>wc_last = ge_now env, wc_goal = Some (g_id g)\<rparr> else rt_clock rt),
        rt_turn := Some (case rt_turn rt of
            Some t \<Rightarrow> t\<lparr>ts_goal := Some (g_id g), ts_baseline := ge_usage env\<rparr>
          | None \<Rightarrow> \<lparr>ts_turnId = ''activation-'' @ g_id g, ts_baseline = ge_usage env, ts_goal = Some (g_id g)\<rparr>)\<rparr>"

(* coding-agent/src/goals/runtime.ts:193-198 clearActiveAccounting *)
definition clearActiveAccounting :: "goal_env \<Rightarrow> goal_runtime \<Rightarrow> goal_runtime" where
  "clearActiveAccounting env rt =
     rt\<lparr>rt_clock := \<lparr>wc_last = ge_now env, wc_goal = None\<rparr>, rt_turn := map_option (\<lambda>t. t\<lparr>ts_goal := None\<rparr>) (rt_turn rt)\<rparr>"

(* coding-agent/src/goals/runtime.ts:200-209 onTurnStart *)
definition onTurnStart :: "goal_env \<Rightarrow> string \<Rightarrow> goal_usage \<Rightarrow> goal_runtime \<Rightarrow> goal_runtime" where
  "onTurnStart env turnId baseline rt =
     (let rt1 = rt\<lparr>rt_turn := Some \<lparr>ts_turnId = turnId, ts_baseline = baseline, ts_goal = None\<rparr>\<rparr>
      in case getStateClone rt of
           None \<Rightarrow> rt1
         | Some s \<Rightarrow>
             if gm_enabled s \<and> isAccountingStatus (gm_goal s)
             then rt1\<lparr>rt_turn := Some \<lparr>ts_turnId = turnId, ts_baseline = baseline, ts_goal = Some (g_id (gm_goal s))\<rparr>,
                      rt_clock := (if wc_goal (rt_clock rt) \<noteq> Some (g_id (gm_goal s))
                                   then \<lparr>wc_last = ge_now env, wc_goal = Some (g_id (gm_goal s))\<rparr> else rt_clock rt)\<rparr>
             else rt1)"

text \<open>The tokens and whole seconds to account to goal \<open>i\<close> now.\<close>

definition turn_is :: "string \<Rightarrow> goal_runtime \<Rightarrow> bool" where
  "turn_is i rt = (case rt_turn rt of None \<Rightarrow> False | Some t \<Rightarrow> ts_goal t = Some i)"

(* coding-agent/src/goals/runtime.ts:269-272 flushUsageLocked *)
definition token_delta :: "goal_usage \<Rightarrow> string \<Rightarrow> goal_runtime \<Rightarrow> rat" where
  "token_delta usage i rt =
     (case rt_turn rt of
        Some t \<Rightarrow> if ts_goal t = Some i then goalTokenDelta usage (ts_baseline t) else 0
      | None \<Rightarrow> 0)"

(* coding-agent/src/goals/runtime.ts:273-276 flushUsageLocked *)
definition wall_seconds :: "goal_env \<Rightarrow> string \<Rightarrow> goal_runtime \<Rightarrow> int" where
  "wall_seconds env i rt =
     (if wc_goal (rt_clock rt) = Some i then max 0 \<lfloor>(ge_now env - wc_last (rt_clock rt)) / 1000\<rfloor> else 0)"

(* coding-agent/src/goals/runtime.ts:279-290 flushUsageLocked *)
definition count_usage :: "goal_env \<Rightarrow> goal_usage \<Rightarrow> goal_mode_state \<Rightarrow> goal_runtime \<Rightarrow> goal_runtime" where
  "count_usage env usage s rt =
     (let g = gm_goal s; i = g_id g; secs = wall_seconds env i rt;
          g' = g\<lparr>g_tokensUsed := g_tokensUsed g + token_delta usage i rt,
                 g_timeUsedSeconds := g_timeUsedSeconds g + of_int secs, g_updatedAt := ge_now env\<rparr>;
          rt1 = rt\<lparr>rt_turn := (if turn_is i rt then map_option (\<lambda>t. t\<lparr>ts_baseline := usage\<rparr>) (rt_turn rt) else rt_turn rt),
                   rt_clock := (if wc_goal (rt_clock rt) = Some i \<and> secs > 0
                     then (rt_clock rt)\<lparr>wc_last := wc_last (rt_clock rt) + of_int secs * 1000\<rparr> else rt_clock rt)\<rparr>
      in commitState (Some (s\<lparr>gm_goal := g'\<rparr>)) (Some PersistGoal) True rt1)"

(* coding-agent/src/goals/runtime.ts:264-291 flushUsageLocked *)
definition flushUsageLocked :: "goal_env \<Rightarrow> goal_usage \<Rightarrow> goal_runtime \<Rightarrow> goal_runtime" where
  "flushUsageLocked env usage rt =
     (case getStateClone rt of
        None \<Rightarrow> rt
      | Some s \<Rightarrow>
          let i = g_id (gm_goal s)
          in if \<not> (gm_enabled s \<and> isAccountingStatus (gm_goal s)) then rt
             else if \<not> turn_is i rt \<and> wc_goal (rt_clock rt) \<noteq> Some i then rt
             else if token_delta usage i rt \<le> 0 \<and> wall_seconds env i rt \<le> 0 then rt
             else count_usage env usage s rt)"

(* coding-agent/src/goals/runtime.ts:293-295 flushUsage *)
definition flushUsage :: "goal_env \<Rightarrow> goal_usage option \<Rightarrow> goal_runtime \<Rightarrow> goal_runtime" where
  "flushUsage env usage rt = flushUsageLocked env (case usage of None \<Rightarrow> ge_usage env | Some u \<Rightarrow> u) rt"

(* coding-agent/src/goals/runtime.ts:211-215 onToolCompleted *)
definition onToolCompleted :: "goal_env \<Rightarrow> string \<Rightarrow> goal_runtime \<Rightarrow> goal_runtime" where
  "onToolCompleted env toolName rt =
     (if toolName = ''goal'' then rt else if \<not> hasAccountingState rt then rt else flushUsage env None rt)"

(* coding-agent/src/goals/runtime.ts:217-220 onGoalToolCompleted *)
definition onGoalToolCompleted :: "goal_env \<Rightarrow> goal_runtime \<Rightarrow> goal_runtime" where
  "onGoalToolCompleted env rt = (if \<not> hasAccountingState rt then rt else flushUsage env None rt)"

(* coding-agent/src/goals/runtime.ts:222-229 onAgentEnd *)
definition onAgentEnd :: "goal_env \<Rightarrow> goal_usage option \<Rightarrow> goal_runtime \<Rightarrow> goal_runtime" where
  "onAgentEnd env usage rt =
     (if \<not> hasAccountingState rt then rt\<lparr>rt_turn := None\<rparr> else (flushUsage env usage rt)\<lparr>rt_turn := None\<rparr>)"

(* coding-agent/src/goals/runtime.ts:231-247 onTaskAborted *)
definition onTaskAborted :: "goal_env \<Rightarrow> goal_runtime \<Rightarrow> goal_runtime" where
  "onTaskAborted env rt =
     (if \<not> hasAccountingState rt then rt\<lparr>rt_turn := None\<rparr>
      else let rt1 = (flushUsageLocked env (ge_usage env) rt)\<lparr>rt_turn := None\<rparr>
           in case getStateClone rt1 of
                None \<Rightarrow> rt1
              | Some s \<Rightarrow>
                  if \<not> (gm_enabled s \<and> isAccountingStatus (gm_goal s)) then rt1
                  else let g = (gm_goal s)\<lparr>g_updatedAt := ge_now env\<rparr>
                       in commitState (Some (s\<lparr>gm_goal := g\<rparr>)) (Some PersistGoal) True (markActiveAccounting env g rt1))"

(* coding-agent/src/goals/runtime.ts:249-262 onThreadResumed *)
definition onThreadResumed :: "goal_env \<Rightarrow> goal_runtime \<Rightarrow> goal_runtime \<times> goal_mode_state option" where
  "onThreadResumed env rt =
     (case getStateClone rt of
        None \<Rightarrow> (rt, None)
      | Some s0 \<Rightarrow>
          let s = (if g_status (gm_goal s0) = GActive then s0\<lparr>gm_enabled := True\<rparr> else s0);
              rt1 = (if gm_enabled s \<and> isAccountingStatus (gm_goal s) then markActiveAccounting env (gm_goal s) rt
                     else clearActiveAccounting env rt)
          in (commitState (Some s) None True rt1, Some s))"

(* coding-agent/src/goals/runtime.ts:297-310 createGoalState *)
definition createGoalState :: "goal_env \<Rightarrow> string \<Rightarrow> goal_provenance option \<Rightarrow> goal_mode_state" where
  "createGoalState env objective prov =
     \<lparr>gm_enabled = True, gm_mode = ModeActive, gm_completed = False,
      gm_goal = \<lparr>g_id = ge_newId env, g_objective = objective, g_status = GActive, g_tokensUsed = 0, g_timeUsedSeconds = 0,
        g_createdAt = ge_now env, g_updatedAt = ge_now env, g_provenance = prov\<rparr>\<rparr>"

(* coding-agent/src/goals/runtime.ts:312-325 createGoal *)
definition createGoal ::
  "goal_env \<Rightarrow> string \<Rightarrow> goal_provenance option \<Rightarrow> goal_runtime \<Rightarrow> goal_runtime \<times> (string, goal_mode_state) outcome"
where
  "createGoal env objective prov rt =
     (case validateGoalObjective objective ''create'' of
        Inl e \<Rightarrow> (rt, Inl e)
      | Inr ob \<Rightarrow>
          if (case getStateClone rt of None \<Rightarrow> False
              | Some s \<Rightarrow> g_status (gm_goal s) \<noteq> GDropped \<and> g_status (gm_goal s) \<noteq> GComplete)
          then (rt, Inl ''cannot create a new goal because this session already has a goal'')
          else let s = createGoalState env ob (Some (case prov of None \<Rightarrow> UserGoal | Some p \<Rightarrow> p))
               in (commitState (Some s) (Some PersistGoal) True (markActiveAccounting env (gm_goal s) rt), Inr s))"

(* coding-agent/src/goals/runtime.ts:327-340 replaceGoal *)
definition replaceGoal :: "goal_env \<Rightarrow> string \<Rightarrow> goal_runtime \<Rightarrow> goal_runtime \<times> (string, goal_mode_state) outcome" where
  "replaceGoal env objective rt =
     (case validateGoalObjective objective ''replace'' of
        Inl e \<Rightarrow> (rt, Inl e)
      | Inr ob \<Rightarrow>
          if \<not> hasAccountingState rt then (rt, Inl ''cannot replace goal because no goal is active'')
          else let s = createGoalState env ob (Some UserGoal)
               in (commitState (Some s) (Some PersistGoal) True
                     (markActiveAccounting env (gm_goal s) (flushUsageLocked env (ge_usage env) rt)), Inr s))"

(* coding-agent/src/goals/runtime.ts:342-356 resumeGoal *)
definition resumeGoal :: "goal_env \<Rightarrow> goal_runtime \<Rightarrow> goal_runtime \<times> (string, goal_mode_state) outcome" where
  "resumeGoal env rt =
     (case getStateClone rt of
        None \<Rightarrow> (rt, Inl ''No paused goal.'')
      | Some s \<Rightarrow>
          if g_status (gm_goal s) = GComplete then (rt, Inl ''Goal is already complete.'')
          else let s' = s\<lparr>gm_enabled := True, gm_mode := ModeActive, gm_completed := False,
                          gm_goal := (gm_goal s)\<lparr>g_status := GActive, g_updatedAt := ge_now env\<rparr>\<rparr>
               in (commitState (Some s') (Some PersistGoal) True (markActiveAccounting env (gm_goal s') rt), Inr s'))"

(* coding-agent/src/goals/runtime.ts:358-375 pauseGoal *)
definition pauseGoal :: "goal_env \<Rightarrow> goal_runtime \<Rightarrow> goal_runtime \<times> (string, goal_mode_state option) outcome" where
  "pauseGoal env rt =
     (let rt1 = flushUsageLocked env (ge_usage env) rt
      in case getStateClone rt1 of
           None \<Rightarrow> (rt1, Inr None)
         | Some s \<Rightarrow>
             if g_status (gm_goal s) \<noteq> GActive
             then (rt1, Inl (''cannot pause a goal that is not active (current status: '' @ goal_status_name (g_status (gm_goal s)) @ '')''))
             else let s' = s\<lparr>gm_enabled := False, gm_mode := ModeActive, gm_completed := False,
                             gm_goal := (gm_goal s)\<lparr>g_status := GPaused, g_updatedAt := ge_now env\<rparr>\<rparr>
                  in (commitState (Some s') (Some PersistPaused) True (clearActiveAccounting env rt1), Inr (Some s')))"

(* coding-agent/src/goals/runtime.ts:377-392 dropGoal *)
definition dropGoal :: "goal_env \<Rightarrow> goal_runtime \<Rightarrow> goal_runtime \<times> goal option" where
  "dropGoal env rt =
     (let rt1 = flushUsageLocked env (ge_usage env) rt
      in case getStateClone rt1 of
           None \<Rightarrow> (rt1, None)
         | Some s \<Rightarrow>
             let dropped = (gm_goal s)\<lparr>g_status := GDropped, g_updatedAt := ge_now env\<rparr>;
                 rt2 = clearActiveAccounting env rt1;
                 rt3 = rt2\<lparr>rt_events := rt_events rt2 @ [(Some dropped, Some (s\<lparr>gm_enabled := False, gm_goal := dropped\<rparr>))]\<rparr>
             in (commitState None (Some PersistNone) False rt3, Some dropped))"

(* coding-agent/src/goals/runtime.ts:394-416 completeGoalFromTool *)
definition completeGoalFromTool :: "goal_env \<Rightarrow> goal_runtime \<Rightarrow> goal_runtime \<times> (string, goal) outcome" where
  "completeGoalFromTool env rt =
     (let rt1 = flushUsageLocked env (ge_usage env) rt
      in case getStateClone rt1 of
           None \<Rightarrow> (rt1, Inl ''cannot complete goal because no goal is active'')
         | Some s \<Rightarrow>
             if g_status (gm_goal s) = GComplete then (rt1, Inl ''goal is already complete'')
             else if g_status (gm_goal s) = GDropped then (rt1, Inl ''cannot complete a dropped goal'')
             else let s' = s\<lparr>gm_enabled := False, gm_mode := ModeExiting, gm_completed := True,
                             gm_goal := (gm_goal s)\<lparr>g_status := GComplete, g_updatedAt := ge_now env\<rparr>\<rparr>
                  in (commitState (Some s') (Some PersistGoal) True (clearActiveAccounting env rt1), Inr (gm_goal s')))"

text \<open>The prompts; \<open>render\<close> is the template renderer with the prompt texts of the repository.\<close>

(* coding-agent/src/goals/runtime.ts:100-105 renderGoalPrompt *)
definition renderGoalPrompt :: "(bool \<Rightarrow> string \<Rightarrow> string) \<Rightarrow> bool \<Rightarrow> goal \<Rightarrow> string" where
  "renderGoalPrompt render active g = render active (escapeXmlText (g_objective g))"

(* coding-agent/src/goals/runtime.ts:418-428 buildActivePrompt *)
definition buildGoalPrompt :: "(bool \<Rightarrow> string \<Rightarrow> string) \<Rightarrow> bool \<Rightarrow> goal_runtime \<Rightarrow> string option" where
  "buildGoalPrompt render active rt =
     (case getStateClone rt of
        None \<Rightarrow> None
      | Some s \<Rightarrow> if gm_enabled s \<and> g_status (gm_goal s) = GActive then Some (renderGoalPrompt render active (gm_goal s)) else None)"

section \<open>Holding continuations after timeouts\<close>

(* coding-agent/src/goals/continuation-timeout-guard.ts:1-1 ToolOutcomeKind *)
datatype tool_outcome_kind = TimeoutOutcome | SuccessOutcome | OtherErrorOutcome

(* coding-agent/src/goals/continuation-timeout-guard.ts:3-7 TimeoutToolOutcome *)
record tool_outcome =
  to_toolName :: string
  to_argsKey :: string
  to_kind :: tool_outcome_kind

(* coding-agent/src/goals/continuation-timeout-guard.ts:9-13 TimeoutHoldState *)
record hold_state =
  hs_heldSnapshotKey :: "string option"
  hs_fingerprint :: "string option"
  hs_streak :: nat

(* coding-agent/src/goals/continuation-timeout-guard.ts:35-45 toResultText *)
definition toResultText :: "jv \<Rightarrow> string" where
  "toResultText result =
     (case result of
        JStr s \<Rightarrow> s
      | JObj _ \<Rightarrow> (case get result ''content'' of
          JArr xs \<Rightarrow> join [CHR 0x0A] (concat (map (\<lambda>c. if get c ''type'' = JStr ''text''
            then (case get c ''text'' of JStr t \<Rightarrow> [t] | _ \<Rightarrow> []) else []) xs))
        | _ \<Rightarrow> [])
      | _ \<Rightarrow> [])"

(* coding-agent/src/goals/continuation-timeout-guard.ts:47-50 classifyToolOutcome *)
definition classifyToolOutcome :: "jv \<Rightarrow> string \<Rightarrow> tool_outcome_kind" where
  "classifyToolOutcome isError text =
     (if isError \<noteq> JBool True then SuccessOutcome
      else if whole_word False ''timed out'' text \<or> whole_word False ''timeout'' text then TimeoutOutcome
      else OtherErrorOutcome)"

(* coding-agent/src/goals/continuation-timeout-guard.ts:56-63 turnTimeoutFingerprint *)
definition turnTimeoutFingerprint :: "tool_outcome list \<Rightarrow> string option" where
  "turnTimeoutFingerprint outcomes =
     (case outcomes of
        [] \<Rightarrow> None
      | first # _ \<Rightarrow>
          if list_ex (\<lambda>oc. to_kind oc \<noteq> TimeoutOutcome) outcomes then None
          else if list_ex (\<lambda>oc. to_toolName oc \<noteq> to_toolName first \<or> to_argsKey oc \<noteq> to_argsKey first) outcomes then None
          else Some (to_toolName first @ [CHR 0x00] @ to_argsKey first))"

(* coding-agent/src/goals/continuation-timeout-guard.ts:65-79 decideTimeoutHold *)
definition decideTimeoutHold :: "hold_state \<Rightarrow> string \<Rightarrow> string option \<Rightarrow> bool \<times> hold_state" where
  "decideTimeoutHold prev snapshotKey fingerprint =
     (case fingerprint of
        None \<Rightarrow> (False, \<lparr>hs_heldSnapshotKey = None, hs_fingerprint = None, hs_streak = 0\<rparr>)
      | Some _ \<Rightarrow>
          let continues = hs_streak prev \<ge> 1 \<and> hs_fingerprint prev = fingerprint \<and> hs_heldSnapshotKey prev = Some snapshotKey;
              streak = (if continues then hs_streak prev + 1 else 1)
          in (streak \<ge> 2, \<lparr>hs_heldSnapshotKey = Some snapshotKey, hs_fingerprint = fingerprint, hs_streak = streak\<rparr>))"

section \<open>Goals as stored and as rendered\<close>

lemma read_goal_status_name [simp]: "read_goal_status (goal_status_name s) = Some s"
  by (cases s) (simp_all add: read_goal_status_def)

lemma normalizeGoal_value [simp]: "normalizeGoal (goal_value g) = Some g"
  by (cases "g_provenance g")
    (auto simp: normalizeGoal_def goal_value_def read_goal_provenance_def provenance_value_def split: goal_provenance.split)

lemma getStateClone_id [simp]: "getStateClone rt = rt_state rt"
  by (simp add: getStateClone_def normalizeGoalModeState_def split: option.split)

lemma foldl_append_concat: "foldl (\<lambda>out c. out @ f c) acc s = acc @ concat (map f s)"
  by (induction s arbitrary: acc) auto

lemma escape_char_plain: "of_char c \<noteq> (38 :: nat) \<Longrightarrow> of_char c \<noteq> (60 :: nat) \<Longrightarrow> of_char c \<noteq> (62 :: nat) \<Longrightarrow> escape_char c = [c]"
  by (auto simp: escape_char_def)

lemma first_escapable_prefix:
  "case first_escapable s of None \<Rightarrow> concat (map escape_char s) = s
   | Some k \<Rightarrow> concat (map escape_char (take k s)) = take k s"
  by (induction s) (auto simp: escape_char_plain split: option.splits)

lemma escapeXmlText_concat: "escapeXmlText s = concat (map escape_char s)"
proof (cases "first_escapable s")
  case (Some k)
  have "concat (map escape_char s) = concat (map escape_char (take k s)) @ concat (map escape_char (drop k s))"
    by (simp only: concat_append [symmetric] map_append [symmetric] append_take_drop_id)
  with Some first_escapable_prefix [of s] show ?thesis by (simp add: escapeXmlText_def foldl_append_concat)
qed (use first_escapable_prefix [of s] in \<open>simp add: escapeXmlText_def\<close>)

text \<open>The reading of the three entities.\<close>

fun unescapeXml :: "string \<Rightarrow> string" where
  "unescapeXml [] = []"
| "unescapeXml (c # cs) =
     (if c = CHR ''&'' \<and> take 4 cs = ''amp;'' then CHR ''&'' # unescapeXml (drop 4 cs)
      else if c = CHR ''&'' \<and> take 3 cs = ''lt;'' then CHR ''<'' # unescapeXml (drop 3 cs)
      else if c = CHR ''&'' \<and> take 3 cs = ''gt;'' then CHR ''>'' # unescapeXml (drop 3 cs)
      else c # unescapeXml cs)"

lemma unescape_escape_char: "unescapeXml (escape_char c @ s) = c # unescapeXml s"
  by (simp add: escape_char_def)

lemma unescape_escape: "unescapeXml (escapeXmlText s) = s"
  unfolding escapeXmlText_concat by (induction s) (simp_all add: unescape_escape_char)

lemma escape_char_safe: "c \<in> set (escape_char d) \<Longrightarrow> c \<noteq> CHR ''<'' \<and> c \<noteq> CHR ''>''"
  by (auto simp: escape_char_def split: if_splits)

section \<open>The runtime invariant\<close>

text \<open>The operations, each at one instant of the host.\<close>

datatype goal_op =
    TurnStart string goal_usage | ToolCompleted string | GoalToolCompleted | AgentEnd "goal_usage option" | TaskAborted
  | ThreadResumed | Create string "goal_provenance option" | Replace string | Resume | Pause | Drop | Complete
  | Flush "goal_usage option"

fun goal_exec :: "goal_env \<Rightarrow> goal_op \<Rightarrow> goal_runtime \<Rightarrow> goal_runtime" where
  "goal_exec env (TurnStart i u) rt = onTurnStart env i u rt"
| "goal_exec env (ToolCompleted n) rt = onToolCompleted env n rt"
| "goal_exec env GoalToolCompleted rt = onGoalToolCompleted env rt"
| "goal_exec env (AgentEnd u) rt = onAgentEnd env u rt"
| "goal_exec env TaskAborted rt = onTaskAborted env rt"
| "goal_exec env ThreadResumed rt = fst (onThreadResumed env rt)"
| "goal_exec env (Create ob p) rt = fst (createGoal env ob p rt)"
| "goal_exec env (Replace ob) rt = fst (replaceGoal env ob rt)"
| "goal_exec env Resume rt = fst (resumeGoal env rt)"
| "goal_exec env Pause rt = fst (pauseGoal env rt)"
| "goal_exec env Drop rt = fst (dropGoal env rt)"
| "goal_exec env Complete rt = fst (completeGoalFromTool env rt)"
| "goal_exec env (Flush u) rt = flushUsage env u rt"

definition goal_step :: "goal_runtime \<Rightarrow> goal_env \<times> goal_op \<Rightarrow> goal_runtime \<Rightarrow> bool" where
  "goal_step rt l rt' \<longleftrightarrow> rt' = goal_exec (fst l) (snd l) rt"

text \<open>Which state goes with which status, and what the accounting points at.\<close>

definition state_ok :: "goal_mode_state \<Rightarrow> bool" where
  "state_ok s \<longleftrightarrow> g_status (gm_goal s) \<noteq> GDropped
    \<and> gm_enabled s = (g_status (gm_goal s) = GActive)
    \<and> (gm_mode s = ModeExiting) = (g_status (gm_goal s) = GComplete)
    \<and> gm_completed s = (g_status (gm_goal s) = GComplete)"

definition active_id :: "goal_mode_state option \<Rightarrow> string option" where
  "active_id so = (case so of Some s \<Rightarrow> if g_status (gm_goal s) = GActive then Some (g_id (gm_goal s)) else None | None \<Rightarrow> None)"

definition persisted_ok :: "goal_runtime \<Rightarrow> bool" where
  "persisted_ok rt = (rt_persisted rt = [] \<and> rt_state rt = None
    \<or> rt_persisted rt \<noteq> [] \<and> last (rt_persisted rt) =
        ((case rt_state rt of None \<Rightarrow> PersistNone | Some s \<Rightarrow> if g_status (gm_goal s) = GPaused then PersistPaused else PersistGoal),
         rt_state rt))"

definition goal_inv :: "goal_runtime \<Rightarrow> bool" where
  "goal_inv rt \<longleftrightarrow> pred_option state_ok (rt_state rt)
    \<and> wc_goal (rt_clock rt) = active_id (rt_state rt)
    \<and> pred_option (\<lambda>t. ts_goal t = active_id (rt_state rt)) (rt_turn rt)
    \<and> persisted_ok rt"

text \<open>Committing a state makes the invariant hold, whatever the runtime was before.\<close>

lemma commit_active_inv:
  "state_ok s \<Longrightarrow> g_status (gm_goal s) = GActive \<Longrightarrow> gm_goal s = g
    \<Longrightarrow> goal_inv (commitState (Some s) (Some PersistGoal) True (markActiveAccounting env g rt))"
  by (auto simp: goal_inv_def active_id_def persisted_ok_def commitState_def markActiveAccounting_def split: option.split)

lemma createGoalState_ok: "state_ok (createGoalState env ob p)" "g_status (gm_goal (createGoalState env ob p)) = GActive"
  by (simp_all add: state_ok_def createGoalState_def)

lemma commit_inactive_inv:
  "state_ok s \<Longrightarrow> g_status (gm_goal s) \<noteq> GActive \<Longrightarrow> m = (if g_status (gm_goal s) = GPaused then PersistPaused else PersistGoal)
    \<Longrightarrow> goal_inv (commitState (Some s) (Some m) True (clearActiveAccounting env rt))"
  by (auto simp: goal_inv_def active_id_def persisted_ok_def commitState_def clearActiveAccounting_def option.pred_map option.pred_True o_def
      split: option.split)

lemma commit_none_inv: "goal_inv (commitState None (Some PersistNone) False ((clearActiveAccounting env rt)\<lparr>rt_events := e\<rparr>))"
  by (auto simp: goal_inv_def active_id_def persisted_ok_def commitState_def clearActiveAccounting_def option.pred_map option.pred_True o_def)

lemma no_turn_inv: "goal_inv rt \<Longrightarrow> goal_inv (rt\<lparr>rt_turn := None\<rparr>)"
  by (simp add: goal_inv_def persisted_ok_def)

lemma goal_inv_state: "goal_inv rt \<Longrightarrow> rt_state rt = Some s \<Longrightarrow> state_ok s"
  by (simp add: goal_inv_def)

lemma flush_cases:
  obtains (same) "flushUsageLocked env u rt = rt"
  | (counted) s where "rt_state rt = Some s" "gm_enabled s" "g_status (gm_goal s) = GActive"
      "flushUsageLocked env u rt = count_usage env u s rt"
proof -
  have "flushUsageLocked env u rt = rt \<or> (\<exists>s. rt_state rt = Some s \<and> gm_enabled s \<and> g_status (gm_goal s) = GActive
      \<and> flushUsageLocked env u rt = count_usage env u s rt)"
    by (cases "rt_state rt") (simp_all add: flushUsageLocked_def Let_def isAccountingStatus_def)
  then show ?thesis using same counted by blast
qed

lemma flush_inv:
  assumes "goal_inv rt"
  shows "goal_inv (flushUsageLocked env u rt)"
proof (cases env u rt rule: flush_cases)
  case (counted s)
  from goal_inv_state [OF assms counted(1)] assms counted(1,3) show ?thesis
    by (auto simp: counted(4) count_usage_def Let_def goal_inv_def state_ok_def active_id_def persisted_ok_def commitState_def
        option.pred_map o_def)
qed (simp add: assms)

lemma goal_exec_inv [inv_intros]: "goal_inv rt \<Longrightarrow> goal_inv (goal_exec env op rt)"
proof (induction env op rt rule: goal_exec.induct)
  case (1 env i u rt)
  then show ?case
    by (cases "rt_state rt") (auto simp: onTurnStart_def goal_inv_def state_ok_def active_id_def persisted_ok_def isAccountingStatus_def)
next
  case (4 env u rt)
  then show ?case by (simp add: onAgentEnd_def flushUsage_def flush_inv no_turn_inv)
next
  case (5 env rt)
  show ?case
  proof (cases "hasAccountingState rt")
    case True
    let ?rt = "(flushUsageLocked env (ge_usage env) rt)\<lparr>rt_turn := None\<rparr>"
    have inv: "goal_inv ?rt" by (intro no_turn_inv flush_inv 5)
    show ?thesis
    proof (cases "rt_state ?rt")
      case (Some s)
      have "state_ok (s\<lparr>gm_goal := (gm_goal s)\<lparr>g_updatedAt := ge_now env\<rparr>\<rparr>)"
        using goal_inv_state [OF inv Some] by (simp add: state_ok_def)
      from commit_active_inv [OF this _ refl] inv Some True show ?thesis by (simp add: onTaskAborted_def Let_def isAccountingStatus_def)
    qed (use inv True in \<open>simp add: onTaskAborted_def Let_def\<close>)
  qed (simp add: onTaskAborted_def no_turn_inv 5)
next
  case (6 env rt)
  show ?case
  proof (cases "rt_state rt")
    case (Some s)
    with 6 goal_inv_state [OF 6 Some] show ?thesis
      by (auto simp: onThreadResumed_def Let_def goal_inv_def active_id_def persisted_ok_def commitState_def markActiveAccounting_def
          clearActiveAccounting_def isAccountingStatus_def state_ok_def option.pred_map option.pred_True o_def split: option.split)
  qed (use 6 in \<open>simp add: onThreadResumed_def\<close>)
next
  case (7 env ob p rt)
  then show ?case
    by (auto simp: createGoal_def Let_def createGoalState_ok intro!: commit_active_inv split: option.split sum.split)
next
  case (8 env ob rt)
  then show ?case
    by (auto simp: replaceGoal_def Let_def createGoalState_ok intro!: commit_active_inv split: sum.split)
next
  case (9 env rt)
  then show ?case
    using goal_inv_state [OF 9]
    by (cases "rt_state rt") (auto simp: resumeGoal_def Let_def state_ok_def intro!: commit_active_inv)
next
  case (10 env rt)
  then show ?case
    using goal_inv_state [OF flush_inv [OF 10], of env "ge_usage env"]
    by (cases "rt_state (flushUsageLocked env (ge_usage env) rt)")
       (auto simp: pauseGoal_def Let_def state_ok_def flush_inv intro!: commit_inactive_inv)
next
  case (11 env rt)
  then show ?case
    by (cases "rt_state (flushUsageLocked env (ge_usage env) rt)") (simp_all add: dropGoal_def Let_def flush_inv commit_none_inv)
next
  case (12 env rt)
  then show ?case
    using goal_inv_state [OF flush_inv [OF 12], of env "ge_usage env"]
    by (cases "rt_state (flushUsageLocked env (ge_usage env) rt)")
       (auto simp: completeGoalFromTool_def Let_def state_ok_def flush_inv intro!: commit_inactive_inv)
qed (simp_all add: onToolCompleted_def onGoalToolCompleted_def flushUsage_def flush_inv)

lemma new_runtime_inv: "goal_inv (new_GoalRuntime env None)"
  by (simp add: goal_inv_def new_GoalRuntime_def active_id_def persisted_ok_def)

interpretation goals: invariant_system goal_step goal_inv
  by unfold_locales (auto simp: goal_step_def intro: goal_exec_inv)

section \<open>Counting usage once\<close>

definition usage_le :: "goal_usage \<Rightarrow> goal_usage \<Rightarrow> bool" where
  "usage_le a b \<longleftrightarrow> gu_input a \<le> gu_input b \<and> gu_output a \<le> gu_output b \<and> gu_cacheWrite a \<le> gu_cacheWrite b"

lemma token_delta_chain: "usage_le a b \<Longrightarrow> usage_le b c \<Longrightarrow> goalTokenDelta b a + goalTokenDelta c b = goalTokenDelta c a"
  by (simp add: usage_le_def goalTokenDelta_def)

lemma token_delta_simps [simp]: "goalTokenDelta a a = 0" "goalTokenDelta a b \<ge> 0"
  by (simp_all add: goalTokenDelta_def)

text \<open>Whole seconds are taken off the clock and the remainder is kept, so the floors add up.\<close>

lemma floor_chain:
  fixes t u :: rat
  shows "\<lfloor>t / 1000\<rfloor> + \<lfloor>(u - of_int \<lfloor>t / 1000\<rfloor> * 1000) / 1000\<rfloor> = \<lfloor>u / 1000\<rfloor>"
proof -
  have "(u - of_int \<lfloor>t / 1000\<rfloor> * 1000) / 1000 = u / 1000 - of_int \<lfloor>t / 1000\<rfloor>" by (simp add: field_simps)
  then show ?thesis by (simp only: floor_diff_of_int)
qed

text \<open>The goal \<open>g\<close> is being accounted from baseline \<open>b\<close> and clock reading \<open>l\<close>.\<close>

definition accounting :: "goal_runtime \<Rightarrow> goal \<Rightarrow> goal_usage \<Rightarrow> rat \<Rightarrow> bool" where
  "accounting rt g b l \<longleftrightarrow> (\<exists>s t. rt_state rt = Some s \<and> gm_enabled s \<and> gm_goal s = g \<and> g_status g = GActive
     \<and> rt_turn rt = Some t \<and> ts_goal t = Some (g_id g) \<and> ts_baseline t = b
     \<and> wc_goal (rt_clock rt) = Some (g_id g) \<and> wc_last (rt_clock rt) = l)"

lemma flush_accounts:
  assumes "accounting rt g b l" "usage_le b u" "l \<le> ge_now env"
  shows "\<exists>g' b' l'. accounting (flushUsageLocked env u rt) g' b' l' \<and> g_id g' = g_id g
    \<and> g_tokensUsed g' = g_tokensUsed g + goalTokenDelta u b
    \<and> g_timeUsedSeconds g' = g_timeUsedSeconds g + of_int \<lfloor>(ge_now env - l) / 1000\<rfloor>
    \<and> (\<forall>v. usage_le u v \<longrightarrow> usage_le b' v \<and> goalTokenDelta v b' = goalTokenDelta v u)
    \<and> (\<forall>n. \<lfloor>(ge_now env - l) / 1000\<rfloor> + \<lfloor>(n - l') / 1000\<rfloor> = \<lfloor>(n - l) / 1000\<rfloor>) \<and> l' \<le> ge_now env"
proof -
  define secs where "secs = \<lfloor>(ge_now env - l) / 1000\<rfloor>"
  obtain s t where st: "rt_state rt = Some s" "gm_enabled s" "gm_goal s = g" "g_status g = GActive" "rt_turn rt = Some t"
    "ts_goal t = Some (g_id g)" "ts_baseline t = b" "wc_goal (rt_clock rt) = Some (g_id g)" "wc_last (rt_clock rt) = l"
    using assms(1) by (auto simp: accounting_def)
  have secs0: "secs \<ge> 0" using assms(3) by (simp add: secs_def)
  have ws: "wall_seconds env (g_id g) rt = secs" using secs0 by (simp add: wall_seconds_def st secs_def max_def)
  have td: "token_delta u (g_id g) rt = goalTokenDelta u b" by (simp add: token_delta_def st)
  have fl: "flushUsageLocked env u rt = (if goalTokenDelta u b \<le> 0 \<and> secs \<le> 0 then rt else count_usage env u s rt)"
    by (simp add: flushUsageLocked_def st Let_def isAccountingStatus_def td ws)
  have rest: "l + of_int secs * 1000 \<le> ge_now env" using of_int_floor_le [of "(ge_now env - l) / 1000"] by (simp add: secs_def field_simps)
  have chain: "secs + \<lfloor>(n - (l + of_int secs * 1000)) / 1000\<rfloor> = \<lfloor>(n - l) / 1000\<rfloor>" for n
    using floor_chain [of "ge_now env - l" "n - l"] by (simp add: secs_def algebra_simps)
  show ?thesis
  proof (cases "goalTokenDelta u b \<le> 0 \<and> secs \<le> 0")
    case True
    then have z: "goalTokenDelta u b = 0" "secs = 0" using secs0 token_delta_simps(2) [of u b] by auto
    have eq: "goalTokenDelta v b = goalTokenDelta v u" "usage_le b v" if "usage_le u v" for v
      using token_delta_chain [OF assms(2) that] z(1) assms(2) that by (auto simp: usage_le_def)
    show ?thesis
      using assms(1,3) z eq by (intro exI [of _ g] exI [of _ b] exI [of _ l]) (simp add: fl secs_def [symmetric])
  next
    case False
    let ?g = "g\<lparr>g_tokensUsed := g_tokensUsed g + goalTokenDelta u b, g_timeUsedSeconds := g_timeUsedSeconds g + of_int secs,
       g_updatedAt := ge_now env\<rparr>"
    have "accounting (count_usage env u s rt) ?g u (l + of_int secs * 1000)"
      using secs0 st by (simp add: accounting_def count_usage_def commitState_def Let_def turn_is_def td ws)
    then show ?thesis
      using False rest chain
      by (intro exI [of _ ?g] exI [of _ u] exI [of _ "l + of_int secs * 1000"]) (auto simp: fl secs_def [symmetric])
  qed
qed

text \<open>Flushes at a sequence of instants, each at the usage the host shows then.\<close>

fun flush_all :: "goal_env list \<Rightarrow> goal_runtime \<Rightarrow> goal_runtime" where
  "flush_all [] rt = rt"
| "flush_all (e # es) rt = flush_all es (flushUsageLocked e (ge_usage e) rt)"

fun later_envs :: "goal_usage \<Rightarrow> rat \<Rightarrow> goal_env list \<Rightarrow> bool" where
  "later_envs u n [] = True"
| "later_envs u n (e # es) = (usage_le u (ge_usage e) \<and> n \<le> ge_now e \<and> later_envs (ge_usage e) (ge_now e) es)"

lemma later_envs_last: "later_envs u n es \<Longrightarrow> es \<noteq> [] \<Longrightarrow> usage_le u (ge_usage (last es))"
  by (induction es arbitrary: u n) (auto simp: usage_le_def intro: order_trans)

lemma flush_all_accounts:
  "accounting rt g b l \<Longrightarrow> l \<le> n \<Longrightarrow> usage_le b u \<Longrightarrow> later_envs u n es \<Longrightarrow> es \<noteq> [] \<Longrightarrow>
    \<exists>g' b' l'. accounting (flush_all es rt) g' b' l' \<and> g_id g' = g_id g
      \<and> g_tokensUsed g' = g_tokensUsed g + goalTokenDelta (ge_usage (last es)) b
      \<and> g_timeUsedSeconds g' = g_timeUsedSeconds g + of_int \<lfloor>(ge_now (last es) - l) / 1000\<rfloor>"
proof (induction es arbitrary: rt g b l u n)
  case (Cons e es)
  have le: "usage_le b (ge_usage e)" "l \<le> ge_now e" using Cons.prems by (auto simp: usage_le_def)
  obtain g1 b1 l1 where s1: "accounting (flushUsageLocked e (ge_usage e) rt) g1 b1 l1" "g_id g1 = g_id g"
    "g_tokensUsed g1 = g_tokensUsed g + goalTokenDelta (ge_usage e) b"
    "g_timeUsedSeconds g1 = g_timeUsedSeconds g + of_int \<lfloor>(ge_now e - l) / 1000\<rfloor>"
    "\<And>v. usage_le (ge_usage e) v \<Longrightarrow> usage_le b1 v \<and> goalTokenDelta v b1 = goalTokenDelta v (ge_usage e)"
    "\<And>n. \<lfloor>(ge_now e - l) / 1000\<rfloor> + \<lfloor>(n - l1) / 1000\<rfloor> = \<lfloor>(n - l) / 1000\<rfloor>" "l1 \<le> ge_now e"
    using flush_accounts [OF Cons.prems(1) le] by blast
  show ?case
  proof (cases "es = []")
    case True
    then show ?thesis using s1(1-4) by auto
  next
    case False
    have self: "usage_le b1 (ge_usage e)" using s1(5) [of "ge_usage e"] by (simp add: usage_le_def)
    obtain g2 b2 l2 where s2: "accounting (flush_all es (flushUsageLocked e (ge_usage e) rt)) g2 b2 l2" "g_id g2 = g_id g1"
      "g_tokensUsed g2 = g_tokensUsed g1 + goalTokenDelta (ge_usage (last es)) b1"
      "g_timeUsedSeconds g2 = g_timeUsedSeconds g1 + of_int \<lfloor>(ge_now (last es) - l1) / 1000\<rfloor>"
      using Cons.IH [OF s1(1,7) self _ False] Cons.prems(4) by auto
    have lst: "usage_le (ge_usage e) (ge_usage (last es))"
      using Cons.prems(4) False later_envs_last [of "ge_usage e" "ge_now e" es] by simp
    have "of_int \<lfloor>(ge_now e - l) / 1000\<rfloor> + of_int \<lfloor>(ge_now (last es) - l1) / 1000\<rfloor> = (of_int \<lfloor>(ge_now (last es) - l) / 1000\<rfloor> :: rat)"
      using s1(6) [of "ge_now (last es)"] by (metis of_int_add)
    then show ?thesis
      using s2 s1(2-4) s1(5) [OF lst] token_delta_chain [OF le(1) lst] False
      by (intro exI [of _ g2] exI [of _ b2] exI [of _ l2]) simp
  qed
qed simp

section \<open>Properties of goal mode\<close>

text \<open>C31. Along every sequence of operations of a new runtime, whatever the host's clock, counters and identifiers are: goal mode
  is enabled exactly while the goal is active and exiting exactly when it is complete, no dropped goal is kept,
  wall clock and turn are accounted to the active goal or to nothing, and the last persisted record is the current
  state, tagged paused, none or goal as the state is.\<close>

theorem goal_runtime_invariant:
  assumes "steps goal_step (new_GoalRuntime env None) ops rt"
  shows "goal_inv rt"
  by (rule goals.steps_inv [OF assms new_runtime_inv])

definition demo_usage :: "rat \<Rightarrow> goal_usage" where
  "demo_usage n = \<lparr>gu_input = n, gu_output = n, gu_cacheRead = 0, gu_cacheWrite = 0\<rparr>"

definition demo_goal_env :: "rat \<Rightarrow> rat \<Rightarrow> goal_env" where
  "demo_goal_env t n = \<lparr>ge_now = t, ge_usage = demo_usage n, ge_newId = ''g1''\<rparr>"

definition demo_goal_runtime :: goal_runtime where
  "demo_goal_runtime = goal_exec (demo_goal_env 0 0) (Create ''ship it'' None) (new_GoalRuntime (demo_goal_env 0 0) None)"

theorem goal_runtime_invariant_witness: "goal_inv demo_goal_runtime"
proof -
  have "steps goal_step (new_GoalRuntime (demo_goal_env 0 0) None) ([] @ [(demo_goal_env 0 0, Create ''ship it'' None)]) demo_goal_runtime"
    by (rule steps_snoc [OF steps_Nil]) (simp add: goal_step_def demo_goal_runtime_def)
  then show ?thesis by (rule goal_runtime_invariant)
qed

text \<open>C17. Nothing is counted twice and nothing is lost: however often usage is flushed while a goal is accounted, as long as the
  counters and the clock do not run backwards, the tokens added are those between the baseline and the last flush
  and the seconds added are the whole seconds of that interval, the fractions of the single flushes included.\<close>

theorem goal_usage_conserved:
  assumes "accounting rt g b l" "later_envs b l es" "es \<noteq> []"
  shows "\<exists>s. rt_state (flush_all es rt) = Some s
      \<and> g_tokensUsed (gm_goal s) = g_tokensUsed g + goalTokenDelta (ge_usage (last es)) b
      \<and> g_timeUsedSeconds (gm_goal s) = g_timeUsedSeconds g + of_int \<lfloor>(ge_now (last es) - l) / 1000\<rfloor>"
  using flush_all_accounts [OF assms(1) order_refl _ assms(2,3)] by (auto simp: accounting_def usage_le_def)

lemma demo_accounting:
  "\<exists>g. accounting demo_goal_runtime g (demo_usage 0) 0 \<and> g_tokensUsed g = 0 \<and> g_timeUsedSeconds g = 0"
  by (simp add: accounting_def demo_goal_runtime_def createGoal_def validateGoalObjective_def trim_def white_char_def new_GoalRuntime_def
      createGoalState_def commitState_def markActiveAccounting_def demo_goal_env_def Let_def)

theorem goal_usage_conserved_witness:
  "\<exists>s. rt_state (flush_all [demo_goal_env 1900 3, demo_goal_env 3000 5] demo_goal_runtime) = Some s
     \<and> g_tokensUsed (gm_goal s) = 10 \<and> g_timeUsedSeconds (gm_goal s) = 3"
proof -
  obtain g where g: "accounting demo_goal_runtime g (demo_usage 0) 0" "g_tokensUsed g = 0" "g_timeUsedSeconds g = 0"
    using demo_accounting by blast
  have "later_envs (demo_usage 0) 0 [demo_goal_env 1900 3, demo_goal_env 3000 5]"
    by (simp add: demo_goal_env_def demo_usage_def usage_le_def)
  from goal_usage_conserved [OF g(1) this] g(2,3) show ?thesis
    by (simp add: demo_goal_env_def demo_usage_def goalTokenDelta_def)
qed

text \<open>C32. A completed goal is final: no operation but dropping it or creating another changes anything of it, neither its
  status nor its counts.\<close>

theorem completed_goal_final:
  assumes "goal_inv rt" "rt_state rt = Some s" "g_status (gm_goal s) = GComplete" "op \<noteq> Drop" "\<forall>ob p. op \<noteq> Create ob p"
  shows "rt_state (goal_exec env op rt) = Some s"
proof -
  have off: "\<not> gm_enabled s" using goal_inv_state [OF assms(1,2)] assms(3) by (simp add: state_ok_def)
  then have "flushUsageLocked env u rt = rt" for u by (simp add: flushUsageLocked_def assms(2))
  with off assms show ?thesis
    by (cases op) (auto simp: onTurnStart_def onToolCompleted_def onGoalToolCompleted_def onAgentEnd_def onTaskAborted_def onThreadResumed_def
        replaceGoal_def resumeGoal_def pauseGoal_def completeGoalFromTool_def flushUsage_def hasAccountingState_def clearActiveAccounting_def
        commitState_def isAccountingStatus_def Let_def split: sum.split)
qed

theorem completed_goal_final_witness:
  "rt_state (goal_exec (demo_goal_env 2 2) Resume (goal_exec (demo_goal_env 1 1) Complete demo_goal_runtime))
     = rt_state (goal_exec (demo_goal_env 1 1) Complete demo_goal_runtime)"
proof -
  let ?rt = "goal_exec (demo_goal_env 1 1) Complete demo_goal_runtime"
  have "goal_inv ?rt" unfolding demo_goal_runtime_def by (intro goal_exec_inv new_runtime_inv)
  moreover obtain s where s: "rt_state ?rt = Some s" "g_status (gm_goal s) = GComplete"
    by (simp add: demo_goal_runtime_def createGoal_def validateGoalObjective_def trim_def white_char_def new_GoalRuntime_def
      createGoalState_def commitState_def markActiveAccounting_def demo_goal_env_def Let_def completeGoalFromTool_def
      flushUsageLocked_def isAccountingStatus_def turn_is_def token_delta_def wall_seconds_def goalTokenDelta_def demo_usage_def
      count_usage_def)
  ultimately show ?thesis using completed_goal_final [of ?rt s Resume "demo_goal_env 2 2"] by simp
qed

text \<open>An objective cannot leave its element: the escaped text, computed with its early exit, is the character-wise escaping,
  holds neither bracket, and reads back as the objective, so different objectives render differently.\<close>

theorem objective_confined:
  "escapeXmlText s = concat (map escape_char s)
   \<and> CHR ''<'' \<notin> set (escapeXmlText s) \<and> CHR ''>'' \<notin> set (escapeXmlText s)
   \<and> unescapeXml (escapeXmlText s) = s
   \<and> (renderTrustedObjective s = renderTrustedObjective t \<longleftrightarrow> s = t)"
proof -
  have "s = t" if "escapeXmlText s = escapeXmlText t" using that unescape_escape by metis
  then show ?thesis
    by (auto simp: escapeXmlText_concat unescape_escape [unfolded escapeXmlText_concat] renderTrustedObjective_def dest: escape_char_safe)
qed

text \<open>The guard over a history of turns, each with its snapshot key and fingerprint.\<close>

definition hold_run :: "(string \<times> string option) list \<Rightarrow> bool \<times> hold_state" where
  "hold_run turns = foldl (\<lambda>r (k, f). decideTimeoutHold (snd r) k f)
     (False, \<lparr>hs_heldSnapshotKey = None, hs_fingerprint = None, hs_streak = 0\<rparr>) turns"

definition same_suffix :: "'a list \<Rightarrow> nat" where
  "same_suffix xs = (if xs = [] then 0 else length (takeWhile (\<lambda>x. x = last xs) (rev xs)))"

lemma same_suffix_snoc: "same_suffix (xs @ [x]) = (if xs \<noteq> [] \<and> last xs = x then Suc (same_suffix xs) else 1)"
  by (cases xs rule: rev_cases) (auto simp: same_suffix_def)

lemma hold_run_snoc: "hold_run (ts @ [(k, f)]) = decideTimeoutHold (snd (hold_run ts)) k f"
  by (simp add: hold_run_def)

lemma hold_run_Nil: "hold_run [] = (False, \<lparr>hs_heldSnapshotKey = None, hs_fingerprint = None, hs_streak = 0\<rparr>)"
  by (simp add: hold_run_def)

definition hold_ok :: "(string \<times> string option) list \<Rightarrow> bool \<times> hold_state \<Rightarrow> bool" where
  "hold_ok turns r \<longleftrightarrow>
     hs_streak (snd r) = (if turns = [] \<or> snd (last turns) = None then 0 else same_suffix turns)
   \<and> (if turns = [] \<or> snd (last turns) = None then True
      else hs_heldSnapshotKey (snd r) = Some (fst (last turns)) \<and> hs_fingerprint (snd r) = snd (last turns))
   \<and> (fst r \<longleftrightarrow> hs_streak (snd r) \<ge> 2)"

lemma hold_run_ok: "hold_ok turns (hold_run turns)"
proof (induction turns rule: rev_induct)
  case (snoc t ts)
  obtain k f where t: "t = (k, f)" by fastforce
  show ?case
  proof (cases f)
    case (Some x)
    have pos: "same_suffix ts \<ge> 1" if "ts \<noteq> []" using that by (cases ts rule: rev_cases) (auto simp: same_suffix_def)
    show ?thesis
    proof (cases "ts = [] \<or> snd (last ts) = None")
      case True
      then show ?thesis using snoc.IH by (auto simp: t hold_run_snoc Some hold_ok_def decideTimeoutHold_def same_suffix_snoc [of ts])
    next
      case False
      obtain k' f' where l: "last ts = (k', Some f')" using False by (cases "last ts") auto
      show ?thesis using snoc.IH pos False by (auto simp: t l hold_run_snoc Some hold_ok_def decideTimeoutHold_def same_suffix_snoc [of ts] Let_def)
    qed
  qed (simp add: t hold_run_snoc decideTimeoutHold_def hold_ok_def)
qed (simp add: hold_run_Nil hold_ok_def)

text \<open>Continuations are held exactly when the last two turns or more all timed out on the same single call over the same
  snapshot, and the streak is the number of those turns; one other turn resets it.\<close>

theorem timeout_hold_exact:
  "hs_streak (snd (hold_run turns)) = (if turns = [] \<or> snd (last turns) = None then 0 else same_suffix turns)
   \<and> (fst (hold_run turns) \<longleftrightarrow> (\<exists>ts k f. turns = ts @ [(k, Some f), (k, Some f)]))"
proof -
  have "fst (hold_run turns) \<longleftrightarrow> turns \<noteq> [] \<and> snd (last turns) \<noteq> None \<and> same_suffix turns \<ge> 2"
    using hold_run_ok [of turns] by (auto simp: hold_ok_def)
  also have "\<dots> \<longleftrightarrow> (\<exists>ts k f. turns = ts @ [(k, Some f), (k, Some f)])"
  proof (cases turns rule: rev_cases)
    case (snoc ts t)
    obtain k f where "t = (k, f)" by fastforce
    then show ?thesis using snoc by (cases ts rule: rev_cases) (auto simp: same_suffix_snoc, auto simp: same_suffix_def split: if_splits)
  qed simp
  finally show ?thesis using hold_run_ok [of turns] by (simp add: hold_ok_def)
qed

text \<open>Resuming a goal that is already active moves the baseline to the current counters without flushing: the tokens used since
  the last flush are never counted.\<close>

theorem resume_active_discards_usage:
  assumes "accounting rt g b l"
  shows "\<exists>g'. accounting (goal_exec env Resume rt) g' (ge_usage env) l \<and> g_tokensUsed g' = g_tokensUsed g"
  using assms by (auto simp: accounting_def resumeGoal_def markActiveAccounting_def commitState_def Let_def)

end
