(* ===== verification/Fallback_Chain.thy ===== *)
theory Fallback_Chain
  imports JS_Values
begin

text \<open>
  The fallback-chain policy of model requests (\<^verbatim>\<open>session/fallback-chain-controller.ts\<close>) and the retry delays beside it.
  A controller walks a chain of model selectors: an entry is tried up to \<^verbatim>\<open>maxAttempts\<close> times, then the next one;
  each entry that was left may be restored once for one attempt with a rotated credential.
\<close>

section \<open>Model\<close>

(* coding-agent/src/session/fallback-chain-controller.ts:4-10 ConfiguredFallbackChain *)
record fallback_chain =
  fc_role :: string
  fc_entries :: "string list"
  fc_origin :: string
  fc_identity :: "string option"
  fc_explicitHead :: bool

(* coding-agent/src/session/fallback-chain-controller.ts:12-16 FallbackFailure *)
record fallback_failure =
  ff_selector :: string
  ff_triggerClass :: string
  ff_reason :: string

(* coding-agent/src/session/fallback-chain-controller.ts:18-18 FallbackFailureResult *)
datatype failure_result = Retry | Advance | Exhausted

(* coding-agent/src/session/fallback-chain-controller.ts:24-35 FallbackChainController *)
record fallback_controller =
  fb_chain :: fallback_chain
  fb_maxAttempts :: nat
  fb_activeIndex :: nat
  fb_attemptsUsed :: nat
  fb_tried :: "fallback_failure list"
  fb_attemptStarted :: bool
  fb_totalAttemptsUsed :: nat
  fb_restored :: "nat set"
  fb_skips :: "(string \<times> string) list"
  fb_exhausted :: bool

abbreviation fb_entries :: "fallback_controller \<Rightarrow> string list" where
  "fb_entries c \<equiv> fc_entries (fb_chain c)"

text \<open>The constructor's argument is a number: only a positive integer is accepted.\<close>

(* coding-agent/src/session/fallback-chain-controller.ts:37-44 constructor *)
definition new_FallbackChainController :: "fallback_chain \<Rightarrow> rat \<Rightarrow> (string, fallback_controller) outcome" where
  "new_FallbackChainController chain maxAttempts =
     (if of_int \<lfloor>maxAttempts\<rfloor> \<noteq> maxAttempts \<or> maxAttempts < 1 then Inl ''fallback.maxAttempts must be a positive integer''
      else Inr \<lparr>fb_chain = chain, fb_maxAttempts = nat \<lfloor>maxAttempts\<rfloor>, fb_activeIndex = 0, fb_attemptsUsed = 0, fb_tried = [],
                fb_attemptStarted = False, fb_totalAttemptsUsed = 0, fb_restored = {}, fb_skips = [],
                fb_exhausted = (fc_entries chain = [])\<rparr>)"

(* coding-agent/src/session/fallback-chain-controller.ts:50-52 maxTotalAttempts *)
definition maxTotalAttempts :: "fallback_controller \<Rightarrow> nat" where
  "maxTotalAttempts c = fb_maxAttempts c * length (fb_entries c) + card (fb_restored c)"

text \<open>An entry that is the empty string counts as no selector, as \<^verbatim>\<open>!selector\<close> does.\<close>

(* coding-agent/src/session/fallback-chain-controller.ts:54-56 currentSelector *)
definition currentSelector :: "fallback_controller \<Rightarrow> string option" where
  "currentSelector c = (if fb_activeIndex c < length (fb_entries c) then Some (fb_entries c ! fb_activeIndex c) else None)"

definition has_selector :: "fallback_controller \<Rightarrow> bool" where
  "has_selector c = (case currentSelector c of None \<Rightarrow> False | Some s \<Rightarrow> s \<noteq> [])"

(* coding-agent/src/session/fallback-chain-controller.ts:123-133 advance *)
definition fb_advance :: "fallback_controller \<Rightarrow> fallback_controller \<times> bool" where
  "fb_advance c =
     (if fb_exhausted c then (c, False)
      else let c' = c\<lparr>fb_activeIndex := fb_activeIndex c + 1, fb_attemptsUsed := 0, fb_attemptStarted := False\<rparr>
           in if fb_activeIndex c' \<ge> length (fb_entries c) then (c'\<lparr>fb_exhausted := True\<rparr>, False) else (c', True))"

(* coding-agent/src/session/fallback-chain-controller.ts:58-62 onResolutionSkip *)
definition onResolutionSkip :: "string \<Rightarrow> fallback_controller \<Rightarrow> fallback_controller \<times> bool" where
  "onResolutionSkip reason c =
     fb_advance (case currentSelector c of
       Some s \<Rightarrow> if s \<noteq> [] then c\<lparr>fb_skips := fb_skips c @ [(s, reason)]\<rparr> else c
     | None \<Rightarrow> c)"

(* coding-agent/src/session/fallback-chain-controller.ts:65-75 onAttemptStarted *)
definition onAttemptStarted :: "fallback_controller \<Rightarrow> fallback_controller" where
  "onAttemptStarted c =
     (if \<not> has_selector c \<or> fb_exhausted c then c
      else if fb_totalAttemptsUsed c \<ge> maxTotalAttempts c
      then c\<lparr>fb_activeIndex := length (fb_entries c), fb_exhausted := True\<rparr>
      else c\<lparr>fb_attemptsUsed := fb_attemptsUsed c + 1, fb_totalAttemptsUsed := fb_totalAttemptsUsed c + 1, fb_attemptStarted := True\<rparr>)"

(* coding-agent/src/session/fallback-chain-controller.ts:78-83 discardStartedAttempt *)
definition discardStartedAttempt :: "fallback_controller \<Rightarrow> fallback_controller" where
  "discardStartedAttempt c =
     (if \<not> fb_attemptStarted c then c
      else c\<lparr>fb_attemptsUsed := fb_attemptsUsed c - 1, fb_totalAttemptsUsed := fb_totalAttemptsUsed c - 1, fb_attemptStarted := False\<rparr>)"

(* coding-agent/src/session/fallback-chain-controller.ts:86-92 resetAttemptBudget *)
definition resetAttemptBudget :: "fallback_controller \<Rightarrow> fallback_controller" where
  "resetAttemptBudget c = c\<lparr>fb_attemptsUsed := 0, fb_totalAttemptsUsed := 0, fb_tried := [], fb_restored := {}, fb_attemptStarted := False\<rparr>"

(* coding-agent/src/session/fallback-chain-controller.ts:95-103 seedResolution *)
definition seedResolution :: "int \<Rightarrow> (string \<times> string) list \<Rightarrow> fallback_controller \<Rightarrow> fallback_controller" where
  "seedResolution activeIndex skips c =
     (let i = nat (min (max 0 activeIndex) (int (length (fb_entries c))))
      in c\<lparr>fb_activeIndex := i, fb_skips := skips, fb_attemptsUsed := 0, fb_totalAttemptsUsed := 0, fb_restored := {},
           fb_attemptStarted := False, fb_exhausted := (i \<ge> length (fb_entries c))\<rparr>)"

(* coding-agent/src/session/fallback-chain-controller.ts:105-121 onAttemptFailure *)
definition onAttemptFailure :: "string \<Rightarrow> string \<Rightarrow> fallback_controller \<Rightarrow> fallback_controller \<times> failure_result" where
  "onAttemptFailure triggerClass reason c =
     (case currentSelector c of
        None \<Rightarrow> (c, Exhausted)
      | Some selector \<Rightarrow>
          if selector = [] \<or> fb_exhausted c then (c, Exhausted)
          else let c1 = (if fb_attemptStarted c then c
                         else c\<lparr>fb_attemptsUsed := fb_attemptsUsed c + 1, fb_totalAttemptsUsed := fb_totalAttemptsUsed c + 1\<rparr>);
                   c2 = c1\<lparr>fb_attemptStarted := False,
                           fb_tried := fb_tried c @ [\<lparr>ff_selector = selector, ff_triggerClass = triggerClass, ff_reason = reason\<rparr>]\<rparr>
               in if fb_totalAttemptsUsed c2 \<ge> maxTotalAttempts c2
                  then (c2\<lparr>fb_activeIndex := length (fb_entries c), fb_exhausted := True\<rparr>, Exhausted)
                  else if fb_attemptsUsed c2 < fb_maxAttempts c2 then (c2, Retry)
                  else (case fb_advance c2 of (c3, ok) \<Rightarrow> (c3, if ok then Advance else Exhausted)))"

(* coding-agent/src/session/fallback-chain-controller.ts:140-156 restorePreviousEntryForRetry *)
definition restorePreviousEntryForRetry :: "fallback_controller \<Rightarrow> fallback_controller \<times> bool" where
  "restorePreviousEntryForRetry c =
     (if fb_activeIndex c = 0 \<or> fb_exhausted c \<or> fb_activeIndex c - 1 \<in> fb_restored c
         \<or> fb_totalAttemptsUsed c \<ge> maxTotalAttempts c
      then (c, False)
      else (c\<lparr>fb_restored := insert (fb_activeIndex c - 1) (fb_restored c), fb_activeIndex := fb_activeIndex c - 1,
              fb_attemptsUsed := fb_maxAttempts c - 1, fb_exhausted := False, fb_attemptStarted := False\<rparr>, True))"

(* coding-agent/src/session/fallback-chain-controller.ts:162-175 resetSticky *)
definition resetSticky :: "fallback_controller \<Rightarrow> fallback_controller" where
  "resetSticky c = c\<lparr>fb_activeIndex := 0, fb_attemptsUsed := 0, fb_totalAttemptsUsed := 0, fb_tried := [], fb_restored := {},
     fb_skips := [], fb_exhausted := (fb_entries c = []), fb_attemptStarted := False\<rparr>"

section \<open>Retry delays\<close>

(* coding-agent/src/session/fallback-chain-controller.ts:178-187 cappedExponentialWithFullJitter *)
definition cappedExponentialWithFullJitter :: "rat \<Rightarrow> rat \<Rightarrow> int \<Rightarrow> rat \<Rightarrow> int" where
  "cappedExponentialWithFullJitter baseDelayMs maxDelayMs attemptK random =
     (let exponential = baseDelayMs * 2 ^ nat (max 0 (attemptK - 1));
          cap = (if maxDelayMs > 0 then min exponential maxDelayMs else exponential)
      in \<lfloor>max 0 cap * max 0 (min 1 random)\<rfloor>)"

(* coding-agent/src/session/fallback-chain-controller.ts:203-214 compactionRetryDelay *)
definition compactionRetryDelay :: "rat \<Rightarrow> rat \<Rightarrow> int \<Rightarrow> jv \<Rightarrow> rat" where
  "compactionRetryDelay baseDelayMs maxDelayMs attempt retryAfterMs =
     (let exponential = baseDelayMs * 2 ^ nat (max 0 attempt);
          hint = (case retryAfterMs of JNum r \<Rightarrow> max 0 r | _ \<Rightarrow> 0);
          hinted = max exponential hint;
          bounded = (if maxDelayMs > 0 then min hinted maxDelayMs else hinted)
      in max 0 bounded)"

(* coding-agent/src/session/fallback-chain-controller.ts:217-225 effectiveFallbackDelay *)
definition effectiveFallbackDelay :: "rat \<Rightarrow> rat \<Rightarrow> int \<Rightarrow> rat option \<Rightarrow> rat \<Rightarrow> rat" where
  "effectiveFallbackDelay baseDelayMs maxDelayMs attemptK retryAfterMs random =
     max (of_int (cappedExponentialWithFullJitter baseDelayMs maxDelayMs attemptK random))
       (case retryAfterMs of None \<Rightarrow> 0 | Some r \<Rightarrow> r)"

section \<open>Runs of one request\<close>

text \<open>
  Within one request the session starts an attempt only after the previous one failed or was discarded, and reports a
  failure only of a started attempt; resolution skips happen between attempts, and the previous entry is restored right
  after the chain advanced, before the new entry is attempted.
\<close>

datatype fallback_op = Start | Fail string string | Discard | Skip string | Restore

inductive fallback_step :: "fallback_controller \<Rightarrow> fallback_op \<Rightarrow> fallback_controller \<Rightarrow> bool" where
  start: "\<not> fb_attemptStarted c \<Longrightarrow> fallback_step c Start (onAttemptStarted c)"
| fail: "fb_attemptStarted c \<Longrightarrow> fallback_step c (Fail t r) (fst (onAttemptFailure t r c))"
| discard: "fallback_step c Discard (discardStartedAttempt c)"
| skip: "\<not> fb_attemptStarted c \<Longrightarrow> fallback_step c (Skip r) (fst (onResolutionSkip r c))"
| restore: "\<not> fb_attemptStarted c \<Longrightarrow> fb_attemptsUsed c = 0 \<Longrightarrow> fallback_step c Restore (fst (restorePreviousEntryForRetry c))"

inductive_cases fallback_stepE: "fallback_step c op c'"

text \<open>The attempts charged so far never reach into what the entries ahead are due.\<close>

definition fallback_inv :: "fallback_controller \<Rightarrow> bool" where
  "fallback_inv c \<longleftrightarrow>
     0 < fb_maxAttempts c \<and> finite (fb_restored c) \<and> fb_restored c \<subseteq> {i. Suc i < length (fb_entries c)}
   \<and> length (fb_tried c) + (if fb_attemptStarted c then 1 else 0) \<le> fb_totalAttemptsUsed c
   \<and> fb_totalAttemptsUsed c \<le> maxTotalAttempts c
   \<and> (if fb_exhausted c then \<not> fb_attemptStarted c
      else fb_activeIndex c < length (fb_entries c)
         \<and> (if fb_attemptStarted c then 0 < fb_attemptsUsed c \<and> fb_attemptsUsed c \<le> fb_maxAttempts c
            else fb_attemptsUsed c < fb_maxAttempts c)
         \<and> fb_totalAttemptsUsed c \<le> fb_maxAttempts c * fb_activeIndex c + card (fb_restored c) + fb_attemptsUsed c)"

lemma budget_reserved: "(i :: nat) < n \<Longrightarrow> m * i + m \<le> m * n"
  by (metis Suc_leI mult.commute mult_Suc mult_le_mono1 add.commute)

lemma budget_last: "0 < m \<Longrightarrow> i < n \<Longrightarrow> a \<le> m \<Longrightarrow> m * n \<le> m * i + a \<Longrightarrow> Suc i = n \<and> a = (m :: nat)"
proof (rule ccontr)
  assume *: "0 < m" "i < n" "a \<le> m" "m * n \<le> m * i + a" "\<not> (Suc i = n \<and> a = m)"
  show False
  proof (cases "Suc i = n")
    case False
    with * have "m * (i + 2) \<le> m * n" by (intro mult_le_mono2) simp
    with * show ?thesis by (simp add: algebra_simps)
  qed (use * in auto)
qed

lemma started_inv:
  assumes "fallback_inv c" "\<not> fb_attemptStarted c"
  shows "fallback_inv (onAttemptStarted c)"
proof (cases "\<not> has_selector c \<or> fb_exhausted c")
  case False
  with assms have "fb_activeIndex c < length (fb_entries c)" by (simp add: fallback_inv_def)
  from budget_reserved [OF this, of "fb_maxAttempts c"] False assms show ?thesis
    by (auto simp: fallback_inv_def onAttemptStarted_def maxTotalAttempts_def)
qed (use assms in \<open>simp add: onAttemptStarted_def\<close>)

lemma discard_inv: "fallback_inv c \<Longrightarrow> fallback_inv (discardStartedAttempt c)"
  by (auto simp: fallback_inv_def discardStartedAttempt_def maxTotalAttempts_def split: if_splits)

lemma advance_inv:
  assumes "fallback_inv c" "\<not> fb_attemptStarted c \<or> fb_attemptsUsed c = fb_maxAttempts c" "length (fb_tried c) \<le> fb_totalAttemptsUsed c"
  shows "fallback_inv (fst (fb_advance c))"
  using assms by (auto simp: fallback_inv_def fb_advance_def maxTotalAttempts_def Let_def split: if_splits)

lemma failure_inv:
  assumes "fallback_inv c" "fb_attemptStarted c"
  shows "fallback_inv (fst (onAttemptFailure t r c))"
  using assms budget_reserved [of "fb_activeIndex c" "length (fb_entries c)" "fb_maxAttempts c"]
  by (auto simp: onAttemptFailure_def fallback_inv_def fb_advance_def maxTotalAttempts_def Let_def split: option.splits if_splits)

lemma skip_inv: "fallback_inv c \<Longrightarrow> \<not> fb_attemptStarted c \<Longrightarrow> fallback_inv (fst (onResolutionSkip r c))"
  unfolding onResolutionSkip_def
  by (rule advance_inv) (auto simp: fallback_inv_def maxTotalAttempts_def split: option.splits if_splits)

lemma restore_inv:
  assumes "fallback_inv c" "\<not> fb_attemptStarted c" "fb_attemptsUsed c = 0"
  shows "fallback_inv (fst (restorePreviousEntryForRetry c))"
proof (cases "snd (restorePreviousEntryForRetry c)")
  case True
  then obtain i where i: "fb_activeIndex c = Suc i" "i \<notin> fb_restored c" "\<not> fb_exhausted c"
    by (cases "fb_activeIndex c") (auto simp: restorePreviousEntryForRetry_def split: if_splits)
  with True assms show ?thesis
    by (auto simp: restorePreviousEntryForRetry_def fallback_inv_def maxTotalAttempts_def split: if_splits)
next
  case False
  then have "fst (restorePreviousEntryForRetry c) = c" by (auto simp: restorePreviousEntryForRetry_def split: if_splits)
  with assms show ?thesis by simp
qed

lemma fallback_step_inv [inv_intros]: "fallback_inv c \<Longrightarrow> fallback_step c op c' \<Longrightarrow> fallback_inv c'"
  by (erule fallback_stepE) (auto intro: started_inv failure_inv discard_inv skip_inv restore_inv)

text \<open>What a request never changes.\<close>

lemma fallback_step_chain: "fallback_step c op c' \<Longrightarrow> fb_chain c' = fb_chain c \<and> fb_maxAttempts c' = fb_maxAttempts c"
  by (erule fallback_stepE) (simp_all add: onAttemptStarted_def onAttemptFailure_def discardStartedAttempt_def onResolutionSkip_def
      fb_advance_def restorePreviousEntryForRetry_def Let_def split: option.split)

interpretation fallback: invariant_system fallback_step "\<lambda>c. fallback_inv c \<and> fb_chain c = ch \<and> fb_maxAttempts c = m" for ch m
  by unfold_locales (auto intro: fallback_step_inv dest: fallback_step_chain)

lemma fallback_inv_bound:
  assumes "fallback_inv c"
  shows "length (fb_tried c) \<le> fb_maxAttempts c * length (fb_entries c) + (length (fb_entries c) - 1)"
proof -
  have "{i. Suc i < length (fb_entries c)} = {..<length (fb_entries c) - 1}" by auto
  then have "fb_restored c \<subseteq> {..<length (fb_entries c) - 1}" using assms by (auto simp: fallback_inv_def)
  then have "card (fb_restored c) \<le> length (fb_entries c) - 1" by (metis card_lessThan card_mono finite_lessThan)
  then show ?thesis using assms by (auto simp: fallback_inv_def maxTotalAttempts_def split: if_splits)
qed

lemma new_controller_inv:
  "new_FallbackChainController chain m = Inr c \<Longrightarrow> fallback_inv c \<and> fb_chain c = chain \<and> fb_maxAttempts c = nat \<lfloor>m\<rfloor>"
  by (auto simp: new_FallbackChainController_def fallback_inv_def maxTotalAttempts_def split: if_splits)

section \<open>Properties of the fallback chain\<close>

text \<open>C19. Retrying ends: in one request over a chain of \<open>n\<close> entries at most \<open>maxAttempts * n + (n - 1)\<close> attempts fail, whatever is
  skipped, discarded or restored, so credential rotation stays bounded.\<close>

theorem fallback_attempts_bounded:
  assumes "new_FallbackChainController chain m = Inr c" "steps fallback_step c ops c'"
  shows "length (fb_tried c') \<le> nat \<lfloor>m\<rfloor> * length (fc_entries chain) + (length (fc_entries chain) - 1)
    \<and> fb_totalAttemptsUsed c' \<le> maxTotalAttempts c'"
proof -
  have "fallback_inv c' \<and> fb_chain c' = chain \<and> fb_maxAttempts c' = nat \<lfloor>m\<rfloor>"
    by (rule fallback.steps_inv [OF assms(2)]) (use new_controller_inv [OF assms(1)] in simp)
  then show ?thesis using fallback_inv_bound [of c'] by (auto simp: fallback_inv_def)
qed

text \<open>C18. No entry is cut short: in one request, an entry that is current and not exhausted is due a further attempt whenever none
  is running (starting one charges it and never trips the total limit), and a failure gives up only when the
  current entry is the last one and all its attempts are used.\<close>

theorem fallback_entries_reserved:
  assumes "new_FallbackChainController chain m = Inr c" "steps fallback_step c ops c'" "\<not> fb_exhausted c'" "has_selector c'"
  shows "if fb_attemptStarted c'
    then snd (onAttemptFailure t r c') = Exhausted
           \<longleftrightarrow> Suc (fb_activeIndex c') = length (fc_entries chain) \<and> fb_attemptsUsed c' = nat \<lfloor>m\<rfloor>
    else fb_attemptStarted (onAttemptStarted c') \<and> \<not> fb_exhausted (onAttemptStarted c')
           \<and> fb_activeIndex (onAttemptStarted c') = fb_activeIndex c' \<and> fb_attemptsUsed c' < nat \<lfloor>m\<rfloor>"
proof -
  have i: "fallback_inv c'" "fb_chain c' = chain" "fb_maxAttempts c' = nat \<lfloor>m\<rfloor>"
    using fallback.steps_inv [OF assms(2), of chain "nat \<lfloor>m\<rfloor>"] new_controller_inv [OF assms(1)] by auto
  have a: "fb_activeIndex c' < length (fc_entries chain)" using i assms(3) by (simp add: fallback_inv_def)
  note b = budget_reserved [OF a, of "nat \<lfloor>m\<rfloor>"]
  obtain s where s: "currentSelector c' = Some s" "s \<noteq> []" using assms(4) by (auto simp: has_selector_def split: option.splits)
  show ?thesis
  proof (cases "fb_attemptStarted c'")
    case False
    then have "fb_totalAttemptsUsed c' < maxTotalAttempts c'" "fb_attemptsUsed c' < nat \<lfloor>m\<rfloor>"
      using i assms(3) b by (auto simp: fallback_inv_def maxTotalAttempts_def)
    with False assms(3,4) show ?thesis by (simp add: onAttemptStarted_def)
  next
    case True
    have "fb_totalAttemptsUsed c' \<ge> maxTotalAttempts c' \<Longrightarrow>
        Suc (fb_activeIndex c') = length (fc_entries chain) \<and> fb_attemptsUsed c' = nat \<lfloor>m\<rfloor>"
      using i True assms(3) a budget_last [of "nat \<lfloor>m\<rfloor>" "fb_activeIndex c'" "length (fc_entries chain)"]
      by (auto simp: fallback_inv_def maxTotalAttempts_def)
    with True i s assms(3) a show ?thesis
      by (auto simp: onAttemptFailure_def fb_advance_def maxTotalAttempts_def fallback_inv_def Let_def)
  qed
qed

definition demo_chain :: fallback_chain where
  "demo_chain = \<lparr>fc_role = ''default'', fc_entries = [''a'', ''b''], fc_origin = ''settings'', fc_identity = None, fc_explicitHead = False\<rparr>"

definition demo_controller :: fallback_controller where
  "demo_controller = \<lparr>fb_chain = demo_chain, fb_maxAttempts = 2, fb_activeIndex = 0, fb_attemptsUsed = 0, fb_tried = [],
     fb_attemptStarted = False, fb_totalAttemptsUsed = 0, fb_restored = {}, fb_skips = [], fb_exhausted = False\<rparr>"

lemma demo_controller_new: "new_FallbackChainController demo_chain 2 = Inr demo_controller"
  by (simp add: new_FallbackChainController_def demo_controller_def demo_chain_def)

theorem fallback_attempts_bounded_witness:
  "length (fb_tried (fst (onAttemptFailure ''quota'' ''e'' (onAttemptStarted demo_controller)))) \<le> 5"
proof -
  have "fb_attemptStarted (onAttemptStarted demo_controller)" "\<not> fb_attemptStarted demo_controller"
    by (simp_all add: onAttemptStarted_def has_selector_def currentSelector_def maxTotalAttempts_def demo_controller_def demo_chain_def)
  then have "steps fallback_step demo_controller (([] @ [Start]) @ [Fail ''quota'' ''e''])
      (fst (onAttemptFailure ''quota'' ''e'' (onAttemptStarted demo_controller)))"
    by (intro steps_snoc [where t = "onAttemptStarted demo_controller"] steps_snoc [OF steps_Nil] fallback_step.intros)
  from fallback_attempts_bounded [OF demo_controller_new this] show ?thesis by (simp add: demo_chain_def)
qed

theorem fallback_entries_reserved_witness: "fb_attemptStarted (onAttemptStarted demo_controller)"
proof -
  have "\<not> fb_exhausted demo_controller" "has_selector demo_controller" "\<not> fb_attemptStarted demo_controller"
    by (simp_all add: has_selector_def currentSelector_def demo_controller_def demo_chain_def)
  with fallback_entries_reserved [OF demo_controller_new steps_Nil this(1,2)] show ?thesis by simp
qed

text \<open>Delays stay in range: a jittered delay is never negative and never above the exponential nor, when a maximum is set, above
  the maximum, whatever the random source yields; a server's retry-after is always waited out before a fallback; and
  the compaction delay is never negative and never above a set maximum, hint or not.\<close>

theorem retry_delays_bounded:
  "0 \<le> cappedExponentialWithFullJitter base mx k rnd
   \<and> of_int (cappedExponentialWithFullJitter base mx k rnd) \<le> max 0 (base * 2 ^ nat (max 0 (k - 1)))
   \<and> (if 0 < mx then of_int (cappedExponentialWithFullJitter base mx k rnd) \<le> mx else True)
   \<and> (case after of None \<Rightarrow> 0 | Some r \<Rightarrow> r) \<le> effectiveFallbackDelay base mx k after rnd
   \<and> 0 \<le> compactionRetryDelay base mx n hint
   \<and> (if 0 < mx then compactionRetryDelay base mx n hint \<le> mx else True)"
proof -
  define cap where "cap = (if mx > 0 then min (base * 2 ^ nat (max 0 (k - 1))) mx else base * 2 ^ nat (max 0 (k - 1)))"
  have le: "max 0 cap * max 0 (min 1 rnd) \<le> max 0 cap" by (simp add: mult_left_le)
  have j: "cappedExponentialWithFullJitter base mx k rnd = \<lfloor>max 0 cap * max 0 (min 1 rnd)\<rfloor>"
    by (simp add: cappedExponentialWithFullJitter_def cap_def Let_def)
  have up: "of_int (cappedExponentialWithFullJitter base mx k rnd) \<le> max 0 cap"
    unfolding j by (rule order_trans [OF of_int_floor_le le])
  have caps: "max 0 cap \<le> max 0 (base * 2 ^ nat (max 0 (k - 1)))" "0 < mx \<Longrightarrow> max 0 cap \<le> mx" by (auto simp: cap_def)
  have m: "if 0 < mx then of_int (cappedExponentialWithFullJitter base mx k rnd) \<le> mx else True"
    using order_trans [OF up caps(2)] by simp
  have c: "0 \<le> compactionRetryDelay base mx n hint" "if 0 < mx then compactionRetryDelay base mx n hint \<le> mx else True"
    by (simp_all add: compactionRetryDelay_def Let_def)
  show ?thesis
    by (intro conjI c m order_trans [OF up caps(1)]) (simp_all add: j effectiveFallbackDelay_def)
qed

end
