(* ===== verification/Session_Queues.thy ===== *)
theory Session_Queues
  imports GJC_Prelude
begin

text \<open>
  The queue of forced tool choices (\<^verbatim>\<open>session/tool-choice-queue.ts\<close>) and the queue of messages injected when the agent
  yields (\<^verbatim>\<open>session/yield-queue.ts\<close>).

  A generator of tool choices is the list of what it still yields. Directives are compared by identity in the source, so
  each carries a number of its own, handed out by the queue. A callback's answer is a function of its argument; that
  a callback was invoked is recorded in the log.
\<close>

section \<open>The tool choice queue\<close>

(* coding-agent/src/session/tool-choice-queue.ts:11-15 RejectInfo *)
datatype reject_reason = Aborted | ErrorReason | Cleared | Removed

text \<open>\<open>dc_onRejected\<close> tells whether the answer is \<^verbatim>\<open>requeue\<close>; \<open>dc_onInvoked\<close> names the handler.\<close>

(* coding-agent/src/session/tool-choice-queue.ts:20-34 DirectiveCallbacks *)
record 'c directive_callbacks =
  dc_onResolved :: bool
  dc_onRejected :: "('c \<Rightarrow> reject_reason \<Rightarrow> bool) option"
  dc_onInvoked :: "string option"

(* coding-agent/src/session/tool-choice-queue.ts:38-43 ToolChoiceDirective *)
record 'c directive =
  d_ref :: nat
  d_generator :: "'c list"
  d_label :: string
  d_callbacks :: "'c directive_callbacks"

(* coding-agent/src/session/tool-choice-queue.ts:45-53 PushOptions *)
record 'c push_options =
  po_now :: bool
  po_label :: "string option"
  po_callbacks :: "'c directive_callbacks"

datatype 'c tc_event = TcResolved string 'c | TcRejected string 'c reject_reason

(* coding-agent/src/session/tool-choice-queue.ts:70-77 ToolChoiceQueue *)
record 'c tool_choice_queue =
  tq_queue :: "'c directive list"
  tq_inFlight :: "('c directive \<times> 'c) option"
  tq_lastResolvedLabel :: "string option"
  tq_nextRef :: nat
  tq_log :: "'c tc_event list"

definition new_ToolChoiceQueue :: "'c tool_choice_queue" where
  "new_ToolChoiceQueue = \<lparr>tq_queue = [], tq_inFlight = None, tq_lastResolvedLabel = None, tq_nextRef = 0, tq_log = []\<rparr>"

(* coding-agent/src/session/tool-choice-queue.ts:89-104 push *)
definition tc_push :: "'c list \<Rightarrow> 'c push_options \<Rightarrow> 'c tool_choice_queue \<Rightarrow> 'c tool_choice_queue" where
  "tc_push generator options q =
     (let d = \<lparr>d_ref = tq_nextRef q, d_generator = generator,
               d_label = (case po_label options of None \<Rightarrow> ''anonymous'' | Some l \<Rightarrow> l), d_callbacks = po_callbacks options\<rparr>
      in q\<lparr>tq_nextRef := Suc (tq_nextRef q),
           tq_queue := (if po_now options then d # tq_queue q else tq_queue q @ [d])\<rparr>)"

(* coding-agent/src/session/tool-choice-queue.ts:81-83 pushOnce *)
definition tc_pushOnce :: "'c \<Rightarrow> 'c push_options \<Rightarrow> 'c tool_choice_queue \<Rightarrow> 'c tool_choice_queue" where
  "tc_pushOnce choice options q = tc_push [choice] options q"

(* coding-agent/src/session/tool-choice-queue.ts:85-87 pushSequence *)
definition tc_pushSequence :: "'c list \<Rightarrow> 'c push_options \<Rightarrow> 'c tool_choice_queue \<Rightarrow> 'c tool_choice_queue" where
  "tc_pushSequence choices options q = tc_push choices options q"

text \<open>The loop of \<^verbatim>\<open>nextToolChoice\<close> over the directives: exhausted ones are shifted out.\<close>

(* coding-agent/src/session/tool-choice-queue.ts:113-123 nextToolChoice *)
fun tc_next_loop :: "'c directive list \<Rightarrow> ('c directive \<times> 'c) option \<times> 'c directive list" where
  "tc_next_loop [] = (None, [])"
| "tc_next_loop (d # ds) =
     (case d_generator d of
        [] \<Rightarrow> tc_next_loop ds
      | c # cs \<Rightarrow> (Some (d\<lparr>d_generator := cs\<rparr>, c), d\<lparr>d_generator := cs\<rparr> # ds))"

(* coding-agent/src/session/tool-choice-queue.ts:112-124 nextToolChoice *)
definition nextToolChoice :: "'c tool_choice_queue \<Rightarrow> 'c option \<times> 'c tool_choice_queue" where
  "nextToolChoice q =
     (case tc_next_loop (tq_queue q) of
        (None, ds) \<Rightarrow> (None, q\<lparr>tq_queue := ds\<rparr>)
      | (Some (d, c), ds) \<Rightarrow> (Some c, q\<lparr>tq_queue := ds, tq_inFlight := Some (d, c)\<rparr>))"

(* coding-agent/src/session/tool-choice-queue.ts:133-140 resolve *)
definition tc_resolve :: "'c tool_choice_queue \<Rightarrow> 'c tool_choice_queue" where
  "tc_resolve q =
     (case tq_inFlight q of
        None \<Rightarrow> q
      | Some (d, c) \<Rightarrow> q\<lparr>tq_inFlight := None, tq_lastResolvedLabel := Some (d_label d),
          tq_log := tq_log q @ (if dc_onResolved (d_callbacks d) then [TcResolved (d_label d) c] else [])\<rparr>)"

(* coding-agent/src/session/tool-choice-queue.ts:161-168 reject *)
definition requeued :: "nat \<Rightarrow> 'c directive \<Rightarrow> 'c \<Rightarrow> 'c directive" where
  "requeued ref d c = \<lparr>d_ref = ref, d_generator = [c], d_label = d_label d @ ''-requeued'',
     d_callbacks = \<lparr>dc_onResolved = False, dc_onRejected = dc_onRejected (d_callbacks d), dc_onInvoked = dc_onInvoked (d_callbacks d)\<rparr>\<rparr>"

(* coding-agent/src/session/tool-choice-queue.ts:147-170 reject *)
definition tc_reject :: "reject_reason \<Rightarrow> 'c tool_choice_queue \<Rightarrow> 'c tool_choice_queue" where
  "tc_reject reason q =
     (case tq_inFlight q of
        None \<Rightarrow> q
      | Some (d, c) \<Rightarrow>
          (let q1 = q\<lparr>tq_inFlight := None\<rparr>
           in case dc_onRejected (d_callbacks d) of
                None \<Rightarrow> q1
              | Some f \<Rightarrow>
                  let q2 = q1\<lparr>tq_log := tq_log q @ [TcRejected (d_label d) c reason]\<rparr>
                  in if f c reason
                     then q2\<lparr>tq_queue := requeued (tq_nextRef q) d c # tq_queue q, tq_nextRef := Suc (tq_nextRef q)\<rparr>
                     else q2))"

(* coding-agent/src/session/tool-choice-queue.ts:177-192 degradeInFlight *)
definition degradeInFlight :: "'c tool_choice_queue \<Rightarrow> string option \<times> 'c tool_choice_queue" where
  "degradeInFlight q =
     (case tq_inFlight q of
        None \<Rightarrow> (None, q)
      | Some (d, c) \<Rightarrow>
          (Some (d_label d),
           q\<lparr>tq_inFlight := None,
             tq_queue := (case tq_queue q of [] \<Rightarrow> [] | h # ds \<Rightarrow> if d_ref h = d_ref d then ds else h # ds)\<rparr>))"

(* coding-agent/src/session/tool-choice-queue.ts:200-202 peekInFlightInvoker *)
definition peekInFlightInvoker :: "'c tool_choice_queue \<Rightarrow> string option" where
  "peekInFlightInvoker q = (case tq_inFlight q of None \<Rightarrow> None | Some (d, c) \<Rightarrow> dc_onInvoked (d_callbacks d))"

(* coding-agent/src/session/tool-choice-queue.ts:207-212 removeByLabel *)
definition removeByLabel :: "string \<Rightarrow> 'c tool_choice_queue \<Rightarrow> 'c tool_choice_queue" where
  "removeByLabel label q =
     (let q1 = (case tq_inFlight q of
          Some (d, c) \<Rightarrow> if d_label d = label then tc_reject Removed q else q
        | None \<Rightarrow> q)
      in q1\<lparr>tq_queue := filter (\<lambda>d. d_label d \<noteq> label) (tq_queue q1)\<rparr>)"

(* coding-agent/src/session/tool-choice-queue.ts:215-221 clear *)
definition tc_clear :: "'c tool_choice_queue \<Rightarrow> 'c tool_choice_queue" where
  "tc_clear q = (tc_reject Cleared q)\<lparr>tq_queue := [], tq_lastResolvedLabel := None\<rparr>"

(* coding-agent/src/session/tool-choice-queue.ts:226-230 consumeLastServedLabel *)
definition consumeLastServedLabel :: "'c tool_choice_queue \<Rightarrow> string option \<times> 'c tool_choice_queue" where
  "consumeLastServedLabel q = (tq_lastResolvedLabel q, q\<lparr>tq_lastResolvedLabel := None\<rparr>)"

(* coding-agent/src/session/tool-choice-queue.ts:233-235 inspect *)
definition tc_inspect :: "'c tool_choice_queue \<Rightarrow> string list" where
  "tc_inspect q = map d_label (tq_queue q)"

section \<open>The yield queue\<close>

text \<open>A dispatcher: \<open>yd_isStale\<close> and \<open>yd_build\<close> answer \<open>None\<close> when the callback throws, and \<open>yd_ref\<close> is its identity.\<close>

(* coding-agent/src/session/yield-queue.ts:20-23 StoredDispatcher *)
record ('p, 'm) dispatcher =
  yd_ref :: nat
  yd_isStale :: "('p \<Rightarrow> bool option) option"
  yd_build :: "'p list \<Rightarrow> 'm option option"

text \<open>The host: whether it streams and whether the scheduler accepts; the injected messages and the number of scheduled
  flushes that have not run yet are part of the state.\<close>

(* coding-agent/src/session/yield-queue.ts:29-37 YieldQueue *)
record ('p, 'm) yield_queue =
  yq_dispatchers :: "(string, ('p, 'm) dispatcher) jsmap"
  yq_entries :: "(string, 'p list) jsmap"
  yq_idleFlushPending :: bool
  yq_nextRef :: nat
  yq_scheduled :: nat
  yq_streamed :: "'m list"
  yq_idle :: "'m list list"

definition new_YieldQueue :: "('p, 'm) yield_queue" where
  "new_YieldQueue = \<lparr>yq_dispatchers = [], yq_entries = [], yq_idleFlushPending = False, yq_nextRef = 0, yq_scheduled = 0,
     yq_streamed = [], yq_idle = []\<rparr>"

(* coding-agent/src/session/yield-queue.ts:39-45 register *)
definition yq_register ::
  "string \<Rightarrow> ('p \<Rightarrow> bool option) option \<Rightarrow> ('p list \<Rightarrow> 'm option option) \<Rightarrow> ('p, 'm) yield_queue \<Rightarrow> nat \<times> ('p, 'm) yield_queue"
where
  "yq_register kind isStale build q =
     (yq_nextRef q,
      q\<lparr>yq_dispatchers := AList.update kind \<lparr>yd_ref = yq_nextRef q, yd_isStale = isStale, yd_build = build\<rparr> (yq_dispatchers q),
        yq_nextRef := Suc (yq_nextRef q)\<rparr>)"

(* coding-agent/src/session/yield-queue.ts:45-49 register *)
definition yq_unregister :: "string \<Rightarrow> nat \<Rightarrow> ('p, 'm) yield_queue \<Rightarrow> ('p, 'm) yield_queue" where
  "yq_unregister kind ref q =
     (if map_option yd_ref (map_of (yq_dispatchers q) kind) \<noteq> Some ref then q
      else q\<lparr>yq_dispatchers := AList.delete kind (yq_dispatchers q), yq_entries := AList.delete kind (yq_entries q)\<rparr>)"

(* coding-agent/src/session/yield-queue.ts:130-143 scheduleIdleFlush *)
definition scheduleIdleFlush :: "bool \<Rightarrow> ('p, 'm) yield_queue \<Rightarrow> ('p, 'm) yield_queue" where
  "scheduleIdleFlush accepted q =
     (if yq_idleFlushPending q then q
      else if accepted then q\<lparr>yq_idleFlushPending := True, yq_scheduled := Suc (yq_scheduled q)\<rparr>
      else q)"

definition entries_of :: "string \<Rightarrow> ('p, 'm) yield_queue \<Rightarrow> 'p list" where
  "entries_of kind q = (case map_of (yq_entries q) kind of None \<Rightarrow> [] | Some es \<Rightarrow> es)"

(* coding-agent/src/session/yield-queue.ts:52-66 enqueue *)
definition yq_enqueue :: "bool \<Rightarrow> bool \<Rightarrow> string \<Rightarrow> 'p \<Rightarrow> ('p, 'm) yield_queue \<Rightarrow> ('p, 'm) yield_queue" where
  "yq_enqueue streaming accepted kind entry q =
     (if map_of (yq_dispatchers q) kind = None then q
      else let q1 = q\<lparr>yq_entries := AList.update kind (entries_of kind q @ [entry]) (yq_entries q)\<rparr>
           in if streaming then q1 else scheduleIdleFlush accepted q1)"

(* coding-agent/src/session/yield-queue.ts:68-74 has *)
definition yq_has :: "string option \<Rightarrow> ('p, 'm) yield_queue \<Rightarrow> bool" where
  "yq_has kind q =
     (case kind of
        Some k \<Rightarrow> entries_of k q \<noteq> []
      | None \<Rightarrow> list_ex (\<lambda>(k, es). es \<noteq> []) (yq_entries q))"

(* coding-agent/src/session/yield-queue.ts:145-150 drain *)
definition yq_drain :: "string \<Rightarrow> ('p, 'm) yield_queue \<Rightarrow> 'p list \<times> ('p, 'm) yield_queue" where
  "yq_drain kind q =
     (if entries_of kind q = [] then ([], q) else (entries_of kind q, q\<lparr>yq_entries := AList.delete kind (yq_entries q)\<rparr>))"

(* coding-agent/src/session/yield-queue.ts:153-166 build *)
definition survivors :: "('p, 'm) dispatcher \<Rightarrow> 'p list \<Rightarrow> 'p list" where
  "survivors d es = (case yd_isStale d of None \<Rightarrow> es | Some stale \<Rightarrow> filter (\<lambda>e. stale e = Some False) es)"

(* coding-agent/src/session/yield-queue.ts:152-174 build *)
definition yq_build :: "('p, 'm) dispatcher \<Rightarrow> 'p list \<Rightarrow> 'm option" where
  "yq_build d es =
     (if survivors d es = [] then None
      else case yd_build d (survivors d es) of None \<Rightarrow> None | Some m \<Rightarrow> m)"

datatype flush_mode = Streaming | Idle

text \<open>The loop over the dispatchers in registration order; \<open>inject\<close> tells whether a streamed message is accepted (the message is
  handed over and lost when the host throws).\<close>

(* coding-agent/src/session/yield-queue.ts:81-95 flush *)
fun yq_flush_loop ::
  "flush_mode \<Rightarrow> ('m \<Rightarrow> bool) \<Rightarrow> (string \<times> ('p, 'm) dispatcher) list \<Rightarrow> 'm list \<Rightarrow> ('p, 'm) yield_queue
     \<Rightarrow> 'm list \<times> ('p, 'm) yield_queue"
where
  "yq_flush_loop mode inject [] idle q = (idle, q)"
| "yq_flush_loop mode inject ((kind, d) # ds) idle q =
     (case yq_drain kind q of
        ([], q1) \<Rightarrow> yq_flush_loop mode inject ds idle q1
      | (es, q1) \<Rightarrow> (case yq_build d es of
          None \<Rightarrow> yq_flush_loop mode inject ds idle q1
        | Some m \<Rightarrow>
            if mode = Streaming
            then yq_flush_loop mode inject ds idle (if inject m then q1\<lparr>yq_streamed := yq_streamed q1 @ [m]\<rparr> else q1)
            else yq_flush_loop mode inject ds (idle @ [m]) q1))"

(* coding-agent/src/session/yield-queue.ts:76-103 flush *)
definition yq_flush :: "flush_mode \<Rightarrow> ('m \<Rightarrow> bool) \<Rightarrow> bool \<Rightarrow> ('p, 'm) yield_queue \<Rightarrow> ('p, 'm) yield_queue" where
  "yq_flush mode inject injectIdle q =
     (let q0 = (if mode = Idle then q\<lparr>yq_idleFlushPending := False\<rparr> else q)
      in case yq_flush_loop mode inject (yq_dispatchers q0) [] q0 of
           (idle, q1) \<Rightarrow> if mode = Idle \<and> idle \<noteq> [] \<and> injectIdle then q1\<lparr>yq_idle := yq_idle q1 @ [idle]\<rparr> else q1)"

text \<open>A scheduled flush runs.\<close>

(* coding-agent/src/session/yield-queue.ts:134-138 scheduleIdleFlush *)
definition yq_run_scheduled :: "bool \<Rightarrow> ('m \<Rightarrow> bool) \<Rightarrow> bool \<Rightarrow> ('p, 'm) yield_queue \<Rightarrow> ('p, 'm) yield_queue" where
  "yq_run_scheduled streaming inject injectIdle q =
     (if yq_scheduled q = 0 then q
      else let q1 = q\<lparr>yq_scheduled := yq_scheduled q - 1, yq_idleFlushPending := False\<rparr>
           in if streaming then q1 else yq_flush Idle inject injectIdle q1)"

(* coding-agent/src/session/yield-queue.ts:105-108 clear *)
definition yq_clear :: "('p, 'm) yield_queue \<Rightarrow> ('p, 'm) yield_queue" where
  "yq_clear q = q\<lparr>yq_entries := [], yq_idleFlushPending := False\<rparr>"

(* coding-agent/src/session/yield-queue.ts:111-113 clearKind *)
definition yq_clearKind :: "string \<Rightarrow> ('p, 'm) yield_queue \<Rightarrow> ('p, 'm) yield_queue" where
  "yq_clearKind kind q = q\<lparr>yq_entries := AList.delete kind (yq_entries q)\<rparr>"

(* coding-agent/src/session/yield-queue.ts:120-128 rearmIdle *)
definition rearmIdle :: "bool \<Rightarrow> bool \<Rightarrow> ('p, 'm) yield_queue \<Rightarrow> ('p, 'm) yield_queue" where
  "rearmIdle streaming accepted q =
     (if streaming then q else if yq_has None q then scheduleIdleFlush accepted q else q)"

section \<open>Tool choices in order\<close>

text \<open>What the queue will still yield.\<close>

definition pending :: "'c tool_choice_queue \<Rightarrow> 'c list" where
  "pending q = concat (map d_generator (tq_queue q))"

lemma tc_next_loop_cases:
  "case tc_next_loop ds of
     (None, ds') \<Rightarrow> concat (map d_generator ds) = [] \<and> ds' = []
   | (Some (d, c), ds') \<Rightarrow> concat (map d_generator ds) = c # concat (map d_generator ds')"
  by (induction ds) (auto split: list.split option.splits prod.splits)

interpretation tool_choices: fifo_source "\<lambda>_. True" pending nextToolChoice
proof (unfold_locales, goal_cases)
  case (2 q)
  show ?case using tc_next_loop_cases [of "tq_queue q"]
    by (auto simp: nextToolChoice_def pending_def simp del: concat_eq_Nil_conv split: option.splits prod.splits)
next
  case (3 q)
  show ?case using tc_next_loop_cases [of "tq_queue q"]
    by (auto simp: nextToolChoice_def pending_def simp del: concat_eq_Nil_conv split: option.splits prod.splits)
qed simp

text \<open>A turn that takes the next choice and is rejected.\<close>

definition lost_turn :: "reject_reason \<Rightarrow> 'c tool_choice_queue \<Rightarrow> 'c tool_choice_queue" where
  "lost_turn reason q = tc_reject reason (snd (nextToolChoice q))"

definition in_flight :: "'c tool_choice_queue \<Rightarrow> ('c directive \<times> 'c) option" where
  "in_flight q = tq_inFlight (snd (nextToolChoice q))"

lemma nextToolChoice_head:
  assumes "tq_queue q = d # ds" "d_generator d = [c]"
  shows "fst (nextToolChoice q) = Some c" "in_flight q = Some (d\<lparr>d_generator := []\<rparr>, c)"
    "tq_queue (snd (nextToolChoice q)) = d\<lparr>d_generator := []\<rparr> # ds"
  using assms by (simp_all add: nextToolChoice_def in_flight_def)

lemma lost_turn_replays:
  assumes "fst (nextToolChoice q) = Some c" "in_flight q = Some (d, c)" "dc_onRejected (d_callbacks d) = Some f" "f c reason"
  shows "fst (nextToolChoice (lost_turn reason q)) = Some c"
    "\<exists>d'. in_flight (lost_turn reason q) = Some (d', c) \<and> dc_onRejected (d_callbacks d') = Some f
        \<and> dc_onInvoked (d_callbacks d') = dc_onInvoked (d_callbacks d)"
    "pending (snd (nextToolChoice (lost_turn reason q))) = pending (snd (nextToolChoice q))"
proof -
  let ?q = "snd (nextToolChoice q)"
  have q: "tq_queue (lost_turn reason q) = requeued (tq_nextRef ?q) d c # tq_queue ?q"
    using assms by (simp add: lost_turn_def tc_reject_def in_flight_def Let_def)
  have "d_generator (requeued (tq_nextRef ?q) d c) = [c]" by (simp add: requeued_def)
  note h = nextToolChoice_head [OF q this]
  show "fst (nextToolChoice (lost_turn reason q)) = Some c" by (rule h(1))
  show "\<exists>d'. in_flight (lost_turn reason q) = Some (d', c) \<and> dc_onRejected (d_callbacks d') = Some f
        \<and> dc_onInvoked (d_callbacks d') = dc_onInvoked (d_callbacks d)"
    using h(2) assms(3) by (simp add: requeued_def)
  show "pending (snd (nextToolChoice (lost_turn reason q))) = pending ?q" using h(3) by (simp add: pending_def)
qed

section \<open>Yield queue lemmas\<close>

definition yq_inv :: "('p, 'm) yield_queue \<Rightarrow> bool" where
  "yq_inv q \<longleftrightarrow> keys_distinct (yq_dispatchers q) \<and> fst ` set (yq_entries q) \<subseteq> fst ` set (yq_dispatchers q)
    \<and> (yq_idleFlushPending q \<longrightarrow> yq_scheduled q > 0)"

lemma entries_of_drain [simp]:
  "entries_of k (snd (yq_drain j q)) = (if k = j then [] else entries_of k q)"
  by (auto simp: yq_drain_def entries_of_def js_simps)

lemma yq_drain_fst [simp]: "fst (yq_drain k q) = entries_of k q"
  by (simp add: yq_drain_def)

lemma yq_drain_simps [simp]:
  "yq_dispatchers (snd (yq_drain k q)) = yq_dispatchers q" "yq_streamed (snd (yq_drain k q)) = yq_streamed q"
  "yq_idle (snd (yq_drain k q)) = yq_idle q" "yq_scheduled (snd (yq_drain k q)) = yq_scheduled q"
  "yq_idleFlushPending (snd (yq_drain k q)) = yq_idleFlushPending q"
  by (simp_all add: yq_drain_def)

lemma build_none [simp]: "yq_build d [] = None"
  by (simp add: yq_build_def survivors_def split: option.split)

text \<open>One turn of the loop, for a kind with entries or without.\<close>

lemma yq_flush_loop_Cons:
  "yq_flush_loop mode inject ((k, d) # ds) idle q =
     (case yq_build d (entries_of k q) of
        None \<Rightarrow> yq_flush_loop mode inject ds idle (snd (yq_drain k q))
      | Some m \<Rightarrow>
          if mode = Streaming
          then yq_flush_loop mode inject ds idle
                 (if inject m then (snd (yq_drain k q))\<lparr>yq_streamed := yq_streamed q @ [m]\<rparr> else snd (yq_drain k q))
          else yq_flush_loop mode inject ds (idle @ [m]) (snd (yq_drain k q)))"
proof -
  obtain es q1 where d: "yq_drain k q = (es, q1)" by fastforce
  then have e: "entries_of k q = es" "yq_streamed q = yq_streamed q1" using yq_drain_fst [of k q] yq_drain_simps(2) [of k q] by auto
  show ?thesis unfolding e by (cases es) (simp_all add: d split: option.split)
qed

declare yq_flush_loop.simps(2) [simp del]

text \<open>The messages a flush builds, one per registered kind with something to say, in registration order.\<close>

definition messages :: "(string \<times> ('p, 'm) dispatcher) list \<Rightarrow> ('p, 'm) yield_queue \<Rightarrow> 'm list" where
  "messages ds q = concat (map (\<lambda>(k, d). case yq_build d (entries_of k q) of None \<Rightarrow> [] | Some m \<Rightarrow> [m]) ds)"

lemma messages_cong: "(\<And>k. k \<in> fst ` set ds \<Longrightarrow> entries_of k q = entries_of k q') \<Longrightarrow> messages ds q = messages ds q'"
  unfolding messages_def by (induction ds) auto

lemma entries_of_streamed [simp]: "entries_of k (q\<lparr>yq_streamed := s\<rparr>) = entries_of k q"
  by (simp add: entries_of_def)

lemma yq_flush_loop_spec:
  assumes "distinct (map fst ds)"
  shows "(\<forall>k. entries_of k (snd (yq_flush_loop mode inject ds idle q)) = (if k \<in> fst ` set ds then [] else entries_of k q))
    \<and> fst (yq_flush_loop mode inject ds idle q) = idle @ (if mode = Idle then messages ds q else [])
    \<and> yq_streamed (snd (yq_flush_loop mode inject ds idle q)) = yq_streamed q @ (if mode = Streaming then filter inject (messages ds q) else [])
    \<and> yq_idle (snd (yq_flush_loop mode inject ds idle q)) = yq_idle q
    \<and> yq_dispatchers (snd (yq_flush_loop mode inject ds idle q)) = yq_dispatchers q
    \<and> yq_scheduled (snd (yq_flush_loop mode inject ds idle q)) = yq_scheduled q
    \<and> yq_idleFlushPending (snd (yq_flush_loop mode inject ds idle q)) = yq_idleFlushPending q"
  using assms
proof (induction ds arbitrary: idle q)
  case (Cons p ds)
  obtain k d where p: "p = (k, d)" by fastforce
  let ?m = "yq_build d (entries_of k q)"
  define q1 where "q1 = (case ?m of Some m \<Rightarrow> if mode = Streaming \<and> inject m then (snd (yq_drain k q))\<lparr>yq_streamed := yq_streamed q @ [m]\<rparr>
      else snd (yq_drain k q) | None \<Rightarrow> snd (yq_drain k q))"
  define idle1 where "idle1 = (case ?m of Some m \<Rightarrow> if mode = Streaming then idle else idle @ [m] | None \<Rightarrow> idle)"
  have step: "yq_flush_loop mode inject (p # ds) idle q = yq_flush_loop mode inject ds idle1 q1"
    by (simp add: p yq_flush_loop_Cons q1_def idle1_def split: option.split)
  have e: "entries_of j q1 = (if j = k then [] else entries_of j q)" for j by (simp add: q1_def split: option.split)
  have k: "k \<notin> fst ` set ds" using Cons.prems p by auto
  have ms: "messages ds q1 = messages ds q" by (rule messages_cong) (use k e in auto)
  have md: "mode = Idle \<longleftrightarrow> mode \<noteq> Streaming" by (cases mode) auto
  have "messages (p # ds) q = (case ?m of None \<Rightarrow> [] | Some m \<Rightarrow> [m]) @ messages ds q" by (simp add: messages_def p)
  then show ?case
    using Cons.IH [of idle1 q1] Cons.prems k unfolding step ms
    by (auto simp: e p q1_def idle1_def md split: option.split)
qed (simp add: messages_def)

text \<open>The operations of the queue, with what the host does during each.\<close>

inductive yq_step :: "('p, 'm) yield_queue \<Rightarrow> unit \<Rightarrow> ('p, 'm) yield_queue \<Rightarrow> bool" where
  register: "yq_step q () (snd (yq_register kind stale build q))"
| unregister: "yq_step q () (yq_unregister kind ref q)"
| enqueue: "yq_step q () (yq_enqueue streaming accepted kind e q)"
| flush: "yq_step q () (yq_flush mode inject injectIdle q)"
| run_scheduled: "yq_step q () (yq_run_scheduled streaming inject injectIdle q)"
| clear: "yq_step q () (yq_clear q)"
| clear_kind: "yq_step q () (yq_clearKind kind q)"
| rearm: "yq_step q () (rearmIdle streaming accepted q)"

inductive_cases yq_stepE: "yq_step q l q'"

lemma yq_schedule_inv: "yq_inv q \<Longrightarrow> yq_inv (scheduleIdleFlush accepted q)"
  by (simp add: yq_inv_def scheduleIdleFlush_def)

lemma flush_loop_keys: "fst ` set (yq_entries (snd (yq_flush_loop mode inject ds idle q))) \<subseteq> fst ` set (yq_entries q)"
proof (induction ds arbitrary: idle q)
  case (Cons p ds)
  obtain k d where p: "p = (k, d)" by fastforce
  obtain idle1 q1 where q1: "yq_flush_loop mode inject (p # ds) idle q = yq_flush_loop mode inject ds idle1 q1"
    "yq_entries q1 = yq_entries (snd (yq_drain k q))"
  proof (cases "yq_build d (entries_of k q)")
    case None
    then show ?thesis using that by (simp add: p yq_flush_loop_Cons)
  next
    case (Some m)
    show ?thesis by (rule that [of "if mode = Streaming then idle else idle @ [m]"
      "if mode = Streaming \<and> inject m then (snd (yq_drain k q))\<lparr>yq_streamed := yq_streamed q @ [m]\<rparr> else snd (yq_drain k q)"])
      (simp_all add: p yq_flush_loop_Cons Some)
  qed
  have "fst ` set (yq_entries (snd (yq_drain k q))) \<subseteq> fst ` set (yq_entries q)" by (auto simp: yq_drain_def AList.delete_eq)
  with Cons.IH [of idle1 q1] show ?case unfolding q1 by (rule order_trans)
qed simp

lemma yq_flush_inv:
  assumes "yq_inv q"
  shows "yq_inv (yq_flush mode inject injectIdle q)"
proof -
  define q0 where "q0 = (if mode = Idle then q\<lparr>yq_idleFlushPending := False\<rparr> else q)"
  have i: "yq_inv q0" using assms by (simp add: q0_def yq_inv_def)
  obtain idle q1 where l: "yq_flush_loop mode inject (yq_dispatchers q0) [] q0 = (idle, q1)" by fastforce
  have "fst ` set (yq_entries q1) \<subseteq> fst ` set (yq_dispatchers q0)"
    using flush_loop_keys [of mode inject "yq_dispatchers q0" "[]" q0] i unfolding l yq_inv_def by (simp only: snd_conv) (blast dest: subset_trans)
  then have "yq_inv q1"
    using i yq_flush_loop_spec [of "yq_dispatchers q0" mode inject "[]" q0] unfolding l yq_inv_def by simp
  then show ?thesis by (simp add: yq_flush_def q0_def [symmetric] l yq_inv_def)
qed

lemma keys_delete: "fst ` set (AList.delete k m) = fst ` set m - {k}"
  by (auto simp: AList.delete_eq)

lemma yq_register_inv: "yq_inv q \<Longrightarrow> yq_inv (snd (yq_register kind stale build q))"
  by (auto simp: yq_inv_def yq_register_def dom_update distinct_update)

lemma yq_unregister_inv: "yq_inv q \<Longrightarrow> yq_inv (yq_unregister kind ref q)"
  by (auto simp: yq_inv_def yq_unregister_def keys_delete distinct_delete)

lemma yq_enqueue_inv: "yq_inv q \<Longrightarrow> yq_inv (yq_enqueue streaming accepted kind e q)"
proof (cases "map_of (yq_dispatchers q) kind")
  case (Some d)
  assume q: "yq_inv q"
  from Some have "kind \<in> fst ` set (yq_dispatchers q)" by (metis map_of_eq_None_iff option.discI)
  with q have "yq_inv (q\<lparr>yq_entries := AList.update kind es (yq_entries q)\<rparr>)" for es by (simp add: yq_inv_def dom_update)
  then show ?thesis by (simp add: yq_enqueue_def Let_def yq_schedule_inv q)
qed (simp add: yq_enqueue_def)

lemma yq_run_scheduled_inv: "yq_inv q \<Longrightarrow> yq_inv (yq_run_scheduled streaming inject injectIdle q)"
proof -
  assume "yq_inv q"
  then have "yq_inv (q\<lparr>yq_scheduled := n, yq_idleFlushPending := False\<rparr>)" for n by (simp add: yq_inv_def)
  then show ?thesis using \<open>yq_inv q\<close> by (simp add: yq_run_scheduled_def Let_def yq_flush_inv)
qed

lemma yq_clear_inv: "yq_inv q \<Longrightarrow> yq_inv (yq_clear q)" "yq_inv q \<Longrightarrow> yq_inv (yq_clearKind kind q)"
  by (auto simp: yq_inv_def yq_clear_def yq_clearKind_def keys_delete)

lemma yq_rearm_inv: "yq_inv q \<Longrightarrow> yq_inv (rearmIdle streaming accepted q)"
  by (simp add: rearmIdle_def yq_schedule_inv)

lemmas yq_inv_ops = yq_register_inv yq_unregister_inv yq_enqueue_inv yq_flush_inv yq_run_scheduled_inv yq_clear_inv yq_rearm_inv

lemma yq_step_inv [inv_intros]: "yq_inv q \<Longrightarrow> yq_step q l q' \<Longrightarrow> yq_inv q'"
  by (erule yq_stepE) (simp_all add: yq_inv_ops)

interpretation yield: invariant_system yq_step yq_inv
  by unfold_locales (rule yq_step_inv)

lemma new_yield_inv: "yq_inv new_YieldQueue"
  by (simp add: yq_inv_def new_YieldQueue_def)

lemma unregistered_empty: "yq_inv q \<Longrightarrow> k \<notin> fst ` set (yq_dispatchers q) \<Longrightarrow> entries_of k q = []"
proof -
  assume "yq_inv q" "k \<notin> fst ` set (yq_dispatchers q)"
  then have "k \<notin> fst ` set (yq_entries q)" by (auto simp only: yq_inv_def)
  then show ?thesis by (simp add: entries_of_def map_of_eq_None_iff [THEN iffD2])
qed

lemma flush_exact:
  assumes "yq_inv q"
  shows "entries_of k (yq_flush mode inject injectIdle q) = []"
    "yq_streamed (yq_flush Streaming inject injectIdle q) = yq_streamed q @ filter inject (messages (yq_dispatchers q) q)"
    "yq_idle (yq_flush Idle inject True q) = yq_idle q @ (if messages (yq_dispatchers q) q = [] then [] else [messages (yq_dispatchers q) q])"
proof -
  have d: "distinct (map fst (yq_dispatchers q))" using assms by (simp add: yq_inv_def)
  have e: "entries_of k (q\<lparr>yq_idleFlushPending := b\<rparr>) = entries_of k q" "messages ds (q\<lparr>yq_idleFlushPending := b\<rparr>) = messages ds q"
    "entries_of k (q\<lparr>yq_idle := i\<rparr>) = entries_of k q" for k b ds i q
    by (simp_all add: entries_of_def messages_def)
  note spec = yq_flush_loop_spec [OF d, of mode inject "[]"]
  show "entries_of k (yq_flush mode inject injectIdle q) = []"
    using spec [of q] spec [of "q\<lparr>yq_idleFlushPending := False\<rparr>"] unregistered_empty [OF assms, of k]
    by (auto simp: yq_flush_def Let_def e split: prod.splits)
  show "yq_streamed (yq_flush Streaming inject injectIdle q) = yq_streamed q @ filter inject (messages (yq_dispatchers q) q)"
    using yq_flush_loop_spec [OF d, of Streaming inject "[]" q] by (auto simp: yq_flush_def Let_def split: prod.splits)
  show "yq_idle (yq_flush Idle inject True q) = yq_idle q @ (if messages (yq_dispatchers q) q = [] then [] else [messages (yq_dispatchers q) q])"
    using yq_flush_loop_spec [OF d, of Idle inject "[]" "q\<lparr>yq_idleFlushPending := False\<rparr>"]
    by (auto simp: yq_flush_def Let_def e split: prod.splits)
qed

section \<open>Properties of the queues\<close>

text \<open>Forced choices are yielded in order and once: taking choices until none is left returns exactly what the queued directives
  still had to yield, front directive first, and then the queue yields nothing.\<close>

theorem tool_choices_in_order:
  "fst (tool_choices.drain (length (pending q)) q) = pending q
   \<and> fst (nextToolChoice (snd (tool_choices.drain (length (pending q)) q))) = None"
  using tool_choices.drain_contents [of q "length (pending q)"] by (simp add: tool_choices.popFront_item)

text \<open>C33. A lost turn is replayed: when the directive of the next choice asks to requeue it, then after any number of turns lost in a
  row the queue yields the same choice with the same handler, and what comes after it is unchanged.\<close>

theorem lost_turns_replay:
  assumes "fst (nextToolChoice q) = Some c" "in_flight q = Some (d, c)" "dc_onRejected (d_callbacks d) = Some f" "f c reason"
  shows "fst (nextToolChoice ((lost_turn reason ^^ n) q)) = Some c
    \<and> peekInFlightInvoker (snd (nextToolChoice ((lost_turn reason ^^ n) q))) = dc_onInvoked (d_callbacks d)
    \<and> pending (snd (nextToolChoice ((lost_turn reason ^^ n) q))) = tl (pending q)"
proof -
  have "fst (nextToolChoice ((lost_turn reason ^^ n) q)) = Some c
    \<and> (\<exists>d'. in_flight ((lost_turn reason ^^ n) q) = Some (d', c) \<and> dc_onRejected (d_callbacks d') = Some f
         \<and> dc_onInvoked (d_callbacks d') = dc_onInvoked (d_callbacks d))
    \<and> pending (snd (nextToolChoice ((lost_turn reason ^^ n) q))) = pending (snd (nextToolChoice q))"
  proof (induction n)
    case (Suc n)
    let ?q = "(lost_turn reason ^^ n) q"
    obtain d' where d': "in_flight ?q = Some (d', c)" "dc_onRejected (d_callbacks d') = Some f"
      "dc_onInvoked (d_callbacks d') = dc_onInvoked (d_callbacks d)" using Suc by blast
    from lost_turn_replays [OF conjunct1 [OF Suc] d'(1,2) assms(4)] d'(3) Suc show ?case by auto
  qed (use assms in auto)
  then show ?thesis by (auto simp: peekInFlightInvoker_def in_flight_def tool_choices.popFront_contents)
qed

definition demo_tools :: "string tool_choice_queue" where
  "demo_tools = tc_pushSequence [''bash'', ''todo''] \<lparr>po_now = False, po_label = Some ''user'',
     po_callbacks = \<lparr>dc_onResolved = True, dc_onRejected = Some (\<lambda>_ _. True), dc_onInvoked = Some ''run''\<rparr>\<rparr> new_ToolChoiceQueue"

theorem lost_turns_replay_witness:
  "fst (nextToolChoice ((lost_turn Aborted ^^ 3) demo_tools)) = Some ''bash''"
  using lost_turns_replay [of demo_tools "''bash''" _ "\<lambda>_ _. True" Aborted 3]
  by (simp add: demo_tools_def tc_pushSequence_def tc_push_def new_ToolChoiceQueue_def nextToolChoice_def in_flight_def Let_def)

text \<open>A label is not enough to remove a directive: one that is in flight and asks to requeue comes back under another label.\<close>

theorem removal_requeues:
  assumes "tq_inFlight q = Some (d, c)" "d_label d = l" "dc_onRejected (d_callbacks d) = Some f" "f c Removed"
  shows "fst (nextToolChoice (removeByLabel l q)) = Some c"
proof -
  have "tq_queue (removeByLabel l q) = requeued (tq_nextRef q) d c # filter (\<lambda>d. d_label d \<noteq> l) (tq_queue q)"
    using assms by (auto simp: removeByLabel_def tc_reject_def requeued_def Let_def)
  from nextToolChoice_head(1) [OF this] show ?thesis by (simp add: requeued_def)
qed


text \<open>Nothing is stranded: an entry of a registered kind that comes in while the agent is idle has a flush scheduled, however the
  queue was used before, and when a scheduled flush runs while the agent is still idle no entry is left.\<close>

theorem yield_not_stranded:
  assumes "steps yq_step new_YieldQueue ls q" "map_of (yq_dispatchers q) kind \<noteq> None"
  shows "yq_scheduled (yq_enqueue False True kind e q) > 0
    \<and> entries_of k (yq_run_scheduled False inject injectIdle (yq_enqueue False True kind e q)) = []"
proof -
  have q: "yq_inv q" by (rule yield.steps_inv [OF assms(1) new_yield_inv])
  let ?q = "yq_enqueue False True kind e q"
  have i: "yq_inv ?q" by (rule yq_enqueue_inv [OF q])
  have "yq_idleFlushPending ?q" using assms(2) by (auto simp: yq_enqueue_def scheduleIdleFlush_def Let_def)
  with i have s: "yq_scheduled ?q > 0" by (simp add: yq_inv_def)
  have "yq_inv (?q\<lparr>yq_scheduled := yq_scheduled ?q - 1, yq_idleFlushPending := False\<rparr>)" using i by (simp add: yq_inv_def)
  from flush_exact(1) [OF this] s show ?thesis by (simp add: yq_run_scheduled_def Let_def)
qed

definition demo_yields :: "(nat, nat list) yield_queue" where
  "demo_yields = yq_enqueue False True ''jobs'' 7 (snd (yq_register ''jobs'' None (\<lambda>es. Some (Some es)) new_YieldQueue))"

lemma demo_registered: "steps yq_step new_YieldQueue ([] @ [()]) (snd (yq_register ''jobs'' None (\<lambda>es. Some (Some es)) new_YieldQueue))"
  by (rule steps_snoc [OF steps_Nil], rule yq_step.register)

lemma demo_yields_run: "steps yq_step new_YieldQueue (([] @ [()]) @ [()]) demo_yields"
  unfolding demo_yields_def by (rule steps_snoc [OF demo_registered], rule yq_step.enqueue)


theorem yield_not_stranded_witness:
  "yq_scheduled (yq_enqueue False True ''jobs'' 7 (snd (yq_register ''jobs'' None (\<lambda>es. Some (Some es)) new_YieldQueue) :: (nat, nat list) yield_queue)) > 0"
  using yield_not_stranded [OF demo_registered, of "''jobs''" "7 :: nat"] by (simp add: yq_register_def js_simps)

end
