(* ===== verification/Ring_Buffer.thy ===== *)
theory Ring_Buffer
  imports GJC_Prelude
begin

text \<open>
  The fixed-capacity circular buffer of \<^verbatim>\<open>packages/utils/src/ring.ts\<close> and the kill ring of
  \<^verbatim>\<open>packages/tui/src/kill-ring.ts\<close>.

  The locale \<open>bounded_deque\<close> extends the contract of an ordered source by appending to a bounded list; the
  circular buffer is interpreted in it, so every client fact proved from the contract holds of the code's model. A slot
  that holds \<^verbatim>\<open>undefined\<close> is \<open>None\<close>.
\<close>

section \<open>The contract\<close>

locale bounded_deque = fifo_source wf contents popFront
  for wf :: "'s \<Rightarrow> bool" and contents :: "'s \<Rightarrow> 'a list" and popFront :: "'s \<Rightarrow> 'a option \<times> 's" +
  fixes cap :: nat
    and pushBack :: "'a \<Rightarrow> 's \<Rightarrow> 'a option \<times> 's"
  assumes bounded: "wf s \<Longrightarrow> length (contents s) \<le> cap"
    and cap_pos: "wf s \<Longrightarrow> cap > 0"
    and pushBack_wf: "wf s \<Longrightarrow> wf (snd (pushBack x s))"
    and pushBack_contents: "wf s \<Longrightarrow> contents (snd (pushBack x s))
          = (if length (contents s) = cap then tl (contents s) else contents s) @ [x]"
    and pushBack_lost: "wf s \<Longrightarrow> fst (pushBack x s)
          = (if length (contents s) = cap then Some (hd (contents s)) else None)"
begin

text \<open>Appending a sequence keeps exactly its last \<open>cap\<close> elements, and what was lost is what came before, in order.\<close>

primrec pushAll :: "'a list \<Rightarrow> 's \<Rightarrow> 'a list \<times> 's" where
  "pushAll [] s = ([], s)"
| "pushAll (x # xs) s =
     (case pushBack x s of (lost, s') \<Rightarrow>
        case pushAll xs s' of (ls, t) \<Rightarrow> ((case lost of None \<Rightarrow> ls | Some l \<Rightarrow> l # ls), t))"

lemma pushAll_window:
  "wf s \<Longrightarrow> wf (snd (pushAll xs s)) \<and> fst (pushAll xs s) @ contents (snd (pushAll xs s)) = contents s @ xs
    \<and> length (contents (snd (pushAll xs s))) = min cap (length (contents s) + length xs)"
proof (induction xs arbitrary: s)
  case Nil
  then show ?case using bounded by auto
next
  case (Cons x xs)
  obtain lost s' where p: "pushBack x s = (lost, s')" by fastforce
  have s': "wf s'" "contents s' = (if length (contents s) = cap then tl (contents s) else contents s) @ [x]"
    "lost = (if length (contents s) = cap then Some (hd (contents s)) else None)"
    using pushBack_wf [OF Cons.prems, of x] pushBack_contents [OF Cons.prems, of x] pushBack_lost [OF Cons.prems, of x] p by simp_all
  obtain ls t where r: "pushAll xs s' = (ls, t)" by fastforce
  have nz: "length (contents s) = cap \<Longrightarrow> contents s \<noteq> []" using cap_pos [OF Cons.prems] by auto
  show ?case using Cons.IH [OF s'(1)] s'(2,3) p r bounded [OF Cons.prems] nz
    by (cases "length (contents s) = cap") (auto simp: min_def)
qed

end

section \<open>The circular buffer\<close>

(* utils/src/ring.ts:7-19 RingBuffer *)
record 'a ring =
  rb_capacity :: nat
  rb_buf :: "'a option list"
  rb_head :: nat
  rb_size :: nat

(* utils/src/ring.ts:17-19 constructor *)
definition new_RingBuffer :: "nat \<Rightarrow> 'a ring" where
  "new_RingBuffer capacity = \<lparr>rb_capacity = capacity, rb_buf = replicate capacity None, rb_head = 0, rb_size = 0\<rparr>"

(* utils/src/ring.ts:31-33 isFull *)
definition ring_isFull :: "'a ring \<Rightarrow> bool" where
  "ring_isFull r \<longleftrightarrow> rb_size r = rb_capacity r"

(* utils/src/ring.ts:38-40 isEmpty *)
definition ring_isEmpty :: "'a ring \<Rightarrow> bool" where
  "ring_isEmpty r \<longleftrightarrow> rb_size r = 0"

(* utils/src/ring.ts:49-59 push *)
definition ring_push :: "'a \<Rightarrow> 'a ring \<Rightarrow> 'a option \<times> 'a ring" where
  "ring_push item r =
     (let idx = (rb_head r + rb_size r) mod rb_capacity r;
          overwritten = (if rb_size r = rb_capacity r then rb_buf r ! idx else None);
          r' = r\<lparr>rb_buf := (rb_buf r)[idx := Some item]\<rparr>
      in (overwritten,
          if rb_size r = rb_capacity r then r'\<lparr>rb_head := (rb_head r + 1) mod rb_capacity r\<rparr>
          else r'\<lparr>rb_size := rb_size r + 1\<rparr>))"

(* utils/src/ring.ts:66-73 shift *)
definition ring_shift :: "'a ring \<Rightarrow> 'a option \<times> 'a ring" where
  "ring_shift r =
     (if rb_size r = 0 then (None, r)
      else (rb_buf r ! rb_head r,
            r\<lparr>rb_buf := (rb_buf r)[rb_head r := None], rb_head := (rb_head r + 1) mod rb_capacity r, rb_size := rb_size r - 1\<rparr>))"

(* utils/src/ring.ts:80-87 pop *)
definition ring_pop :: "'a ring \<Rightarrow> 'a option \<times> 'a ring" where
  "ring_pop r =
     (if rb_size r = 0 then (None, r)
      else let idx = (rb_head r + rb_size r - 1) mod rb_capacity r
           in (rb_buf r ! idx, r\<lparr>rb_buf := (rb_buf r)[idx := None], rb_size := rb_size r - 1\<rparr>))"

(* utils/src/ring.ts:96-102 unshift *)
definition ring_unshift :: "'a \<Rightarrow> 'a ring \<Rightarrow> 'a option \<times> 'a ring" where
  "ring_unshift item r =
     (let h = (rb_head r + rb_capacity r - 1) mod rb_capacity r;
          overwritten = (if rb_size r = rb_capacity r then rb_buf r ! h else None)
      in (overwritten,
          r\<lparr>rb_buf := (rb_buf r)[h := Some item], rb_head := h,
            rb_size := (if rb_size r < rb_capacity r then rb_size r + 1 else rb_size r)\<rparr>))"

(* utils/src/ring.ts:111-115 at *)
definition ring_at :: "int \<Rightarrow> 'a ring \<Rightarrow> 'a option" where
  "ring_at index r =
     (let i = (if index < 0 then index + int (rb_size r) else index)
      in if i < 0 \<or> i \<ge> int (rb_size r) then None
         else rb_buf r ! ((rb_head r + nat i) mod rb_capacity r))"

(* utils/src/ring.ts:122-124 peek *)
definition ring_peek :: "'a ring \<Rightarrow> 'a option" where
  "ring_peek r = ring_at 0 r"

(* utils/src/ring.ts:131-133 peekBack *)
definition ring_peekBack :: "'a ring \<Rightarrow> 'a option" where
  "ring_peekBack r = ring_at (int (rb_size r) - 1) r"

(* utils/src/ring.ts:138-142 clear *)
definition ring_clear :: "'a ring \<Rightarrow> 'a ring" where
  "ring_clear r = r\<lparr>rb_buf := replicate (rb_capacity r) None, rb_head := 0, rb_size := 0\<rparr>"

text \<open>The iterator and \<^verbatim>\<open>toArray\<close>, which copies at most two slices instead of reducing every index.\<close>

(* utils/src/ring.ts:150-154 iterator *)
definition ring_iterator :: "'a ring \<Rightarrow> 'a option list" where
  "ring_iterator r = map (\<lambda>i. rb_buf r ! ((rb_head r + i) mod rb_capacity r)) [0..<rb_size r]"

definition slice :: "'b list \<Rightarrow> nat \<Rightarrow> nat \<Rightarrow> 'b list" where
  "slice xs from until = take (until - from) (drop from xs)"

(* utils/src/ring.ts:161-168 toArray *)
definition ring_toArray :: "'a ring \<Rightarrow> 'a option list" where
  "ring_toArray r =
     (if rb_head r + rb_size r \<le> rb_capacity r then slice (rb_buf r) (rb_head r) (rb_head r + rb_size r)
      else slice (rb_buf r) (rb_head r) (rb_capacity r) @ slice (rb_buf r) 0 ((rb_head r + rb_size r) mod rb_capacity r))"

section \<open>The representation\<close>

text \<open>The ring represents \<open>xs\<close>: from the head on, the slots hold the elements of \<open>xs\<close> in order and every other slot is
  cleared, so a removed element is not kept alive.\<close>

definition ring_rep :: "'a ring \<Rightarrow> 'a list \<Rightarrow> bool" where
  "ring_rep r xs \<longleftrightarrow>
     length (rb_buf r) = rb_capacity r \<and> rb_head r < rb_capacity r \<and> rb_size r = length xs \<and> length xs \<le> rb_capacity r
   \<and> (\<forall>i < rb_capacity r. rb_buf r ! ((rb_head r + i) mod rb_capacity r) = (if i < length xs then Some (xs ! i) else None))"

definition ring_wf :: "'a ring \<Rightarrow> bool" where
  "ring_wf r \<longleftrightarrow> ring_rep r (map the (ring_iterator r))"

definition ring_contents :: "'a ring \<Rightarrow> 'a list" where
  "ring_contents r = map the (ring_iterator r)"

lemma mod_window_inj: "(i :: nat) < c \<Longrightarrow> j < c \<Longrightarrow> (h + i) mod c = (h + j) mod c \<longleftrightarrow> i = j"
proof -
  have "i = j" if "(h + i) mod c = (h + j) mod c" "i < c" "j < c" "i \<le> j" for i j
  proof -
    from that have "c dvd (h + j) - (h + i)" by (metis mod_eq_dvd_iff_nat add_le_cancel_left)
    with that show ?thesis by (auto dest: dvd_imp_le)
  qed
  then show "i < c \<Longrightarrow> j < c \<Longrightarrow> ?thesis" by (metis nat_le_linear)
qed

lemma ring_slot_inj:
  "ring_rep r xs \<Longrightarrow> i < rb_capacity r \<Longrightarrow> j < rb_capacity r
    \<Longrightarrow> (rb_head r + i) mod rb_capacity r = (rb_head r + j) mod rb_capacity r \<longleftrightarrow> i = j"
  by (rule mod_window_inj)

lemma ring_rep_iterator:
  assumes "ring_rep r xs"
  shows "ring_iterator r = map Some xs" "ring_contents r = xs"
proof -
  show "ring_iterator r = map Some xs"
    using assms by (auto simp: ring_rep_def ring_iterator_def intro: nth_equalityI)
  then show "ring_contents r = xs" by (simp add: ring_contents_def o_def)
qed

lemma ring_wf_iff: "ring_wf r \<longleftrightarrow> ring_rep r (ring_contents r)"
  by (simp add: ring_wf_def ring_contents_def)

lemma ring_rep_wf: "ring_rep r xs \<Longrightarrow> ring_wf r"
  by (simp add: ring_wf_iff ring_rep_iterator(2))

lemma ring_rep_new: "cap > 0 \<Longrightarrow> ring_rep (new_RingBuffer cap) []"
  by (simp add: ring_rep_def new_RingBuffer_def)

lemma ring_rep_clear: "ring_rep r xs \<Longrightarrow> ring_rep (ring_clear r) []"
  by (auto simp: ring_rep_def ring_clear_def)

lemma head_slot: "h < c \<Longrightarrow> (h + c) mod (c :: nat) = h" by simp

lemma next_slot: "(Suc h mod c + i) mod c = Suc (h + i) mod (c :: nat)"
  by (simp add: mod_simps)

lemma ring_rep_push:
  assumes "ring_rep r xs"
  shows "ring_rep (snd (ring_push x r)) ((if length xs = rb_capacity r then tl xs else xs) @ [x])"
    and "fst (ring_push x r) = (if length xs = rb_capacity r then Some (hd xs) else None)"
proof -
  let ?c = "rb_capacity r" and ?h = "rb_head r"
  note r = assms [unfolded ring_rep_def]
  have slot: "rb_buf r ! ((?h + i) mod ?c) = (if i < length xs then Some (xs ! i) else None)" if "i < ?c" for i
    using r that by blast
  have in_buf: "(?h + i) mod ?c < length (rb_buf r)" for i using r by (metis gr_zeroI mod_less_divisor not_less_zero)
  show "ring_rep (snd (ring_push x r)) ((if length xs = ?c then tl xs else xs) @ [x])"
  proof (cases "length xs = ?c")
    case False
    have "(rb_buf r)[(?h + length xs) mod ?c := Some x] ! ((?h + i) mod ?c)
        = (if i < Suc (length xs) then Some ((xs @ [x]) ! i) else None)" if "i < ?c" for i
      using slot [OF that] ring_slot_inj [OF assms that, of "length xs"] in_buf r False
      by (auto simp: nth_list_update nth_append)
    with False r show ?thesis by (auto simp: ring_rep_def ring_push_def Let_def)
  next
    case True
    have "(rb_buf r)[(?h + ?c) mod ?c := Some x] ! ((?h + Suc i) mod ?c) = Some ((tl xs @ [x]) ! i)" if "i < ?c" for i
    proof (cases "Suc i = ?c")
      case True
      then show ?thesis using in_buf [of 0] \<open>length xs = ?c\<close> by (auto simp: nth_append)
    next
      case False
      then have "(?h + Suc i) mod ?c \<noteq> (?h + 0) mod ?c" using ring_slot_inj [OF assms, of "Suc i" 0] that by auto
      then show ?thesis using slot [of "Suc i"] False that \<open>length xs = ?c\<close> r by (auto simp: nth_append nth_tl)
    qed
    with True r show ?thesis by (auto simp: ring_rep_def ring_push_def Let_def next_slot)
  qed
  show "fst (ring_push x r) = (if length xs = ?c then Some (hd xs) else None)"
    using slot [of 0] r by (auto simp: ring_push_def Let_def hd_conv_nth)
qed

lemma ring_rep_shift:
  assumes "ring_rep r xs"
  shows "ring_rep (snd (ring_shift r)) (tl xs)"
    and "fst (ring_shift r) = (if xs = [] then None else Some (hd xs))"
proof -
  let ?c = "rb_capacity r" and ?h = "rb_head r"
  note r = assms [unfolded ring_rep_def]
  have slot: "rb_buf r ! ((?h + i) mod ?c) = (if i < length xs then Some (xs ! i) else None)" if "i < ?c" for i
    using r that by blast
  show "fst (ring_shift r) = (if xs = [] then None else Some (hd xs))"
    using slot [of 0] r by (auto simp: ring_shift_def hd_conv_nth)
  show "ring_rep (snd (ring_shift r)) (tl xs)"
  proof (cases xs)
    case (Cons y ys)
    have "(rb_buf r)[?h := None] ! ((?h + Suc i) mod ?c) = (if i < length ys then Some (ys ! i) else None)" if "i < ?c" for i
    proof (cases "Suc i = ?c")
      case True
      then show ?thesis using r Cons by auto
    next
      case False
      then have "(?h + Suc i) mod ?c \<noteq> (?h + 0) mod ?c" using ring_slot_inj [OF assms, of "Suc i" 0] that by auto
      then show ?thesis using slot [of "Suc i"] False that Cons r by auto
    qed
    with Cons r show ?thesis by (auto simp: ring_rep_def ring_shift_def next_slot)
  qed (use assms in \<open>simp add: ring_rep_def ring_shift_def\<close>)
qed

lemma ring_rep_pop:
  assumes "ring_rep r xs"
  shows "ring_rep (snd (ring_pop r)) (butlast xs)"
    and "fst (ring_pop r) = (if xs = [] then None else Some (last xs))"
proof -
  let ?c = "rb_capacity r" and ?h = "rb_head r"
  note r = assms [unfolded ring_rep_def]
  have slot: "rb_buf r ! ((?h + i) mod ?c) = (if i < length xs then Some (xs ! i) else None)" if "i < ?c" for i
    using r that by blast
  have "ring_rep (snd (ring_pop r)) (butlast xs) \<and> fst (ring_pop r) = (if xs = [] then None else Some (last xs))"
  proof (cases "length xs")
    case (Suc n)
    then have n: "n < ?c" "xs \<noteq> []" using r by auto
    with Suc have l: "xs ! n = last xs" by (simp add: last_conv_nth)
    have "(rb_buf r)[(?h + n) mod ?c := None] ! ((?h + i) mod ?c) = (if i < n then Some (butlast xs ! i) else None)" if "i < ?c" for i
      using slot [OF that] ring_slot_inj [OF assms that n(1)] r Suc by (auto simp: nth_list_update nth_butlast)
    with Suc r n l slot [OF n(1)] show ?thesis by (auto simp: ring_rep_def ring_pop_def Let_def)
  qed (use assms in \<open>simp add: ring_rep_def ring_pop_def\<close>)
  then show "ring_rep (snd (ring_pop r)) (butlast xs)" "fst (ring_pop r) = (if xs = [] then None else Some (last xs))" by simp_all
qed

lemma prev_slot: "h < c \<Longrightarrow> ((h + c - 1) mod c + Suc i) mod c = (h + i) mod (c :: nat)"
proof -
  assume "h < c"
  then have "(h + c - 1) + Suc i = (h + i) + c" by simp
  then have "((h + c - 1) + Suc i) mod c = (h + i) mod c" by (simp only: mod_add_self2)
  then show ?thesis by (simp only: mod_add_left_eq)
qed

lemma ring_rep_unshift:
  assumes "ring_rep r xs"
  shows "ring_rep (snd (ring_unshift x r)) (x # (if length xs = rb_capacity r then butlast xs else xs))"
    and "fst (ring_unshift x r) = (if length xs = rb_capacity r then Some (last xs) else None)"
proof -
  let ?c = "rb_capacity r" and ?h = "rb_head r"
  let ?g = "(?h + ?c - 1) mod ?c"
  note r = assms [unfolded ring_rep_def]
  have slot: "rb_buf r ! ((?h + i) mod ?c) = (if i < length xs then Some (xs ! i) else None)" if "i < ?c" for i
    using r that by blast
  have g: "?g < ?c" "?g = (?h + (?c - 1)) mod ?c" using r by (auto simp: add_diff_assoc)
  show "fst (ring_unshift x r) = (if length xs = ?c then Some (last xs) else None)"
  proof (cases "length xs = ?c")
    case True
    with r have "xs \<noteq> []" "?c - 1 < ?c" by auto
    with True have "xs ! (?c - 1) = last xs" by (metis last_conv_nth)
    with slot [OF \<open>?c - 1 < ?c\<close>] True r g(2) show ?thesis by (simp add: ring_unshift_def Let_def)
  qed (use r in \<open>simp add: ring_unshift_def Let_def\<close>)
  have "(rb_buf r)[?g := Some x] ! ((?g + i) mod ?c)
      = (if i < length (x # (if length xs = ?c then butlast xs else xs)) then Some ((x # (if length xs = ?c then butlast xs else xs)) ! i) else None)"
    if "i < ?c" for i
  proof (cases i)
    case 0
    then show ?thesis using g r by simp
  next
    case (Suc j)
    have at: "(?g + Suc j) mod ?c = (?h + j) mod ?c" using prev_slot r by blast
    have "(?g + Suc j) mod ?c \<noteq> (?g + 0) mod ?c" using mod_window_inj [of "Suc j" ?c 0 ?g] that Suc r by simp
    then have "(?h + j) mod ?c \<noteq> ?g" unfolding at using g(1) by simp
    then show ?thesis using slot [of j] that r unfolding Suc at by (auto simp: nth_butlast)
  qed
  then show "ring_rep (snd (ring_unshift x r)) (x # (if length xs = ?c then butlast xs else xs))"
    using r g(1) by (auto simp: ring_rep_def ring_unshift_def Let_def)
qed

lemma ring_rep_at:
  assumes "ring_rep r xs"
  shows "ring_at i r = (let j = (if i < 0 then i + int (length xs) else i) in if j < 0 \<or> j \<ge> int (length xs) then None else Some (xs ! nat j))"
  using assms by (auto simp: ring_rep_def ring_at_def Let_def)

lemma ring_rep_toArray:
  assumes "ring_rep r xs"
  shows "ring_toArray r = map Some xs"
proof -
  let ?c = "rb_capacity r" and ?h = "rb_head r"
  note r = assms [unfolded ring_rep_def]
  have slot: "rb_buf r ! ((?h + i) mod ?c) = Some (xs ! i)" if "i < length xs" for i using r that by auto
  have dims: "length (rb_buf r) = ?c" "?h < ?c" "rb_size r = length xs" "length xs \<le> ?c" using r by auto
  show ?thesis
  proof (rule nth_equalityI)
    show "length (ring_toArray r) = length (map Some xs)"
      using r by (auto simp: ring_toArray_def slice_def mod_if)
    fix i assume "i < length (ring_toArray r)"
    with r have i: "i < length xs" by (auto simp: ring_toArray_def slice_def mod_if split: if_splits)
    show "ring_toArray r ! i = map Some xs ! i"
    proof (cases "?h + i < ?c")
      case True
      then show ?thesis using slot [OF i] i dims by (auto simp: ring_toArray_def slice_def nth_append mod_if)
    next
      case False
      then have "(?h + i) mod ?c = i - (?c - ?h)" using i dims by (auto simp: mod_if)
      with slot [OF i] have "rb_buf r ! (i - (?c - ?h)) = Some (xs ! i)" by simp
      then show ?thesis using i dims False by (auto simp: ring_toArray_def slice_def nth_append mod_if)
    qed
  qed
qed

section \<open>The contract holds\<close>

lemma ring_capacity_simps [simp]:
  "rb_capacity (snd (ring_push x r)) = rb_capacity r" "rb_capacity (snd (ring_unshift x r)) = rb_capacity r"
  "rb_capacity (snd (ring_shift r)) = rb_capacity r" "rb_capacity (snd (ring_pop r)) = rb_capacity r"
  "rb_capacity (ring_clear r) = rb_capacity r" "rb_capacity (new_RingBuffer cap) = cap"
  by (simp_all add: ring_push_def ring_unshift_def ring_shift_def ring_pop_def ring_clear_def new_RingBuffer_def Let_def)

lemmas ring_rep_steps = ring_rep_push ring_rep_shift ring_rep_pop ring_rep_unshift

lemma ring_wf_facts:
  assumes "ring_wf r"
  shows "length (ring_contents r) \<le> rb_capacity r" "rb_capacity r > 0"
    "ring_wf (snd (ring_push x r))" "ring_wf (snd (ring_shift r))"
    "ring_contents (snd (ring_push x r)) = (if length (ring_contents r) = rb_capacity r then tl (ring_contents r) else ring_contents r) @ [x]"
    "fst (ring_push x r) = (if length (ring_contents r) = rb_capacity r then Some (hd (ring_contents r)) else None)"
    "ring_contents (snd (ring_shift r)) = tl (ring_contents r)"
    "fst (ring_shift r) = (if ring_contents r = [] then None else Some (hd (ring_contents r)))"
proof -
  have r: "ring_rep r (ring_contents r)" using assms by (simp add: ring_wf_iff)
  then show "length (ring_contents r) \<le> rb_capacity r" "rb_capacity r > 0" by (auto simp: ring_rep_def)
  show "ring_wf (snd (ring_push x r))" "ring_wf (snd (ring_shift r))"
    by (rule ring_rep_wf [OF ring_rep_push(1) [OF r]], rule ring_rep_wf [OF ring_rep_shift(1) [OF r]])
  show "ring_contents (snd (ring_push x r)) = (if length (ring_contents r) = rb_capacity r then tl (ring_contents r) else ring_contents r) @ [x]"
    by (rule ring_rep_iterator(2) [OF ring_rep_push(1) [OF r]])
  show "ring_contents (snd (ring_shift r)) = tl (ring_contents r)" by (rule ring_rep_iterator(2) [OF ring_rep_shift(1) [OF r]])
qed (use assms in \<open>simp_all add: ring_wf_iff ring_rep_push(2) ring_rep_shift(2)\<close>)

interpretation ring: bounded_deque "\<lambda>r. ring_wf r \<and> rb_capacity r = cap" ring_contents ring_shift cap ring_push
  for cap
  by unfold_locales (simp_all add: ring_wf_facts, auto dest: ring_wf_facts(1,2))

section \<open>Properties of the circular buffer\<close>

text \<open>An operation of the buffer with its result, and the same operation on a bounded list.\<close>

datatype 'a ring_op = RPush 'a | RUnshift 'a | RShift | RPop | RAt int | RPeek | RPeekBack | RClear

fun ring_exec :: "'a ring_op \<Rightarrow> 'a ring \<Rightarrow> 'a option \<times> 'a ring" where
  "ring_exec (RPush x) r = ring_push x r"
| "ring_exec (RUnshift x) r = ring_unshift x r"
| "ring_exec RShift r = ring_shift r"
| "ring_exec RPop r = ring_pop r"
| "ring_exec (RAt i) r = (ring_at i r, r)"
| "ring_exec RPeek r = (ring_peek r, r)"
| "ring_exec RPeekBack r = (ring_peekBack r, r)"
| "ring_exec RClear r = (None, ring_clear r)"

definition list_at :: "int \<Rightarrow> 'a list \<Rightarrow> 'a option" where
  "list_at i xs = (let j = (if i < 0 then i + int (length xs) else i)
     in if j < 0 \<or> j \<ge> int (length xs) then None else Some (xs ! nat j))"

fun deque_exec :: "nat \<Rightarrow> 'a ring_op \<Rightarrow> 'a list \<Rightarrow> 'a option \<times> 'a list" where
  "deque_exec cap (RPush x) xs = (if length xs = cap then (Some (hd xs), tl xs @ [x]) else (None, xs @ [x]))"
| "deque_exec cap (RUnshift x) xs = (if length xs = cap then (Some (last xs), x # butlast xs) else (None, x # xs))"
| "deque_exec cap RShift xs = (if xs = [] then (None, []) else (Some (hd xs), tl xs))"
| "deque_exec cap RPop xs = (if xs = [] then (None, []) else (Some (last xs), butlast xs))"
| "deque_exec cap (RAt i) xs = (list_at i xs, xs)"
| "deque_exec cap RPeek xs = ((if xs = [] then None else Some (hd xs)), xs)"
| "deque_exec cap RPeekBack xs = ((if xs = [] then None else Some (last xs)), xs)"
| "deque_exec cap RClear xs = (None, [])"

fun exec_all :: "('o \<Rightarrow> 's \<Rightarrow> 'b \<times> 's) \<Rightarrow> 'o list \<Rightarrow> 's \<Rightarrow> 'b list \<times> 's" where
  "exec_all f [] s = ([], s)"
| "exec_all f (op # ops) s =
     (case f op s of (b, s') \<Rightarrow> case exec_all f ops s' of (bs, t) \<Rightarrow> (b # bs, t))"

lemma nat_int_pred: "nat (int n - 1) = n - Suc 0"
  by simp

lemma ring_exec_refines:
  assumes "ring_rep r xs"
  shows "fst (ring_exec op r) = fst (deque_exec (rb_capacity r) op xs)
    \<and> ring_rep (snd (ring_exec op r)) (snd (deque_exec (rb_capacity r) op xs))
    \<and> rb_capacity (snd (ring_exec op r)) = rb_capacity r"
  using ring_rep_steps [OF assms] ring_rep_at [OF assms] ring_rep_clear [OF assms] assms nat_int_pred [of "length xs"]
  by (cases op) (auto simp: list_at_def ring_peek_def ring_peekBack_def Let_def hd_conv_nth last_conv_nth ring_rep_def [of r])

lemma exec_all_refines:
  "ring_rep r xs \<Longrightarrow> fst (exec_all ring_exec ops r) = fst (exec_all (deque_exec (rb_capacity r)) ops xs)
    \<and> ring_rep (snd (exec_all ring_exec ops r)) (snd (exec_all (deque_exec (rb_capacity r)) ops xs))"
proof (induction ops arbitrary: r xs)
  case (Cons op ops)
  obtain b r' where e: "ring_exec op r = (b, r')" by fastforce
  obtain c ys where d: "deque_exec (rb_capacity r) op xs = (c, ys)" by fastforce
  have "b = c" "ring_rep r' ys" "rb_capacity r' = rb_capacity r" using ring_exec_refines [OF Cons.prems, of op] e d by simp_all
  with Cons.IH [of r' ys] show ?case by (auto simp: e d split: prod.splits)
qed simp

text \<open>C20. The circular buffer implements the bounded double-ended queue: after any sequence of operations on a new buffer, every
  result the operations returned is the one the list specification returns, and both the element-wise iterator and
  the two-slice copy give the specification's elements oldest first; the slots outside hold nothing.\<close>

theorem ring_refines_deque:
  assumes "cap > 0"
  shows "fst (exec_all ring_exec ops (new_RingBuffer cap)) = fst (exec_all (deque_exec cap) ops [])
    \<and> ring_iterator (snd (exec_all ring_exec ops (new_RingBuffer cap))) = map Some (snd (exec_all (deque_exec cap) ops []))
    \<and> ring_toArray (snd (exec_all ring_exec ops (new_RingBuffer cap))) = map Some (snd (exec_all (deque_exec cap) ops []))
    \<and> ring_rep (snd (exec_all ring_exec ops (new_RingBuffer cap))) (snd (exec_all (deque_exec cap) ops []))"
  using exec_all_refines [OF ring_rep_new [OF assms], of ops] by (auto simp: ring_rep_iterator ring_rep_toArray)

theorem ring_refines_deque_witness:
  "ring_toArray (snd (exec_all ring_exec [RPush 1, RPush 2, RUnshift 0, RPush 3, RAt (-1)] (new_RingBuffer 3)))
     = map Some [1, 2, 3 :: nat]"
  using ring_refines_deque [of 3 "[RPush 1, RPush 2, RUnshift 0, RPush 3, RAt (-1)] :: nat ring_op list"] by simp

text \<open>A full buffer is a sliding window: pushing a sequence onto a new buffer keeps its last \<open>cap\<close> elements in order and
  returns the earlier ones as overwritten, in order, so that nothing is lost or duplicated.\<close>

theorem ring_sliding_window:
  assumes "cap > 0"
  shows "fst (ring.pushAll xs (new_RingBuffer cap :: 'a ring)) = take (length xs - cap) xs
    \<and> ring_toArray (snd (ring.pushAll xs (new_RingBuffer cap :: 'a ring))) = map Some (drop (length xs - cap) xs)"
proof -
  let ?r = "ring.pushAll xs (new_RingBuffer cap :: 'a ring)"
  have "ring_wf (new_RingBuffer cap :: 'a ring) \<and> rb_capacity (new_RingBuffer cap :: 'a ring) = cap"
    using ring_rep_wf [OF ring_rep_new [OF assms]] by simp
  from ring.pushAll_window [OF this, of xs] ring_rep_iterator(2) [OF ring_rep_new [OF assms, where 'a = 'a]]
  have w: "ring_wf (snd ?r)" "fst ?r @ ring_contents (snd ?r) = xs" "length (ring_contents (snd ?r)) = min cap (length xs)" by auto
  have "length (fst ?r) + min cap (length xs) = length xs" using arg_cong [OF w(2), of length] w(3) by simp
  then have "length (fst ?r) = length xs - cap" by (simp add: min_def split: if_splits)
  with w(2) have f: "fst ?r = take (length xs - cap) xs" and "ring_contents (snd ?r) = drop (length xs - cap) xs"
    by (simp_all add: append_eq_conv_conj)
  with w(1) show ?thesis by (simp add: ring_rep_toArray [of _ "ring_contents (snd ?r)"] ring_wf_iff)
qed

theorem ring_sliding_window_witness:
  "ring_toArray (snd (ring.pushAll [1, 2, 3, 4, 5 :: nat] (new_RingBuffer 2))) = map Some [4, 5]"
  using ring_sliding_window [of 2 "[1, 2, 3, 4, 5 :: nat]"] by simp

section \<open>The kill ring\<close>

type_synonym kill_ring = "string list"

(* tui/src/kill-ring.ts:19-28 push *)
definition kill_push :: "string \<Rightarrow> bool \<Rightarrow> bool \<Rightarrow> kill_ring \<Rightarrow> kill_ring" where
  "kill_push text prepend accumulate ring =
     (if text = [] then ring
      else if accumulate \<and> ring \<noteq> []
      then butlast ring @ [if prepend then text @ last ring else last ring @ text]
      else ring @ [text])"

(* tui/src/kill-ring.ts:31-33 peek *)
definition kill_peek :: "kill_ring \<Rightarrow> string option" where
  "kill_peek ring = (if ring \<noteq> [] then Some (last ring) else None)"

(* tui/src/kill-ring.ts:36-41 rotate *)
definition kill_rotate :: "kill_ring \<Rightarrow> kill_ring" where
  "kill_rotate ring = (if length ring > 1 then last ring # butlast ring else ring)"

lemma kill_rotate_rev: "kill_rotate ring = rev (rotate1 (rev ring))"
  by (cases ring rule: rev_cases) (auto simp: kill_rotate_def)

lemma kill_rotate_funpow: "(kill_rotate ^^ n) ring = rev (rotate n (rev ring))"
proof (induction n)
  case (Suc n)
  then show ?case by (simp add: kill_rotate_rev)
qed simp

text \<open>Yank-pop visits every entry: the entries seen after zero, one, two and so on rotations are the entries of the ring from
  the newest to the oldest, and after as many rotations as there are entries the ring is as it was. Pushing
  never brings an empty entry into the ring.\<close>

theorem kill_ring_cycles:
  "map (\<lambda>n. kill_peek ((kill_rotate ^^ n) ring)) [0..<length ring] = map Some (rev ring)
   \<and> (kill_rotate ^^ length ring) ring = ring
   \<and> ([] \<in> set (kill_push text prepend accumulate ring) \<longleftrightarrow> [] \<in> set ring \<and>
        (text = [] \<or> [] \<in> set (if accumulate then butlast ring else ring)))"
proof (intro conjI)
  show "map (\<lambda>n. kill_peek ((kill_rotate ^^ n) ring)) [0..<length ring] = map Some (rev ring)"
    by (rule nth_equalityI) (auto simp: kill_rotate_funpow kill_peek_def last_rev hd_rotate_conv_nth)
  show "(kill_rotate ^^ length ring) ring = ring"
    using rotate_id [of "length ring" "rev ring"] by (simp add: kill_rotate_funpow)
  show "[] \<in> set (kill_push text prepend accumulate ring) \<longleftrightarrow> [] \<in> set ring \<and>
        (text = [] \<or> [] \<in> set (if accumulate then butlast ring else ring))"
    by (auto simp: kill_push_def dest: in_set_butlastD)
qed

end
