(* ===== verification/Hashline_Text.thy ===== *)
theory Hashline_Text
  imports GJC_Prelude
begin

text \<open>
  Lines and anchors of the hashline edit format: \<^verbatim>\<open>hashline/types.ts\<close>, \<^verbatim>\<open>hashline/hash.ts\<close>, \<^verbatim>\<open>hashline/constants.ts\<close>.
  Text is a list of UTF-16 code units, since the format uses characters beyond Latin-1. The
  hash function \<^verbatim>\<open>Bun.hash.xxHash32\<close> (with seed 0) is the parameter \<open>xx\<close>.
\<close>

section \<open>Text\<close>

type_synonym utext = "nat list"

definition units :: "string \<Rightarrow> utext" where
  "units s = map of_char s"

definition LF :: nat where "LF = 10"
definition CR :: nat where "CR = 13"

text \<open>The class \<^verbatim>\<open>\s\<close>, which is also what \<^verbatim>\<open>trim\<close> and \<^verbatim>\<open>trimEnd\<close> remove; and what \<^verbatim>\<open>.\<close> does not match.\<close>

definition space_unit :: "nat \<Rightarrow> bool" where
  "space_unit c \<longleftrightarrow> 9 \<le> c \<and> c \<le> 13 \<or> c \<in> {0x20, 0xA0, 0x1680, 0x2028, 0x2029, 0x202F, 0x205F, 0x3000, 0xFEFF} \<or> 0x2000 \<le> c \<and> c \<le> 0x200A"

definition line_terminator :: "nat \<Rightarrow> bool" where
  "line_terminator c \<longleftrightarrow> c \<in> {10, 13, 0x2028, 0x2029}"

definition digit_unit :: "nat \<Rightarrow> bool" where
  "digit_unit c \<longleftrightarrow> 48 \<le> c \<and> c \<le> 57"

definition lower_unit :: "nat \<Rightarrow> bool" where
  "lower_unit c \<longleftrightarrow> 97 \<le> c \<and> c \<le> 122"

definition trim_end :: "utext \<Rightarrow> utext" where
  "trim_end s = rev (dropWhile space_unit (rev s))"

definition blank :: "utext \<Rightarrow> bool" where
  "blank s \<longleftrightarrow> list_all space_unit s"

text \<open>\<^verbatim>\<open>split(/\r?\n/)\<close>: a carriage return before a line feed belongs to the separator.\<close>

definition strip_cr :: "utext \<Rightarrow> utext" where
  "strip_cr s = (if s \<noteq> [] \<and> last s = CR then butlast s else s)"

definition split_lines :: "utext \<Rightarrow> utext list" where
  "split_lines s = (let ps = split_at LF s in map strip_cr (butlast ps) @ [last ps])"

definition num_text :: "nat \<Rightarrow> utext" where
  "num_text n = units (dec_string n)"

text \<open>\<^verbatim>\<open>Number.parseInt\<close> of a run of digits.\<close>

definition parse_int :: "utext \<Rightarrow> nat" where
  "parse_int s = foldl (\<lambda>a c. 10 * a + (c - 48)) 0 s"

section \<open>Anchors\<close>

(* coding-agent/src/hashline/types.ts:12-16 Anchor *)
record anchor =
  a_line :: nat
  a_hash :: utext

(* coding-agent/src/hashline/types.ts:18-22 HashlineCursor *)
datatype cursor = Bof | Eof | is_before: BeforeAnchor anchor | is_after: AfterAnchor anchor

(* coding-agent/src/hashline/types.ts:24-26 HashlineEdit *)
datatype edit =
    is_insert: Insert (e_cursor: cursor) (e_text: utext) (e_lineNum: nat) (e_index: nat)
  | is_delete: Delete (e_anchor: anchor) (e_lineNum: nat) (e_index: nat)

(* coding-agent/src/hashline/types.ts:6-10 HashMismatch *)
record hash_mismatch =
  hm_line :: nat
  hm_expected :: utext
  hm_actual :: utext

text \<open>The bigrams in alphabetical order: all pairs of letters but the 29 that are not single tokens.\<close>

definition letters :: "char list" where
  "letters = ''abcdefghijklmnopqrstuvwxyz''"

definition missing_bigrams :: "string list" where
  "missing_bigrams =
     [''bq'', ''gk'', ''gq'', ''jv'', ''jz'', ''kq'', ''kz'', ''lq'', ''nq'', ''qf'', ''qg'', ''qj'', ''qk'', ''qv'', ''qz'', ''rj'', ''tq'',
      ''wq'', ''wz'', ''xg'', ''xj'', ''xk'', ''xq'', ''xv'', ''xw'', ''yq'', ''zj'', ''zq'', ''zv'']"

(* coding-agent/src/hashline/bigrams.json:1-649 bigrams *)
definition HL_BIGRAMS :: "utext list" where
  "HL_BIGRAMS = map units (filter (\<lambda>b. b \<notin> set missing_bigrams) [[a, b]. a \<leftarrow> letters, b \<leftarrow> letters])"

(* coding-agent/src/hashline/constants.ts:5-5 RANGE_INTERIOR_HASH *)
definition RANGE_INTERIOR_HASH :: utext where
  "RANGE_INTERIOR_HASH = units ''**''"

(* coding-agent/src/hashline/hash.ts:115-115 HL_OP_INSERT_BEFORE *)
definition HL_OP_INSERT_BEFORE :: nat where
  "HL_OP_INSERT_BEFORE = 0xAB"

(* coding-agent/src/hashline/hash.ts:116-116 HL_OP_INSERT_AFTER *)
definition HL_OP_INSERT_AFTER :: nat where
  "HL_OP_INSERT_AFTER = 0xBB"

(* coding-agent/src/hashline/hash.ts:117-117 HL_OP_REPLACE *)
definition HL_OP_REPLACE :: nat where
  "HL_OP_REPLACE = 0x2254"

(* coding-agent/src/hashline/hash.ts:123-123 HL_FILE_PREFIX *)
definition HL_FILE_PREFIX :: nat where
  "HL_FILE_PREFIX = 0xA7"

(* coding-agent/src/hashline/hash.ts:126-126 HL_BODY_SEP *)
definition HL_BODY_SEP :: nat where
  "HL_BODY_SEP = 0x7C"

lemmas hl_units = HL_OP_INSERT_BEFORE_def HL_OP_INSERT_AFTER_def HL_OP_REPLACE_def HL_FILE_PREFIX_def HL_BODY_SEP_def LF_def CR_def

(* coding-agent/src/hashline/hash.ts:140-149 computeLineHash *)
definition computeLineHash :: "(utext \<Rightarrow> nat) \<Rightarrow> utext \<Rightarrow> utext" where
  "computeLineHash xx line = HL_BIGRAMS ! (xx (trim_end (filter (\<lambda>c. c \<noteq> CR) line)) mod length HL_BIGRAMS)"

(* coding-agent/src/hashline/hash.ts:156-158 formatLineHash *)
definition formatLineHash :: "(utext \<Rightarrow> nat) \<Rightarrow> nat \<Rightarrow> utext \<Rightarrow> utext" where
  "formatLineHash xx n line = num_text n @ computeLineHash xx line"

(* coding-agent/src/hashline/hash.ts:164-166 formatHashLine *)
definition formatHashLine :: "(utext \<Rightarrow> nat) \<Rightarrow> nat \<Rightarrow> utext \<Rightarrow> utext" where
  "formatHashLine xx n line = formatLineHash xx n line @ HL_BODY_SEP # line"

(* coding-agent/src/hashline/hash.ts:184-196 formatHashLines *)
definition formatHashLines :: "(utext \<Rightarrow> nat) \<Rightarrow> utext \<Rightarrow> nat \<Rightarrow> utext" where
  "formatHashLines xx text startLine =
     join [LF] (map (\<lambda>(i, line). formatHashLine xx (startLine + i) line) (List.enumerate 0 (split_at LF text)))"

end
