(* ===== verification/Hashline_Parser.thy ===== *)
theory Hashline_Parser
  imports Hashline_Text
begin

text \<open>
  The parser of hashline edit scripts: \<^verbatim>\<open>hashline/parser.ts\<close>, and that a script written out is read back.
  The regular expressions are scanning functions; their classes are disjoint where the patterns meet,
  so that greedy scanning finds the only match.
\<close>

section \<open>Errors\<close>

text \<open>One constructor per \<^verbatim>\<open>throw\<close>, without the text of the message.\<close>

datatype parse_error =
    AnchorExpected nat utext
  | RangeNeedsTwoAnchors nat
  | RangeEndsBeforeStart nat utext utext
  | RangeTwoHashes nat utext utext
  | PayloadRequired nat
  | UnrecognizedOp nat utext
  | PayloadWithoutOp nat utext

section \<open>Anchors and ranges\<close>

text \<open>The rest of a line after an anchor: nothing or a body \<^verbatim>\<open>|...\<close>, then white space.\<close>

definition lid_rest :: "utext \<Rightarrow> bool" where
  "lid_rest s \<longleftrightarrow> blank s \<or> s \<noteq> [] \<and> hd s = HL_BODY_SEP \<and> list_all (\<lambda>c. \<not> line_terminator c) (trim_end (tl s))"

definition decoration_unit :: "nat \<Rightarrow> bool" where
  "decoration_unit c \<longleftrightarrow> c \<in> set (units ''>+-*'')"

(* coding-agent/src/hashline/parser.ts:23-32 parseLid *)
definition parseLid :: "utext \<Rightarrow> nat \<Rightarrow> parse_error + anchor" where
  "parseLid raw lineNum =
     (let s = dropWhile space_unit (dropWhile decoration_unit (dropWhile space_unit raw));
          ds = takeWhile digit_unit s; rest = dropWhile digit_unit s
      in if ds \<noteq> [] \<and> hd ds \<noteq> 48 \<and> 2 \<le> length rest \<and> list_all lower_unit (take 2 rest) \<and> lid_rest (drop 2 rest)
         then Inr \<lparr>a_line = parse_int ds, a_hash = take 2 rest\<rparr>
         else Inl (AnchorExpected lineNum raw))"

text \<open>\<^verbatim>\<open>split("..")\<close>: at the dots from left to right.\<close>

fun split_dots :: "utext \<Rightarrow> utext list" where
  "split_dots [] = [[]]"
| "split_dots [c] = [[c]]"
| "split_dots (c # d # s) =
     (if c = 46 \<and> d = 46 then [] # split_dots s
      else (case split_dots (d # s) of [] \<Rightarrow> [[c]] | w # ws \<Rightarrow> (c # w) # ws))"

(* coding-agent/src/hashline/parser.ts:34-37 ParsedRange *)
record parsed_range =
  pr_start :: anchor
  pr_end :: anchor

(* coding-agent/src/hashline/parser.ts:39-60 parseRange *)
definition parseRange :: "utext \<Rightarrow> nat \<Rightarrow> parse_error + parsed_range" where
  "parseRange raw lineNum =
     (case split_dots raw of
        [_] \<Rightarrow> map_sum id (\<lambda>a. \<lparr>pr_start = a, pr_end = a\<rparr>) (parseLid raw lineNum)
      | [startRaw, endRaw] \<Rightarrow>
          if startRaw = [] \<or> endRaw = [] then Inl (RangeNeedsTwoAnchors lineNum)
          else (case parseLid startRaw lineNum of
                  Inl e \<Rightarrow> Inl e
                | Inr a \<Rightarrow> (case parseLid endRaw lineNum of
                    Inl e \<Rightarrow> Inl e
                  | Inr b \<Rightarrow>
                      if a_line b < a_line a then Inl (RangeEndsBeforeStart lineNum startRaw endRaw)
                      else if a_line b = a_line a \<and> a_hash b \<noteq> a_hash a then Inl (RangeTwoHashes lineNum startRaw endRaw)
                      else Inr \<lparr>pr_start = a, pr_end = b\<rparr>))
      | _ \<Rightarrow> Inl (RangeNeedsTwoAnchors lineNum))"

(* coding-agent/src/hashline/parser.ts:62-70 expandRange *)
definition expandRange :: "parsed_range \<Rightarrow> anchor list" where
  "expandRange r =
     map (\<lambda>line. \<lparr>a_line = line,
            a_hash = (if line = a_line (pr_start r) then a_hash (pr_start r)
                      else if line = a_line (pr_end r) then a_hash (pr_end r) else RANGE_INTERIOR_HASH)\<rparr>)
       [a_line (pr_start r)..<Suc (a_line (pr_end r))]"

(* coding-agent/src/hashline/parser.ts:72-77 parseInsertTarget *)
definition parseInsertTarget :: "utext \<Rightarrow> nat \<Rightarrow> bool \<Rightarrow> parse_error + cursor" where
  "parseInsertTarget raw lineNum before =
     (if raw = units ''BOF'' then Inr Bof
      else if raw = units ''EOF'' then Inr Eof
      else map_sum id (if before then BeforeAnchor else AfterAnchor) (parseLid raw lineNum))"

(* coding-agent/src/hashline/parser.ts:90-96 resolveInlineInsertBody *)
definition resolveInlineInsertBody :: "(utext \<Rightarrow> nat) \<Rightarrow> cursor \<Rightarrow> utext option \<Rightarrow> utext option" where
  "resolveInlineInsertBody xx cur body =
     (case body of
        None \<Rightarrow> None
      | Some b \<Rightarrow> (case cur of
          BeforeAnchor a \<Rightarrow> if computeLineHash xx b = a_hash a then None else Some b
        | AfterAnchor a \<Rightarrow> if computeLineHash xx b = a_hash a then None else Some b
        | _ \<Rightarrow> Some b))"

section \<open>Operation lines\<close>

text \<open>An insert operation: the sigil, a target without bar or white space, an optional body up to a line terminator.\<close>

(* coding-agent/src/hashline/parser.ts:103-108 INSERT_BEFORE_OP_RE *)
definition insert_op :: "nat \<Rightarrow> utext \<Rightarrow> (utext \<times> utext option) option" where
  "insert_op sigil line =
     (case line of
        [] \<Rightarrow> None
      | c # s \<Rightarrow>
          let t = dropWhile space_unit s; target = takeWhile (\<lambda>c. c \<noteq> HL_BODY_SEP \<and> \<not> space_unit c) t;
              rest = dropWhile (\<lambda>c. c \<noteq> HL_BODY_SEP \<and> \<not> space_unit c) t
          in if c \<noteq> sigil \<or> target = [] then None
             else (case rest of
                     d # body \<Rightarrow>
                       if d = HL_BODY_SEP
                       then if blank (dropWhile (\<lambda>c. \<not> line_terminator c) body)
                            then Some (target, Some (takeWhile (\<lambda>c. \<not> line_terminator c) body)) else None
                       else if blank rest then Some (target, None) else None
                   | [] \<Rightarrow> Some (target, None)))"

(* coding-agent/src/hashline/parser.ts:109-109 REPLACE_OP_RE *)
definition replace_op :: "utext \<Rightarrow> utext option" where
  "replace_op line =
     (case line of
        [] \<Rightarrow> None
      | c # s \<Rightarrow>
          let t = dropWhile space_unit s; target = takeWhile (\<lambda>c. \<not> space_unit c) t; rest = dropWhile (\<lambda>c. \<not> space_unit c) t
          in if c = HL_OP_REPLACE \<and> target \<noteq> [] \<and> hd target \<notin> set (units ''+<-='') \<and> blank rest then Some target else None)"

(* coding-agent/src/hashline/constants.ts:8-8 BEGIN_PATCH_MARKER *)
definition BEGIN_PATCH_MARKER :: utext where
  "BEGIN_PATCH_MARKER = units ''*** Begin Patch''"

(* coding-agent/src/hashline/constants.ts:11-11 END_PATCH_MARKER *)
definition END_PATCH_MARKER :: utext where
  "END_PATCH_MARKER = units ''*** End Patch''"

(* coding-agent/src/hashline/constants.ts:21-21 ABORT_MARKER *)
definition ABORT_MARKER :: utext where
  "ABORT_MARKER = units ''*** Abort''"

lemmas patch_markers = BEGIN_PATCH_MARKER_def END_PATCH_MARKER_def ABORT_MARKER_def

(* coding-agent/src/hashline/parser.ts:111-114 isEnvelopeOrAbortMarkerLine *)
definition isEnvelopeOrAbortMarkerLine :: "utext \<Rightarrow> bool" where
  "isEnvelopeOrAbortMarkerLine line \<longleftrightarrow> trim_end line \<in> {BEGIN_PATCH_MARKER, END_PATCH_MARKER, ABORT_MARKER}"

(* coding-agent/src/hashline/parser.ts:116-123 isPayloadTerminatorLine *)
definition isPayloadTerminatorLine :: "utext \<Rightarrow> bool" where
  "isPayloadTerminatorLine line \<longleftrightarrow>
     line \<noteq> [] \<and> hd line \<in> {HL_FILE_PREFIX, HL_OP_INSERT_BEFORE, HL_OP_INSERT_AFTER, HL_OP_REPLACE} \<or> isEnvelopeOrAbortMarkerLine line"

(* coding-agent/src/hashline/parser.ts:131-151 collectPayload *)
definition collectPayload :: "utext list \<Rightarrow> nat \<Rightarrow> bool \<Rightarrow> parse_error + (utext list \<times> utext list)" where
  "collectPayload lines opLineNum requirePayload =
     (let payload = takeWhile (\<lambda>l. \<not> isPayloadTerminatorLine l) lines
      in if payload = [] \<and> requirePayload then Inl (PayloadRequired opLineNum)
         else Inr (payload, dropWhile (\<lambda>l. \<not> isPayloadTerminatorLine l) lines))"

section \<open>The script\<close>

datatype parse_warning = AbortWarning

definition insert_all :: "cursor \<Rightarrow> nat \<Rightarrow> nat \<Rightarrow> utext list \<Rightarrow> edit list" where
  "insert_all cur lineNum k texts = map (\<lambda>(i, t). Insert cur t lineNum i) (List.enumerate k texts)"

definition delete_all :: "nat \<Rightarrow> nat \<Rightarrow> anchor list \<Rightarrow> edit list" where
  "delete_all lineNum k as = map (\<lambda>(i, a). Delete a lineNum i) (List.enumerate k as)"

(* coding-agent/src/hashline/parser.ts:188-208 parseHashlineWithWarnings *)
definition insert_edits ::
  "(utext \<Rightarrow> nat) \<Rightarrow> bool \<Rightarrow> nat \<Rightarrow> nat \<Rightarrow> utext \<times> utext option \<Rightarrow> utext list \<Rightarrow> parse_error + (edit list \<times> utext list)"
where
  "insert_edits xx before lineNum k op rest =
     (case parseInsertTarget (fst op) lineNum before of
        Inl e \<Rightarrow> Inl e
      | Inr cur \<Rightarrow>
          let inline = resolveInlineInsertBody xx cur (snd op)
          in (case collectPayload rest lineNum (inline = None) of
                Inl e \<Rightarrow> Inl e
              | Inr (payload, next) \<Rightarrow> Inr (insert_all cur lineNum k (case inline of None \<Rightarrow> payload | Some b \<Rightarrow> b # payload), next)))"

(* coding-agent/src/hashline/parser.ts:210-231 parseHashlineWithWarnings *)
definition replace_edits :: "nat \<Rightarrow> nat \<Rightarrow> utext \<Rightarrow> utext list \<Rightarrow> parse_error + (edit list \<times> utext list)" where
  "replace_edits lineNum k target rest =
     (case parseRange target lineNum of
        Inl e \<Rightarrow> Inl e
      | Inr r \<Rightarrow>
          (case collectPayload rest lineNum False of
             Inl e \<Rightarrow> Inl e
           | Inr (payload, next) \<Rightarrow>
               Inr (insert_all (BeforeAnchor (pr_start r)) lineNum k payload @ delete_all lineNum (k + length payload) (expandRange r), next)))"

(* coding-agent/src/hashline/parser.ts:188-243 parseHashlineWithWarnings *)
definition parse_op :: "(utext \<Rightarrow> nat) \<Rightarrow> nat \<Rightarrow> nat \<Rightarrow> utext \<Rightarrow> utext list \<Rightarrow> parse_error + (edit list \<times> utext list)" where
  "parse_op xx lineNum k line rest =
     (case insert_op HL_OP_INSERT_BEFORE line of
        Some op \<Rightarrow> insert_edits xx True lineNum k op rest
      | None \<Rightarrow> (case insert_op HL_OP_INSERT_AFTER line of
          Some op \<Rightarrow> insert_edits xx False lineNum k op rest
        | None \<Rightarrow> (case replace_op line of
            Some target \<Rightarrow> replace_edits lineNum k target rest
          | None \<Rightarrow>
              if isPayloadTerminatorLine line \<or> line \<noteq> [] \<and> hd line \<in> {45, 64, 0xB6} then Inl (UnrecognizedOp lineNum line)
              else Inl (PayloadWithoutOp lineNum line))))"

lemma parse_op_rest: "parse_op xx n k line rest = Inr (es, next) \<Longrightarrow> length next \<le> length rest"
  by (auto simp: parse_op_def insert_edits_def replace_edits_def collectPayload_def Let_def length_dropWhile_le
      split: option.splits sum.splits if_splits)

text \<open>The loop over the lines; \<open>n\<close> is the number of the next line and \<open>k\<close> the index of the next edit.\<close>

(* coding-agent/src/hashline/parser.ts:168-245 parseHashlineWithWarnings *)
function parse_lines :: "(utext \<Rightarrow> nat) \<Rightarrow> nat \<Rightarrow> nat \<Rightarrow> utext list \<Rightarrow> parse_error + (edit list \<times> parse_warning list)" where
  "parse_lines xx n k [] = Inr ([], [])"
| "parse_lines xx n k (line # rest) =
     (if blank line then parse_lines xx (n + 1) k rest
      else if line = END_PATCH_MARKER then Inr ([], [])
      else if line = ABORT_MARKER then Inr ([], [AbortWarning])
      else if line = BEGIN_PATCH_MARKER then parse_lines xx (n + 1) k rest
      else (case parse_op xx n k line rest of
              Inl e \<Rightarrow> Inl e
            | Inr (es, next) \<Rightarrow>
                map_sum id (\<lambda>(es', ws). (es @ es', ws)) (parse_lines xx (n + 1 + (length rest - length next)) (k + length es) next)))"
  by pat_completeness auto
termination by (relation "measure (\<lambda>(xx, n, k, ls). length ls)") (auto dest: parse_op_rest simp: less_Suc_eq_le)

(* coding-agent/src/hashline/parser.ts:157-161 parseHashlineWithWarnings *)
definition script_lines :: "utext \<Rightarrow> utext list" where
  "script_lines diff =
     (let lines = split_lines diff in if diff \<noteq> [] \<and> last diff = LF \<and> last lines = [] then butlast lines else lines)"

(* coding-agent/src/hashline/parser.ts:157-246 parseHashlineWithWarnings *)
definition parseHashlineWithWarnings :: "(utext \<Rightarrow> nat) \<Rightarrow> utext \<Rightarrow> parse_error + (edit list \<times> parse_warning list)" where
  "parseHashlineWithWarnings xx diff = parse_lines xx 1 0 (script_lines diff)"

section \<open>Anchors read back\<close>

lemma digit_unit_char: "digit_char c \<Longrightarrow> digit_unit (of_char c)"
  by (auto simp: digit_char_def digit_unit_def)

lemma num_text_digits: "c \<in> set (num_text n) \<Longrightarrow> digit_unit c"
  by (auto simp: num_text_def units_def intro: digit_unit_char dec_string_digits)

lemma num_text_ne [simp]: "num_text n \<noteq> []"
  by (simp add: num_text_def units_def)

lemma parse_int_num [simp]: "parse_int (num_text n) = n"
proof -
  have "foldl (\<lambda>a c. 10 * a + (c - 48)) a (map of_char s) = foldl (\<lambda>a c. 10 * a + digit_val c) a s" for a s
    by (induction s arbitrary: a) (simp_all add: digit_val_def)
  then show ?thesis using dec_value_string [of n] by (simp add: parse_int_def num_text_def units_def dec_value_def)
qed

lemma dec_string_hd: "1 \<le> n \<Longrightarrow> of_char (hd (dec_string n)) \<noteq> (48 :: nat)"
proof (induction n rule: dec_string.induct)
  case (1 n)
  show ?case
  proof (cases "n < 10")
    case True
    then show ?thesis using 1(2) less_10_cases [OF True] by (auto simp: dec_string.simps [of n] digit_of_def)
  next
    case False
    then show ?thesis using 1 by (subst dec_string.simps) simp
  qed
qed

lemma num_text_hd: "1 \<le> n \<Longrightarrow> hd (num_text n) \<noteq> 48"
  using dec_string_hd by (simp add: num_text_def units_def hd_map)

definition lid_ok :: "anchor \<Rightarrow> bool" where
  "lid_ok a \<longleftrightarrow> 1 \<le> a_line a \<and> length (a_hash a) = 2 \<and> list_all lower_unit (a_hash a)"

definition lid_text :: "anchor \<Rightarrow> utext" where
  "lid_text a = num_text (a_line a) @ a_hash a"

text \<open>The units of an anchor are neither white space nor any of the marks of the format.\<close>

lemma lid_units: "lid_ok a \<Longrightarrow> c \<in> set (lid_text a) \<Longrightarrow> digit_unit c \<or> lower_unit c"
  using num_text_digits by (auto simp: lid_text_def lid_ok_def list_all_iff)

lemma plain_units:
  assumes "digit_unit c \<or> lower_unit c"
  shows "\<not> space_unit c" "\<not> decoration_unit c" "c \<noteq> HL_BODY_SEP" "c \<noteq> 46" "c \<notin> set (units ''+<-='')" "c \<noteq> LF" "c \<noteq> CR"
  using assms by (auto simp: digit_unit_def lower_unit_def space_unit_def decoration_unit_def units_def hl_units)

lemma dropWhile_hd: "xs \<noteq> [] \<Longrightarrow> \<not> P (hd xs) \<Longrightarrow> dropWhile P xs = xs"
  by (cases xs) auto

lemma lid_text_facts:
  assumes "lid_ok a"
  shows "lid_text a \<noteq> []" "digit_unit (hd (lid_text a))" "takeWhile digit_unit (lid_text a) = num_text (a_line a)"
    "dropWhile digit_unit (lid_text a) = a_hash a"
proof -
  show "lid_text a \<noteq> []" by (simp add: lid_text_def)
  show "digit_unit (hd (lid_text a))" using num_text_digits [of "hd (num_text (a_line a))" "a_line a"] by (simp add: lid_text_def)
  have d: "\<forall>c \<in> set (num_text (a_line a)). digit_unit c" using num_text_digits by blast
  have "a_hash a \<noteq> []" "\<not> digit_unit (hd (a_hash a))"
    using assms by (cases "a_hash a"; auto simp: lid_ok_def digit_unit_def lower_unit_def)+
  then show "takeWhile digit_unit (lid_text a) = num_text (a_line a)" "dropWhile digit_unit (lid_text a) = a_hash a"
    using d unfolding lid_text_def by (cases "a_hash a"; simp)+
qed

lemma parseLid_text: "lid_ok a \<Longrightarrow> parseLid (lid_text a) n = Inr a"
proof -
  assume a: "lid_ok a"
  note f = lid_text_facts [OF a]
  have u: "\<not> space_unit (hd (lid_text a))" "\<not> decoration_unit (hd (lid_text a))" using plain_units f(2) by blast+
  have s: "dropWhile space_unit (dropWhile decoration_unit (dropWhile space_unit (lid_text a))) = lid_text a"
    using dropWhile_hd [OF f(1)] u by simp
  show ?thesis using a num_text_hd [of "a_line a"] unfolding parseLid_def Let_def s f(3,4)
    by (cases a) (auto simp: lid_ok_def lid_rest_def blank_def)
qed

lemma split_dots_none: "46 \<notin> set s \<Longrightarrow> split_dots s = [s]"
  by (induction s rule: split_dots.induct) (auto split: list.splits)

lemma split_dots_append: "46 \<notin> set a \<Longrightarrow> split_dots (a @ 46 # 46 # s) = a # split_dots s"
proof (induction a rule: split_dots.induct)
  case (2 c)
  then show ?case by simp
next
  case (3 c d a)
  then show ?case by auto
qed simp

definition range_ok :: "parsed_range \<Rightarrow> bool" where
  "range_ok r \<longleftrightarrow> lid_ok (pr_start r) \<and> lid_ok (pr_end r) \<and> a_line (pr_start r) \<le> a_line (pr_end r)
     \<and> (a_line (pr_start r) = a_line (pr_end r) \<longrightarrow> a_hash (pr_start r) = a_hash (pr_end r))"

definition range_text :: "parsed_range \<Rightarrow> utext" where
  "range_text r = lid_text (pr_start r) @ units ''..'' @ lid_text (pr_end r)"

lemma lid_no_dot: "lid_ok a \<Longrightarrow> 46 \<notin> set (lid_text a)"
  using lid_units plain_units by blast

lemma parseRange_text: "range_ok r \<Longrightarrow> parseRange (range_text r) n = Inr r"
proof -
  assume r: "range_ok r"
  then have "split_dots (range_text r) = [lid_text (pr_start r), lid_text (pr_end r)]"
    using lid_no_dot by (simp add: range_text_def units_def split_dots_append split_dots_none range_ok_def)
  then show ?thesis using r lid_text_facts(1) by (cases r) (auto simp: parseRange_def parseLid_text range_ok_def)
qed

section \<open>Scripts read back\<close>

text \<open>An operation of a script: an insert at a target, or the replacement of a range.\<close>

datatype script_op = InsertOp (so_cursor: cursor) (so_payload: "utext list") | ReplaceOp (so_range: parsed_range) (so_payload: "utext list")

fun target_text :: "cursor \<Rightarrow> utext" where
  "target_text Bof = units ''BOF''"
| "target_text Eof = units ''EOF''"
| "target_text (BeforeAnchor a) = lid_text a"
| "target_text (AfterAnchor a) = lid_text a"

fun cursor_ok :: "cursor \<Rightarrow> bool" where
  "cursor_ok (BeforeAnchor a) = lid_ok a"
| "cursor_ok (AfterAnchor a) = lid_ok a"
| "cursor_ok _ = True"

text \<open>How an operation is written, one line for the operation and one per line of payload.\<close>

fun op_lines :: "script_op \<Rightarrow> utext list" where
  "op_lines (InsertOp c ts) = ((if is_before c then HL_OP_INSERT_BEFORE else HL_OP_INSERT_AFTER) # target_text c) # ts"
| "op_lines (ReplaceOp r ts) = (HL_OP_REPLACE # range_text r) # ts"

definition line_ok :: "utext \<Rightarrow> bool" where
  "line_ok l \<longleftrightarrow> LF \<notin> set l \<and> (l = [] \<or> last l \<noteq> CR)"

fun op_ok :: "script_op \<Rightarrow> bool" where
  "op_ok (InsertOp c ts) \<longleftrightarrow> cursor_ok c \<and> ts \<noteq> [] \<and> list_all (\<lambda>l. line_ok l \<and> \<not> isPayloadTerminatorLine l) ts"
| "op_ok (ReplaceOp r ts) \<longleftrightarrow> range_ok r \<and> list_all (\<lambda>l. line_ok l \<and> \<not> isPayloadTerminatorLine l) ts"

definition script_text :: "script_op list \<Rightarrow> utext" where
  "script_text ops = concat (map (\<lambda>l. l @ [LF]) (concat (map op_lines ops)))"

text \<open>What the operations mean; \<open>n\<close> is the line and \<open>k\<close> the index of the first edit.\<close>

fun op_edits :: "nat \<Rightarrow> nat \<Rightarrow> script_op \<Rightarrow> edit list" where
  "op_edits n k (InsertOp c ts) = insert_all c n k ts"
| "op_edits n k (ReplaceOp r ts) = insert_all (BeforeAnchor (pr_start r)) n k ts @ delete_all n (k + length ts) (expandRange r)"

fun script_edits :: "nat \<Rightarrow> nat \<Rightarrow> script_op list \<Rightarrow> edit list" where
  "script_edits n k [] = []"
| "script_edits n k (op # ops) = op_edits n k op @ script_edits (n + 1 + length (so_payload op)) (k + length (op_edits n k op)) ops"

lemma split_unlines: "\<forall>l \<in> set ls. LF \<notin> set l \<Longrightarrow> split_at LF (concat (map (\<lambda>l. l @ [LF]) ls)) = ls @ [[]]"
  by (induction ls) (simp_all add: split_at_append_sep)

lemma script_lines_unlines:
  assumes "list_all line_ok ls" "ls \<noteq> []"
  shows "script_lines (concat (map (\<lambda>l. l @ [LF]) ls)) = ls"
proof -
  have "split_at LF (concat (map (\<lambda>l. l @ [LF]) ls)) = ls @ [[]]" using assms(1) by (intro split_unlines) (auto simp: list_all_iff line_ok_def)
  moreover have "map strip_cr ls = ls" using assms(1) by (intro map_idI) (auto simp: list_all_iff line_ok_def strip_cr_def)
  ultimately have s: "split_lines (concat (map (\<lambda>l. l @ [LF]) ls)) = ls @ [[]]" by (simp add: split_lines_def Let_def)
  obtain xs x where ls: "ls = xs @ [x]" using assms(2) by (cases ls rule: rev_cases) auto
  then have "concat (map (\<lambda>l. l @ [LF]) ls) \<noteq> []" "last (concat (map (\<lambda>l. l @ [LF]) ls)) = LF" by simp_all
  then show ?thesis by (simp add: script_lines_def s Let_def)
qed

text \<open>The units of a target and of a range.\<close>

lemma target_units: "cursor_ok c \<Longrightarrow> x \<in> set (target_text c) \<Longrightarrow> digit_unit x \<or> 65 \<le> x \<and> x \<le> 122"
  by (cases c) (auto simp: units_def lower_unit_def dest!: lid_units)

lemma target_plain: "digit_unit x \<or> 65 \<le> x \<and> x \<le> 122 \<Longrightarrow> x \<noteq> HL_BODY_SEP \<and> \<not> space_unit x \<and> x \<noteq> LF \<and> x \<noteq> CR"
  by (auto simp: digit_unit_def space_unit_def hl_units)

lemma target_ne: "target_text c \<noteq> []"
  by (cases c) (simp_all add: units_def lid_text_def)

lemma insert_op_target:
  assumes "cursor_ok c"
  shows "insert_op s (s # target_text c) = Some (target_text c, None)"
proof -
  have u: "\<forall>x \<in> set (target_text c). x \<noteq> HL_BODY_SEP \<and> \<not> space_unit x" using target_units [OF assms] target_plain by blast
  have d: "dropWhile space_unit (target_text c) = target_text c" using dropWhile_hd target_ne u hd_in_set by metis
  have w: "takeWhile (\<lambda>x. x \<noteq> HL_BODY_SEP \<and> \<not> space_unit x) (target_text c) = target_text c"
    "dropWhile (\<lambda>x. x \<noteq> HL_BODY_SEP \<and> \<not> space_unit x) (target_text c) = []"
    using u by (auto simp: takeWhile_eq_all_conv dropWhile_eq_Nil_conv)
  show ?thesis using target_ne [of c] unfolding insert_op_def list.case Let_def d w by simp
qed

lemma insert_op_sigil: "s \<noteq> s' \<Longrightarrow> insert_op s (s' # t) = None"
  by (simp add: insert_op_def Let_def)

lemma range_units: "range_ok r \<Longrightarrow> x \<in> set (range_text r) \<Longrightarrow> digit_unit x \<or> lower_unit x \<or> x = 46"
  using lid_units by (fastforce simp: range_text_def range_ok_def units_def)

lemma replace_op_range:
  assumes "range_ok r"
  shows "replace_op (HL_OP_REPLACE # range_text r) = Some (range_text r)"
proof -
  have ok: "lid_ok (pr_start r)" using assms by (simp add: range_ok_def)
  have n: "range_text r \<noteq> []" "digit_unit (hd (range_text r))" using lid_text_facts(1,2) [OF ok] by (simp_all add: range_text_def)
  have u: "\<forall>x \<in> set (range_text r). \<not> space_unit x"
    using range_units [OF assms] plain_units(1) by (auto simp: space_unit_def dest!: range_units [OF assms])
  have d: "dropWhile space_unit (range_text r) = range_text r" using dropWhile_hd n u hd_in_set by metis
  have w: "takeWhile (\<lambda>x. \<not> space_unit x) (range_text r) = range_text r" "dropWhile (\<lambda>x. \<not> space_unit x) (range_text r) = []"
    using u by (auto simp: takeWhile_eq_all_conv dropWhile_eq_Nil_conv)
  show ?thesis using n plain_units(5) [of "hd (range_text r)"] unfolding replace_op_def list.case Let_def d w by (simp add: blank_def)
qed

lemma parseInsertTarget_text: "cursor_ok c \<Longrightarrow> parseInsertTarget (target_text c) n (is_before c) = Inr c"
proof (cases c)
  case (BeforeAnchor a)
  then show "cursor_ok c \<Longrightarrow> ?thesis" using parseLid_text lid_text_facts(2) [of a]
    by (auto simp: parseInsertTarget_def digit_unit_def units_def)
next
  case (AfterAnchor a)
  then show "cursor_ok c \<Longrightarrow> ?thesis" using parseLid_text lid_text_facts(2) [of a]
    by (auto simp: parseInsertTarget_def digit_unit_def units_def)
qed (simp_all add: parseInsertTarget_def units_def)

lemma sigils: "distinct [HL_OP_INSERT_BEFORE, HL_OP_INSERT_AFTER, HL_OP_REPLACE]"
  "\<not> space_unit HL_OP_INSERT_BEFORE" "\<not> space_unit HL_OP_INSERT_AFTER" "\<not> space_unit HL_OP_REPLACE"
  "HL_OP_INSERT_BEFORE \<noteq> 42" "HL_OP_INSERT_AFTER \<noteq> 42" "HL_OP_REPLACE \<noteq> 42"
  by (simp_all add: hl_units space_unit_def)

text \<open>The payload of an operation is what stands before the next line that ends one.\<close>

definition ends_payload :: "utext list \<Rightarrow> bool" where
  "ends_payload ls \<longleftrightarrow> ls = [] \<or> isPayloadTerminatorLine (hd ls)"

lemma collectPayload_text:
  assumes "list_all (\<lambda>l. \<not> isPayloadTerminatorLine l) ts" "ends_payload ls" "req \<longrightarrow> ts \<noteq> []"
  shows "collectPayload (ts @ ls) n req = Inr (ts, ls)"
proof -
  have "takeWhile (\<lambda>l. \<not> isPayloadTerminatorLine l) (ts @ ls) = ts" "dropWhile (\<lambda>l. \<not> isPayloadTerminatorLine l) (ts @ ls) = ls"
    using assms(1,2) by (induction ts) (cases ls; simp add: ends_payload_def)+
  then show ?thesis using assms(3) by (auto simp: collectPayload_def)
qed

lemma parse_op_text:
  assumes "op_ok op" "ends_payload ls" "op_lines op = l # ts"
  shows "parse_op xx n k l (ts @ ls) = Inr (op_edits n k op, ls)"
proof (cases op)
  case (InsertOp c us)
  then have c: "cursor_ok c" "us = ts" "ts \<noteq> []" "list_all (\<lambda>l. \<not> isPayloadTerminatorLine l) ts"
    using assms(1,3) by (auto simp: list_all_iff)
  have e: "insert_edits xx (is_before c) n k (target_text c, None) (ts @ ls) = Inr (op_edits n k op, ls)"
    using c InsertOp collectPayload_text [OF c(4) assms(2), of True n] parseInsertTarget_text [OF c(1), of n]
    by (simp add: insert_edits_def resolveInlineInsertBody_def)
  show ?thesis
  proof (cases "is_before c")
    case True
    then show ?thesis using e assms(3) InsertOp insert_op_target [OF c(1)] by (auto simp: parse_op_def)
  next
    case False
    then show ?thesis using e assms(3) InsertOp insert_op_target [OF c(1)] insert_op_sigil sigils(1) by (auto simp: parse_op_def)
  qed
next
  case (ReplaceOp r us)
  then have r: "range_ok r" "us = ts" "list_all (\<lambda>l. \<not> isPayloadTerminatorLine l) ts" using assms(1,3) by (auto simp: list_all_iff)
  then show ?thesis
    using assms(3) ReplaceOp insert_op_sigil sigils(1) replace_op_range [OF r(1)] collectPayload_text [OF r(3) assms(2), of False n]
      parseRange_text [OF r(1), of n]
    by (auto simp: parse_op_def replace_edits_def)
qed

lemma marker_hd: "l \<in> {END_PATCH_MARKER, ABORT_MARKER, BEGIN_PATCH_MARKER} \<Longrightarrow> hd l = 42"
  by (auto simp: patch_markers units_def)

lemma op_line:
  assumes "op_lines op = l # ts"
  shows "\<not> blank l" "l \<notin> {END_PATCH_MARKER, ABORT_MARKER, BEGIN_PATCH_MARKER}" "isPayloadTerminatorLine l" "ts = so_payload op"
proof -
  obtain s t where l: "l = s # t" "s \<in> {HL_OP_INSERT_BEFORE, HL_OP_INSERT_AFTER, HL_OP_REPLACE}" using assms by (cases op) (auto split: if_splits)
  then show "\<not> blank l" using sigils(2-4) by (auto simp: blank_def)
  have "hd l \<noteq> 42" using l sigils(5-7) by auto
  then show "l \<notin> {END_PATCH_MARKER, ABORT_MARKER, BEGIN_PATCH_MARKER}" using marker_hd by blast
  show "isPayloadTerminatorLine l" using l by (auto simp: isPayloadTerminatorLine_def)
  show "ts = so_payload op" using assms by (cases op) auto
qed

lemma ends_payload_ops: "ends_payload (concat (map op_lines ops))"
proof (cases ops)
  case (Cons op ops')
  then show ?thesis by (cases op) (auto simp: ends_payload_def isPayloadTerminatorLine_def)
qed (simp add: ends_payload_def)

lemma parse_lines_ops:
  "list_all op_ok ops \<Longrightarrow> parse_lines xx n k (concat (map op_lines ops)) = Inr (script_edits n k ops, [])"
proof (induction ops arbitrary: n k)
  case (Cons op ops)
  obtain l ts where l: "op_lines op = l # ts" by (cases op) auto
  have "parse_op xx n k l (ts @ concat (map op_lines ops)) = Inr (op_edits n k op, concat (map op_lines ops))"
    using parse_op_text [OF _ ends_payload_ops l] Cons.prems by simp
  then show ?case using Cons op_line [OF l] l by simp
qed simp

lemma op_lines_ok: "op_ok op \<Longrightarrow> list_all line_ok (op_lines op)"
proof (cases op)
  case (InsertOp c ts)
  assume ok: "op_ok op"
  then have "\<forall>x \<in> set (target_text c). x \<noteq> LF \<and> x \<noteq> CR" using target_units target_plain InsertOp by (meson op_ok.simps(1))
  then have "line_ok (s # target_text c)" if "s \<noteq> LF" for s using that target_ne [of c] by (auto simp: line_ok_def)
  then show ?thesis using ok InsertOp by (auto simp: list_all_iff hl_units)
next
  case (ReplaceOp r ts)
  assume ok: "op_ok op"
  then have "range_ok r" using ReplaceOp by simp
  from range_units [OF this] have "\<forall>x \<in> set (range_text r). x \<noteq> LF \<and> x \<noteq> CR"
    by (auto simp: hl_units digit_unit_def lower_unit_def dest!: range_units [OF \<open>range_ok r\<close>])
  moreover have "range_text r \<noteq> []" by (simp add: range_text_def units_def)
  ultimately have "line_ok (HL_OP_REPLACE # range_text r)" by (auto simp: line_ok_def hl_units)
  then show ?thesis using ok ReplaceOp by (auto simp: list_all_iff)
qed

text \<open>An edit script written out as text is read back as exactly its operations: every operation with its target, its payload
  and the numbers of its lines, and no warning.\<close>

theorem script_round_trip:
  assumes "list_all op_ok ops" "ops \<noteq> []"
  shows "parseHashlineWithWarnings xx (script_text ops) = Inr (script_edits 1 0 ops, [])"
proof -
  have "list_all line_ok (concat (map op_lines ops))" using assms(1) op_lines_ok by (auto simp: list_all_iff)
  moreover have "concat (map op_lines ops) \<noteq> []" using assms(2) by (cases ops; cases "hd ops") auto
  ultimately have "script_lines (script_text ops) = concat (map op_lines ops)" unfolding script_text_def by (rule script_lines_unlines)
  then show ?thesis using parse_lines_ops [OF assms(1)] by (simp add: parseHashlineWithWarnings_def)
qed

text \<open>Two operations: a line inserted at the end, and line 2 replaced by nothing.\<close>

definition demo_script :: "script_op list" where
  "demo_script = [InsertOp Eof [units ''x''],
     ReplaceOp \<lparr>pr_start = \<lparr>a_line = 2, a_hash = units ''ab''\<rparr>, pr_end = \<lparr>a_line = 2, a_hash = units ''ab''\<rparr>\<rparr> []]"

lemma demo_script_ok: "list_all op_ok demo_script"
  by (simp add: demo_script_def line_ok_def isPayloadTerminatorLine_def isEnvelopeOrAbortMarkerLine_def range_ok_def lid_ok_def lower_unit_def
      units_def hl_units patch_markers trim_end_def space_unit_def)

theorem script_round_trip_witness:
  "list_all op_ok demo_script \<and>
   parseHashlineWithWarnings (\<lambda>_. 0) (script_text demo_script) =
     Inr ([Insert Eof (units ''x'') 1 0, Delete \<lparr>a_line = 2, a_hash = units ''ab''\<rparr> 3 1], [])"
  using script_round_trip [OF demo_script_ok, of "\<lambda>_. 0"] demo_script_ok
  by (simp add: demo_script_def insert_all_def delete_all_def expandRange_def)

end
