(* ===== verification/Hashline_Input.thy ===== *)
theory Hashline_Input
  imports Hashline_Parser
begin

text \<open>
  From the input of the edit tool to one script per file: \<^verbatim>\<open>hashline/input.ts\<close> with the merge of sections in
  \<^verbatim>\<open>hashline/execute.ts\<close>, and the line endings and byte order marks of \<^verbatim>\<open>edit/normalize.ts\<close>. Paths are POSIX paths;
  the directory of the process is the parameter \<open>pcwd\<close>.
\<close>

section \<open>Line endings and byte order marks\<close>

definition BOM :: nat where "BOM = 0xFEFF"

fun index_of :: "utext \<Rightarrow> utext \<Rightarrow> nat option" where
  "index_of p [] = (if p = [] then Some 0 else None)"
| "index_of p (c # s) = (if take (length p) (c # s) = p then Some 0 else map_option Suc (index_of p s))"

(* coding-agent/src/edit/normalize.ts:13-13 LineEnding *)
datatype line_ending = CRLF | PlainLF

(* coding-agent/src/edit/normalize.ts:16-22 detectLineEnding *)
definition detectLineEnding :: "utext \<Rightarrow> line_ending" where
  "detectLineEnding content =
     (case index_of [LF] content of
        None \<Rightarrow> PlainLF
      | Some lf \<Rightarrow> (case index_of [CR, LF] content of None \<Rightarrow> PlainLF | Some crlf \<Rightarrow> if crlf < lf then CRLF else PlainLF))"

(* coding-agent/src/edit/normalize.ts:25-27 normalizeToLF *)
fun normalizeToLF :: "utext \<Rightarrow> utext" where
  "normalizeToLF [] = []"
| "normalizeToLF (c # s) =
     (if c = CR then LF # (case s of d # t \<Rightarrow> if d = LF then normalizeToLF t else normalizeToLF s | [] \<Rightarrow> []) else c # normalizeToLF s)"

(* coding-agent/src/edit/normalize.ts:30-32 restoreLineEndings *)
definition restoreLineEndings :: "utext \<Rightarrow> line_ending \<Rightarrow> utext" where
  "restoreLineEndings s ending = (case ending of CRLF \<Rightarrow> concat (map (\<lambda>c. if c = LF then [CR, LF] else [c]) s) | PlainLF \<Rightarrow> s)"

(* coding-agent/src/edit/normalize.ts:46-48 stripBom *)
definition stripBom :: "utext \<Rightarrow> utext \<times> utext" where
  "stripBom content = (case content of c # s \<Rightarrow> if c = BOM then ([BOM], s) else ([], content) | [] \<Rightarrow> ([], []))"

section \<open>Paths\<close>

definition trim_units :: "utext \<Rightarrow> utext" where
  "trim_units s = dropWhile space_unit (trim_end s)"

definition SLASH :: nat where "SLASH = 47"

definition is_absolute_units :: "utext \<Rightarrow> bool" where
  "is_absolute_units p \<longleftrightarrow> p \<noteq> [] \<and> hd p = SLASH"

text \<open>\<^verbatim>\<open>path.resolve\<close> of a path, as the list of names below the root, and \<^verbatim>\<open>path.relative\<close> of two such lists.\<close>

definition resolve_step :: "utext list \<Rightarrow> utext \<Rightarrow> utext list" where
  "resolve_step ns n = (if n = [] \<or> n = units ''.'' then ns else if n = units ''..'' then butlast ns else ns @ [n])"

definition resolve_names :: "utext \<Rightarrow> utext \<Rightarrow> utext list" where
  "resolve_names pcwd p = foldl resolve_step [] (split_at SLASH (if is_absolute_units p then p else pcwd @ SLASH # p))"

fun relative_names :: "utext list \<Rightarrow> utext list \<Rightarrow> utext list" where
  "relative_names (a # as) (b # bs) = (if a = b then relative_names as bs else map (\<lambda>_. units ''..'') (a # as) @ b # bs)"
| "relative_names as bs = map (\<lambda>_. units ''..'') as @ bs"

(* coding-agent/src/hashline/input.ts:14-20 unquoteHashlinePath *)
definition unquoteHashlinePath :: "utext \<Rightarrow> utext" where
  "unquoteHashlinePath p =
     (if length p < 2 then p else if hd p \<in> {34, 39} \<and> hd p = last p then butlast (tl p) else p)"

(* coding-agent/src/hashline/input.ts:22-28 normalizeHashlinePath *)
definition normalizeHashlinePath :: "utext \<Rightarrow> utext \<Rightarrow> utext option \<Rightarrow> utext" where
  "normalizeHashlinePath pcwd rawPath cwd =
     (let unquoted = unquoteHashlinePath (trim_units rawPath)
      in case cwd of
           None \<Rightarrow> unquoted
         | Some dir \<Rightarrow>
             if dir = [] \<or> \<not> is_absolute_units unquoted then unquoted
             else let relative = join [SLASH] (relative_names (resolve_names pcwd dir) (resolve_names pcwd unquoted))
                  in if relative = [] then units ''.''
                     else if take 2 relative \<noteq> units ''..'' \<and> \<not> is_absolute_units relative then relative else unquoted)"

section \<open>Sections\<close>

datatype input_error = EmptyHeader | HeaderExpected utext

(* coding-agent/src/hashline/input.ts:9-12 HashlineInputSection *)
record hl_section =
  sec_path :: utext
  sec_diff :: utext

(* coding-agent/src/hashline/types.ts:55-58 SplitHashlineOptions *)
record split_options =
  so_cwd :: "utext option"
  so_path :: "utext option"

(* coding-agent/src/hashline/input.ts:30-46 parseHashlineHeaderLine *)
definition parseHashlineHeaderLine :: "utext \<Rightarrow> utext \<Rightarrow> utext option \<Rightarrow> input_error + utext option" where
  "parseHashlineHeaderLine pcwd line cwd =
     (let trimmed = trim_end line
      in if trimmed = [] \<or> hd trimmed \<noteq> HL_FILE_PREFIX then Inr None
         else let rest = dropWhile (\<lambda>c. c = HL_FILE_PREFIX) trimmed
              in if blank rest then Inl EmptyHeader
                 else let parsedPath = normalizeHashlinePath pcwd rest cwd
                      in if parsedPath = [] then Inl EmptyHeader else Inr (Some parsedPath))"

(* coding-agent/src/hashline/input.ts:48-51 isPatchEnvelopeMarker *)
definition isPatchEnvelopeMarker :: "utext \<Rightarrow> bool" where
  "isPatchEnvelopeMarker line \<longleftrightarrow> trim_end line \<in> {BEGIN_PATCH_MARKER, END_PATCH_MARKER}"

(* coding-agent/src/hashline/input.ts:53-65 stripLeadingBlankLines *)
definition stripLeadingBlankLines :: "utext \<Rightarrow> utext" where
  "stripLeadingBlankLines input =
     join [LF] (dropWhile (\<lambda>l. blank (strip_cr l) \<or> trim_end (strip_cr l) = BEGIN_PATCH_MARKER) (split_at LF (snd (stripBom input))))"

(* coding-agent/src/hashline/input.ts:67-72 containsRecognizableHashlineOperations *)
definition containsRecognizableHashlineOperations :: "utext \<Rightarrow> bool" where
  "containsRecognizableHashlineOperations input \<longleftrightarrow>
     list_ex (\<lambda>l. l \<noteq> [] \<and> hd l \<in> {HL_OP_INSERT_BEFORE, HL_OP_INSERT_AFTER, HL_OP_REPLACE}) (split_lines input)"

text \<open>\<^verbatim>\<open>some\<close> stops at the first header, or at the first error.\<close>

fun some_header :: "utext \<Rightarrow> utext option \<Rightarrow> utext list \<Rightarrow> input_error + bool" where
  "some_header pcwd cwd [] = Inr False"
| "some_header pcwd cwd (l # ls) =
     (case parseHashlineHeaderLine pcwd l cwd of Inl e \<Rightarrow> Inl e | Inr (Some _) \<Rightarrow> Inr True | Inr None \<Rightarrow> some_header pcwd cwd ls)"

(* coding-agent/src/hashline/input.ts:74-85 normalizeFallbackInput *)
definition normalizeFallbackInput :: "utext \<Rightarrow> utext \<Rightarrow> split_options \<Rightarrow> input_error + utext" where
  "normalizeFallbackInput pcwd input opts =
     (case some_header pcwd (so_cwd opts) (split_lines (snd (stripBom input))) of
        Inl e \<Rightarrow> Inl e
      | Inr True \<Rightarrow> Inr input
      | Inr False \<Rightarrow>
          (case so_path opts of
             None \<Rightarrow> Inr input
           | Some p \<Rightarrow>
               if p = [] \<or> \<not> containsRecognizableHashlineOperations input then Inr input
               else let fallbackPath = normalizeHashlinePath pcwd p (so_cwd opts)
                    in if fallbackPath = [] then Inr input else Inr (HL_FILE_PREFIX # fallbackPath @ LF # input)))"

(* coding-agent/src/hashline/input.ts:109-114 splitHashlineInputs *)
definition flush :: "utext \<Rightarrow> utext list \<Rightarrow> hl_section list" where
  "flush path ls =
     (if path = [] then [] else if list_ex (\<lambda>l. \<not> blank l) ls then [\<lparr>sec_path = path, sec_diff = join [LF] ls\<rparr>] else [])"

(* coding-agent/src/hashline/input.ts:116-128 splitHashlineInputs *)
fun split_sections :: "utext \<Rightarrow> utext option \<Rightarrow> utext \<Rightarrow> utext list \<Rightarrow> utext list \<Rightarrow> input_error + hl_section list" where
  "split_sections pcwd cwd path cur [] = Inr (flush path cur)"
| "split_sections pcwd cwd path cur (line # rest) =
     (if trim_end line = END_PATCH_MARKER \<or> trim_end line = ABORT_MARKER then Inr (flush path cur)
      else if isPatchEnvelopeMarker line then split_sections pcwd cwd path cur rest
      else (case parseHashlineHeaderLine pcwd line cwd of
              Inl e \<Rightarrow> Inl e
            | Inr (Some p) \<Rightarrow> map_sum id (\<lambda>ss. flush path cur @ ss) (split_sections pcwd cwd p [] rest)
            | Inr None \<Rightarrow> split_sections pcwd cwd path (cur @ [line]) rest))"

(* coding-agent/src/hashline/input.ts:92-130 splitHashlineInputs *)
definition splitHashlineInputs :: "utext \<Rightarrow> utext \<Rightarrow> split_options \<Rightarrow> input_error + hl_section list" where
  "splitHashlineInputs pcwd input opts =
     (case normalizeFallbackInput pcwd input opts of
        Inl e \<Rightarrow> Inl e
      | Inr s \<Rightarrow>
          let lines = split_lines (stripLeadingBlankLines s)
          in (case parseHashlineHeaderLine pcwd (hd lines) (so_cwd opts) of
                Inl e \<Rightarrow> Inl e
              | Inr None \<Rightarrow> Inl (HeaderExpected (take 120 (hd lines)))
              | Inr (Some _) \<Rightarrow> split_sections pcwd (so_cwd opts) [] [] lines))"

(* coding-agent/src/hashline/execute.ts:259-267 mergeSamePathSections *)
definition mergeSamePathSections :: "hl_section list \<Rightarrow> hl_section list" where
  "mergeSamePathSections sections =
     map (\<lambda>(path, diffs). \<lparr>sec_path = path, sec_diff = join [LF] diffs\<rparr>)
       (foldl (\<lambda>byPath s. AList.update (sec_path s) (case map_of byPath (sec_path s) of None \<Rightarrow> [sec_diff s] | Some ds \<Rightarrow> ds @ [sec_diff s]) byPath)
          [] sections)"

section \<open>Files keep their form\<close>

lemma normalizeToLF_plain: "CR \<notin> set t \<Longrightarrow> normalizeToLF t = t"
  by (induction t) (auto split: list.splits)

lemma normalize_restored: "CR \<notin> set t \<Longrightarrow> normalizeToLF (restoreLineEndings t CRLF) = t"
  by (induction t) (auto simp: restoreLineEndings_def hl_units)

lemma index_of_plain: "c \<notin> set t \<Longrightarrow> index_of [c] t = None"
  by (induction t) auto

lemma index_of_pair: "c \<notin> set t \<Longrightarrow> index_of [c, d] t = None"
  by (induction t) auto

lemma detect_crlf: "CR \<notin> set t \<Longrightarrow> LF \<in> set t \<Longrightarrow> detectLineEnding (restoreLineEndings t CRLF) = CRLF"
proof (induction t)
  case (Cons c t)
  have s: "detectLineEnding (c # s) = detectLineEnding s" if "c \<noteq> CR" "c \<noteq> LF" for s
    using that by (auto simp: detectLineEnding_def split: option.splits)
  show ?case
  proof (cases "c = LF")
    case True
    then show ?thesis by (simp add: restoreLineEndings_def detectLineEnding_def hl_units)
  next
    case False
    then show ?thesis using Cons s [of "restoreLineEndings t CRLF"] by (simp add: restoreLineEndings_def)
  qed
qed simp

lemma detect_plain: "CR \<notin> set t \<Longrightarrow> detectLineEnding t = PlainLF"
  by (simp add: detectLineEnding_def index_of_pair split: option.splits)

lemma restore_no_lf: "LF \<notin> set t \<Longrightarrow> restoreLineEndings t e = t"
proof -
  assume "LF \<notin> set t"
  then have "concat (map (\<lambda>c. if c = LF then [CR, LF] else [c]) t) = t" by (induction t) auto
  then show ?thesis by (simp add: restoreLineEndings_def split: line_ending.split)
qed

text \<open>What a tool does with the content of a file: edit the lines, and write them back in the form of the file.\<close>

definition edit_content :: "(utext \<Rightarrow> utext) \<Rightarrow> utext \<Rightarrow> utext" where
  "edit_content f raw = (let (bom, s) = stripBom raw in bom @ restoreLineEndings (f (normalizeToLF s)) (detectLineEnding s))"

lemma stripBom_parts:
  assumes "bom = [BOM] \<or> bom = [] \<and> (s = [] \<or> hd s \<noteq> BOM)"
  shows "stripBom (bom @ s) = (bom, s)"
  using assms by (cases s) (auto simp: stripBom_def)

text \<open>C36. A file whose line endings are all of one kind, with or without a byte order mark, keeps both through an edit: the edit sees
  the text with line feeds, and what it returns is written with the line endings and the mark of the file.\<close>

theorem file_form_kept:
  assumes "CR \<notin> set t" "LF \<in> set t" "bom = [BOM] \<or> bom = [] \<and> hd t \<noteq> BOM"
  shows "edit_content f (bom @ restoreLineEndings t e) = bom @ restoreLineEndings (f t) e"
proof -
  obtain c t' where t: "t = c # t'" using assms(2) by (cases t) auto
  have b: "stripBom (bom @ restoreLineEndings t e) = (bom, restoreLineEndings t e)"
    using assms(3) by (intro stripBom_parts) (auto simp: t restoreLineEndings_def BOM_def hl_units split: line_ending.splits)
  show ?thesis
  proof (cases e)
    case CRLF
    then show ?thesis using assms(1,2) b by (simp add: edit_content_def normalize_restored detect_crlf)
  next
    case PlainLF
    then show ?thesis using assms(1) b by (simp add: edit_content_def restoreLineEndings_def normalizeToLF_plain detect_plain)
  qed
qed

section \<open>Sections of one path\<close>

definition firsts :: "'a list \<Rightarrow> 'a list" where
  "firsts xs = rev (remdups (rev xs))"

lemma firsts_snoc: "firsts (xs @ [x]) = (if x \<in> set xs then firsts xs else firsts xs @ [x])"
  by (simp add: firsts_def)

lemma firsts_set [simp]: "set (firsts xs) = set xs" "distinct (firsts xs)"
  by (simp_all add: firsts_def)

lemma firsts_distinct: "distinct xs \<Longrightarrow> firsts xs = xs"
  by (simp add: firsts_def distinct_remdups_id)

lemma update_map: "k \<in> set ps \<Longrightarrow> distinct ps \<Longrightarrow> AList.update k v (map (\<lambda>p. (p, f p)) ps) = map (\<lambda>p. (p, if p = k then v else f p)) ps"
  by (induction ps) (auto intro!: map_cong)

lemma update_new: "k \<notin> set ps \<Longrightarrow> AList.update k v (map (\<lambda>p. (p, f p)) ps) = map (\<lambda>p. (p, f p)) ps @ [(k, v)]"
  by (induction ps) auto

lemma map_of_map_pairs: "map_of (map (\<lambda>p. (p, f p)) ps) k = (if k \<in> set ps then Some (f k) else None)"
  by (induction ps) auto

definition path_diffs :: "hl_section list \<Rightarrow> utext \<Rightarrow> utext list" where
  "path_diffs ss p = map sec_diff (filter (\<lambda>s. sec_path s = p) ss)"

lemma merge_table:
  "foldl (\<lambda>byPath s. AList.update (sec_path s) (case map_of byPath (sec_path s) of None \<Rightarrow> [sec_diff s] | Some ds \<Rightarrow> ds @ [sec_diff s]) byPath) [] ss
     = map (\<lambda>p. (p, path_diffs ss p)) (firsts (map sec_path ss))"
proof (induction ss rule: rev_induct)
  case (snoc s ss)
  have a: "path_diffs (ss @ [s]) p = (if p = sec_path s then path_diffs ss p @ [sec_diff s] else path_diffs ss p)" for p
    by (simp add: path_diffs_def)
  show ?case
  proof (cases "sec_path s \<in> set (map sec_path ss)")
    case True
    then show ?thesis using snoc by (simp add: a firsts_snoc map_of_map_pairs update_map)
  next
    case False
    then have n: "\<forall>x \<in> set ss. sec_path x \<noteq> sec_path s" by (metis image_eqI set_map)
    then have "path_diffs ss (sec_path s) = []" by (simp add: path_diffs_def filter_empty_conv)
    moreover have "map (\<lambda>p. (p, path_diffs (ss @ [s]) p)) (firsts (map sec_path ss)) = map (\<lambda>p. (p, path_diffs ss p)) (firsts (map sec_path ss))"
      using n by (intro map_cong) (auto simp: a)
    ultimately show ?thesis using snoc False by (simp add: firsts_snoc map_of_map_pairs update_new a)
  qed
qed (simp add: firsts_def)

text \<open>Sections of the same file are merged into one: every file of the input has exactly one section, files come in the order
  of their first sections, and the script of a file is that of its sections in their order.\<close>

theorem merged_sections:
  "mergeSamePathSections ss =
     map (\<lambda>p. \<lparr>sec_path = p, sec_diff = join [LF] (map sec_diff (filter (\<lambda>s. sec_path s = p) ss))\<rparr>) (firsts (map sec_path ss))
   \<and> distinct (map sec_path (mergeSamePathSections ss))"
  by (simp add: mergeSamePathSections_def merge_table path_diffs_def comp_def)

lemma filter_key: "distinct (map f xs) \<Longrightarrow> x \<in> set xs \<Longrightarrow> filter (\<lambda>t. f t = f x) xs = [x]"
proof (induction xs)
  case (Cons y ys)
  have n: "\<forall>t \<in> set ys. f t \<noteq> f y" using Cons.prems(1) by (metis distinct.simps(2) image_eqI list.simps(9) set_map)
  then show ?case using Cons by (cases "x = y") (auto simp: filter_empty_conv)
qed simp

lemma merge_distinct: "distinct (map sec_path ss) \<Longrightarrow> mergeSamePathSections ss = ss"
proof -
  assume d: "distinct (map sec_path ss)"
  have "path_diffs ss (sec_path s) = [sec_diff s]" if "s \<in> set ss" for s
  proof -
    have "filter (\<lambda>t. sec_path t = sec_path s) ss = [s]" using d that by (rule filter_key)
    then show ?thesis by (simp add: path_diffs_def)
  qed
  then have "map (\<lambda>s. \<lparr>sec_path = sec_path s, sec_diff = join [LF] (path_diffs ss (sec_path s))\<rparr>) ss = map id ss"
    by (intro map_cong) auto
  then show ?thesis by (simp add: mergeSamePathSections_def merge_table firsts_distinct [OF d] comp_def)
qed

theorem file_form_kept_witness:
  "edit_content (\<lambda>s. s @ units ''b'') ([BOM] @ restoreLineEndings (units ''a'' @ [LF]) CRLF) = BOM # units ''a'' @ [CR, LF] @ units ''b''"
  using file_form_kept [of "units ''a'' @ [LF]" "[BOM]" "\<lambda>s. s @ units ''b''" CRLF]
  by (simp add: units_def hl_units restoreLineEndings_def)

section \<open>Inputs read back\<close>

definition path_ok :: "utext \<Rightarrow> bool" where
  "path_ok p \<longleftrightarrow> p \<noteq> [] \<and> hd p \<notin> {HL_FILE_PREFIX, SLASH, 34, 39} \<and> \<not> space_unit (hd p) \<and> \<not> space_unit (last p) \<and> LF \<notin> set p"

definition body_ok :: "utext \<Rightarrow> bool" where
  "body_ok l \<longleftrightarrow> line_ok l \<and> (l = [] \<or> hd l \<noteq> HL_FILE_PREFIX) \<and> \<not> isEnvelopeOrAbortMarkerLine l"

definition section_lines :: "utext \<times> utext list \<Rightarrow> utext list" where
  "section_lines s = (HL_FILE_PREFIX # fst s) # snd s"

definition section_ok :: "utext \<times> utext list \<Rightarrow> bool" where
  "section_ok s \<longleftrightarrow> path_ok (fst s) \<and> list_all body_ok (snd s) \<and> list_ex (\<lambda>l. \<not> blank l) (snd s)"

definition input_text :: "(utext \<times> utext list) list \<Rightarrow> utext" where
  "input_text ss = join [LF] (concat (map section_lines ss))"

definition as_section :: "utext \<times> utext list \<Rightarrow> hl_section" where
  "as_section s = \<lparr>sec_path = fst s, sec_diff = join [LF] (snd s)\<rparr>"

lemma trim_end_last: "s \<noteq> [] \<Longrightarrow> \<not> space_unit (last s) \<Longrightarrow> trim_end s = s"
  by (simp add: trim_end_def dropWhile_hd hd_rev)

lemma trim_end_Cons: "trim_end (c # s) = (if trim_end s = [] then (if space_unit c then [] else [c]) else c # trim_end s)"
  by (auto simp: trim_end_def dropWhile_append dropWhile_eq_Nil_conv)

lemma trim_end_hd: "trim_end l = [] \<or> hd (trim_end l) = hd l"
  by (cases l) (simp_all add: trim_end_Cons, simp add: trim_end_def)

lemma trim_units_id: "s \<noteq> [] \<Longrightarrow> \<not> space_unit (hd s) \<Longrightarrow> \<not> space_unit (last s) \<Longrightarrow> trim_units s = s"
  by (simp add: trim_units_def trim_end_last dropWhile_hd)

lemma header_path: "path_ok p \<Longrightarrow> parseHashlineHeaderLine pcwd (HL_FILE_PREFIX # p) cwd = Inr (Some p)"
proof -
  assume p: "path_ok p"
  then have t: "trim_end (HL_FILE_PREFIX # p) = HL_FILE_PREFIX # p" "trim_units p = p"
    by (simp_all add: path_ok_def trim_end_last trim_units_id)
  have u: "unquoteHashlinePath p = p" "\<not> is_absolute_units p" using p by (auto simp: path_ok_def unquoteHashlinePath_def is_absolute_units_def)
  then have n: "normalizeHashlinePath pcwd p cwd = p" using t by (simp add: normalizeHashlinePath_def split: option.split)
  have d: "dropWhile (\<lambda>c. c = HL_FILE_PREFIX) (HL_FILE_PREFIX # p) = p" using p dropWhile_hd [of p "\<lambda>c. c = HL_FILE_PREFIX"] by (simp add: path_ok_def)
  have "\<not> blank p" using p by (cases p) (auto simp: path_ok_def blank_def)
  then show ?thesis using p unfolding parseHashlineHeaderLine_def Let_def t(1) d n by (simp add: path_ok_def)
qed

lemma header_none: "l = [] \<or> hd l \<noteq> HL_FILE_PREFIX \<Longrightarrow> parseHashlineHeaderLine pcwd l cwd = Inr None"
  using trim_end_hd [of l] by (auto simp: parseHashlineHeaderLine_def trim_end_def)

lemma markers_hd: "hd BEGIN_PATCH_MARKER = 42" "hd END_PATCH_MARKER = 42" "hd ABORT_MARKER = 42"
  "BEGIN_PATCH_MARKER \<noteq> []" "END_PATCH_MARKER \<noteq> []" "ABORT_MARKER \<noteq> []"
  by (simp_all add: patch_markers units_def)

lemma header_not_marker:
  "trim_end (HL_FILE_PREFIX # p) \<notin> {BEGIN_PATCH_MARKER, END_PATCH_MARKER, ABORT_MARKER}"
  using trim_end_hd [of "HL_FILE_PREFIX # p"] markers_hd by (auto simp: HL_FILE_PREFIX_def)

lemma sections_body:
  "list_all body_ok ls \<Longrightarrow> split_sections pcwd cwd p cur (ls @ rest) = split_sections pcwd cwd p (cur @ ls) rest"
proof (induction ls arbitrary: cur)
  case (Cons l ls)
  then have "trim_end l \<notin> {BEGIN_PATCH_MARKER, END_PATCH_MARKER, ABORT_MARKER}" "parseHashlineHeaderLine pcwd l cwd = Inr None"
    by (auto simp: body_ok_def isEnvelopeOrAbortMarkerLine_def header_none)
  then show ?case using Cons by (simp add: isPatchEnvelopeMarker_def)
qed simp

lemma sections_all:
  "list_all section_ok ss \<Longrightarrow>
   split_sections pcwd cwd p cur (concat (map section_lines ss)) = Inr (flush p cur @ map as_section ss)"
proof (induction ss arbitrary: p cur)
  case (Cons s ss)
  have ok: "path_ok (fst s)" "list_all body_ok (snd s)" "flush (fst s) (snd s) = [as_section s]"
    using Cons.prems by (auto simp: section_ok_def flush_def as_section_def path_ok_def)
  have "split_sections pcwd cwd p cur (concat (map section_lines (s # ss)))
      = map_sum id (\<lambda>r. flush p cur @ r) (split_sections pcwd cwd (fst s) [] (snd s @ concat (map section_lines ss)))"
    using header_path [OF ok(1)] header_not_marker [of "fst s"] by (simp add: section_lines_def isPatchEnvelopeMarker_def)
  also have "split_sections pcwd cwd (fst s) [] (snd s @ concat (map section_lines ss)) = Inr (as_section s # map as_section ss)"
    using sections_body [OF ok(2)] Cons ok(3) by simp
  finally show ?case by simp
qed simp

lemma split_lines_join: "ls \<noteq> [] \<Longrightarrow> list_all line_ok ls \<Longrightarrow> split_lines (join [LF] ls) = ls"
proof -
  assume ls: "ls \<noteq> []" "list_all line_ok ls"
  then have "split_at LF (join [LF] ls) = ls" by (intro split_at_join) (auto simp: list_all_iff line_ok_def)
  moreover have "map strip_cr (butlast ls) = butlast ls"
    using ls(2) by (intro map_idI) (auto simp: list_all_iff line_ok_def strip_cr_def dest: in_set_butlastD)
  ultimately show ?thesis using ls(1) by (simp add: split_lines_def Let_def)
qed

lemma section_line_ok: "section_ok s \<Longrightarrow> list_all line_ok (section_lines s)"
proof -
  assume s: "section_ok s"
  have "space_unit CR" "LF \<noteq> HL_FILE_PREFIX" by (simp_all add: space_unit_def hl_units)
  then have "line_ok (HL_FILE_PREFIX # fst s)" using s by (auto simp: section_ok_def path_ok_def line_ok_def)
  then show ?thesis using s by (simp add: section_lines_def section_ok_def list_all_iff body_ok_def)
qed

lemma split_input:
  assumes "list_all section_ok ss" "ss \<noteq> []"
  shows "splitHashlineInputs pcwd (input_text ss) opts = Inr (map as_section ss)"
proof -
  let ?ls = "concat (map section_lines ss)"
  obtain s ss' where s: "ss = s # ss'" using assms(2) by (cases ss) auto
  then have ok: "section_ok s" "path_ok (fst s)" using assms(1) by (simp_all add: section_ok_def)
  have ls: "?ls = (HL_FILE_PREFIX # fst s) # snd s @ concat (map section_lines ss')" by (simp add: s section_lines_def)
  have ne: "?ls \<noteq> []" by (simp add: s section_lines_def)
  have l: "list_all line_ok ?ls" using assms(1) section_line_ok by (auto simp: list_all_iff)
  have sp: "split_lines (input_text ss) = ?ls" unfolding input_text_def by (rule split_lines_join [OF ne l])
  have sa: "split_at LF (input_text ss) = ?ls"
    unfolding input_text_def using l [unfolded list_all_iff line_ok_def] by (intro split_at_join [OF ne]) blast
  have "input_text ss \<noteq> [] \<and> hd (input_text ss) = HL_FILE_PREFIX" unfolding input_text_def using join_hd [of ?ls "[LF]"] ls by simp
  then have b: "stripBom (input_text ss) = ([], input_text ss)" using stripBom_parts [of "[]" "input_text ss"] by (simp add: HL_FILE_PREFIX_def BOM_def)
  have f: "normalizeFallbackInput pcwd (input_text ss) opts = Inr (input_text ss)"
    using header_path [OF ok(2)] by (simp add: normalizeFallbackInput_def b sp) (simp add: ls)
  have "\<not> blank (strip_cr (HL_FILE_PREFIX # fst s))" "trim_end (strip_cr (HL_FILE_PREFIX # fst s)) \<noteq> BEGIN_PATCH_MARKER"
    using ok(2) header_not_marker [of "fst s"] by (auto simp: strip_cr_def path_ok_def blank_def space_unit_def hl_units)
  then have "stripLeadingBlankLines (input_text ss) = join [LF] ?ls" by (simp add: stripLeadingBlankLines_def b sa ls)
  then have "stripLeadingBlankLines (input_text ss) = input_text ss" by (simp add: input_text_def)
  moreover have "split_sections pcwd (so_cwd opts) [] [] ?ls = Inr (map as_section ss)" using sections_all [OF assms(1)] by (simp add: flush_def)
  ultimately show ?thesis using header_path [OF ok(2)] by (simp add: splitHashlineInputs_def f sp) (simp add: ls)
qed

lemma script_lines_join: "ls \<noteq> [] \<Longrightarrow> list_all line_ok ls \<Longrightarrow> last ls \<noteq> [] \<Longrightarrow> script_lines (join [LF] ls) = ls"
proof -
  assume ls: "ls \<noteq> []" "list_all line_ok ls" "last ls \<noteq> []"
  then have "line_ok (last ls)" by (simp add: list_all_iff)
  then have "last (last ls) \<noteq> LF" using last_in_set [OF ls(3)] by (metis line_ok_def)
  then show ?thesis using last_join [OF ls(1,3), of "[LF]"] split_lines_join [OF ls(1,2)] by (simp add: script_lines_def)
qed

text \<open>A file of an input: its path and the operations on it, the last of which does not end in an empty line.\<close>

definition script_file_ok :: "utext \<times> script_op list \<Rightarrow> bool" where
  "script_file_ok f \<longleftrightarrow> path_ok (fst f) \<and> snd f \<noteq> [] \<and> list_all op_ok (snd f) \<and> last (concat (map op_lines (snd f))) \<noteq> []"

definition file_section :: "utext \<times> script_op list \<Rightarrow> utext \<times> utext list" where
  "file_section f = (fst f, concat (map op_lines (snd f)))"

lemma op_body: "op_ok op \<Longrightarrow> list_all body_ok (op_lines op)"
proof -
  assume ok: "op_ok op"
  obtain l ts where l: "op_lines op = l # ts" by (cases op) auto
  have "list_all line_ok (op_lines op)" using ok by (rule op_lines_ok)
  moreover have "\<forall>t \<in> set ts. \<not> isPayloadTerminatorLine t" using ok l by (cases op) (auto simp: list_all_iff)
  moreover obtain c s where cs: "l = c # s" "c \<in> {HL_OP_INSERT_BEFORE, HL_OP_INSERT_AFTER, HL_OP_REPLACE}" using l by (cases op) (auto split: if_splits)
  moreover have "c \<noteq> HL_FILE_PREFIX \<and> c \<noteq> 42" using cs(2) by (auto simp: hl_units)
  then have "hd l \<noteq> HL_FILE_PREFIX \<and> \<not> isEnvelopeOrAbortMarkerLine l"
    using trim_end_hd [of l] markers_hd cs(1) by (auto simp: isEnvelopeOrAbortMarkerLine_def)
  ultimately show ?thesis using l by (auto simp: body_ok_def list_all_iff isPayloadTerminatorLine_def)
qed

lemma op_lines_first: "op_lines op \<noteq> [] \<and> \<not> blank (hd (op_lines op))"
proof -
  obtain l ts where "op_lines op = l # ts" by (cases op) auto
  then show ?thesis using op_line(1) by simp
qed

lemma file_section_ok: "script_file_ok f \<Longrightarrow> section_ok (file_section f)"
proof -
  assume f: "script_file_ok f"
  then obtain op ops where o: "snd f = op # ops" by (cases "snd f") (auto simp: script_file_ok_def)
  have "list_all body_ok (concat (map op_lines (snd f)))" using f op_body by (auto simp: script_file_ok_def list_all_iff)
  moreover have "list_ex (\<lambda>l. \<not> blank l) (op_lines op)" using op_lines_first [of op] by (cases "op_lines op") auto
  then have "list_ex (\<lambda>l. \<not> blank l) (concat (map op_lines (snd f)))" by (simp add: o)
  ultimately show ?thesis using f by (simp add: section_ok_def file_section_def script_file_ok_def)
qed

lemma file_parsed: "script_file_ok f \<Longrightarrow> parseHashlineWithWarnings xx (sec_diff (as_section (file_section f))) = Inr (script_edits 1 0 (snd f), [])"
proof -
  assume f: "script_file_ok f"
  have "list_all line_ok (concat (map op_lines (snd f)))" using f op_lines_ok by (auto simp: script_file_ok_def list_all_iff)
  moreover have "concat (map op_lines (snd f)) \<noteq> []" using f op_lines_first by (cases "snd f") (auto simp: script_file_ok_def)
  ultimately have "script_lines (join [LF] (concat (map op_lines (snd f)))) = concat (map op_lines (snd f))"
    using f by (intro script_lines_join) (auto simp: script_file_ok_def)
  then show ?thesis using f parse_lines_ops by (simp add: parseHashlineWithWarnings_def as_section_def file_section_def script_file_ok_def)
qed

text \<open>C10. An input for several files is read back as it was written: one section per file, in order, and the script of each is
  parsed to exactly the operations on that file.\<close>

theorem input_round_trip:
  assumes "list_all script_file_ok fs" "fs \<noteq> []" "distinct (map fst fs)"
  shows "map_sum id (\<lambda>ss. map (\<lambda>s. (sec_path s, parseHashlineWithWarnings xx (sec_diff s))) (mergeSamePathSections ss))
           (splitHashlineInputs pcwd (input_text (map file_section fs)) opts)
         = Inr (map (\<lambda>f. (fst f, Inr (script_edits 1 0 (snd f), []))) fs)"
proof -
  have "splitHashlineInputs pcwd (input_text (map file_section fs)) opts = Inr (map as_section (map file_section fs))"
    using assms(1,2) file_section_ok by (intro split_input) (auto simp: list_all_iff)
  moreover have "mergeSamePathSections (map as_section (map file_section fs)) = map as_section (map file_section fs)"
    using assms(3) by (intro merge_distinct) (simp add: as_section_def file_section_def comp_def)
  ultimately show ?thesis using assms(1) file_parsed [of _ xx] by (simp add: list_all_iff as_section_def file_section_def)
qed

definition demo_files :: "(utext \<times> script_op list) list" where
  "demo_files = [(units ''a'', [InsertOp Eof [units ''x'']]), (units ''b'', [InsertOp Bof [units ''y'']])]"

lemma demo_files_ok: "list_all script_file_ok demo_files"
  by (simp add: demo_files_def script_file_ok_def path_ok_def line_ok_def isPayloadTerminatorLine_def isEnvelopeOrAbortMarkerLine_def
      units_def hl_units SLASH_def patch_markers trim_end_def space_unit_def)

theorem input_round_trip_witness:
  "map_sum id (\<lambda>ss. map (\<lambda>s. (sec_path s, parseHashlineWithWarnings (\<lambda>_. 0) (sec_diff s))) (mergeSamePathSections ss))
     (splitHashlineInputs (units ''/'') (input_text (map file_section demo_files)) \<lparr>so_cwd = None, so_path = None\<rparr>)
   = Inr [(units ''a'', Inr ([Insert Eof (units ''x'') 1 0], [])), (units ''b'', Inr ([Insert Bof (units ''y'') 1 0], []))]"
  using input_round_trip [OF demo_files_ok, of "\<lambda>_. 0" "units ''/''" "\<lparr>so_cwd = None, so_path = None\<rparr>"]
  by (simp add: demo_files_def insert_all_def units_def)

section \<open>Truncated inputs\<close>

lemma flush_lines: "s \<in> set (flush p cur) \<Longrightarrow> sec_diff s = join [LF] cur \<and> cur \<noteq> []"
  by (auto simp: flush_def split: if_splits)

lemma sections_no_abort:
  "split_sections pcwd cwd p cur ls = Inr ss \<Longrightarrow> s \<in> set ss \<Longrightarrow> \<forall>l \<in> set cur. trim_end l \<noteq> ABORT_MARKER \<Longrightarrow>
   \<forall>l \<in> set (cur @ ls). LF \<notin> set l \<Longrightarrow>
   \<exists>ls'. sec_diff s = join [LF] ls' \<and> ls' \<noteq> [] \<and> (\<forall>l \<in> set ls'. trim_end l \<noteq> ABORT_MARKER \<and> LF \<notin> set l)"
proof (induction pcwd cwd p cur ls arbitrary: ss rule: split_sections.induct)
  case (1 pcwd cwd p cur)
  then show ?case using flush_lines by fastforce
next
  case (2 pcwd cwd p cur line rest)
  show ?case
  proof (cases "trim_end line = END_PATCH_MARKER \<or> trim_end line = ABORT_MARKER")
    case True
    then show ?thesis using 2(4-) flush_lines [of s p cur] by auto
  next
    case F: False
    show ?thesis
    proof (cases "isPatchEnvelopeMarker line")
      case True
      then show ?thesis using 2(1) [OF F True] 2(4-) F by simp
    next
      case M: False
      show ?thesis
      proof (cases "parseHashlineHeaderLine pcwd line cwd")
        case (Inr h)
        show ?thesis
        proof (cases h)
          case None
          then show ?thesis using 2(2) [OF F M Inr None] 2(4-) F M Inr by simp
        next
          case (Some q)
          then obtain ss' where s': "split_sections pcwd cwd q [] rest = Inr ss'" "ss = flush p cur @ ss'"
            using 2(4) F M Inr by (cases "split_sections pcwd cwd q [] rest") auto
          show ?thesis
          proof (cases "s \<in> set ss'")
            case True
            then show ?thesis using 2(3) [OF F M Inr Some s'(1)] 2(7) by simp
          next
            case False
            then show ?thesis using flush_lines [of s p cur] 2(5-) s'(2) by auto
          qed
        qed
      qed (use 2(4) F M in simp)
    qed
  qed
qed

lemma parse_op_rest_set: "parse_op xx n k line rest = Inr (es, next) \<Longrightarrow> set next \<subseteq> set rest"
  by (auto simp: parse_op_def insert_edits_def replace_edits_def collectPayload_def Let_def dest: set_dropWhileD
      split: option.splits sum.splits if_splits)

lemma parse_lines_warned: "parse_lines xx n k ls = Inr (es, ws) \<Longrightarrow> ABORT_MARKER \<notin> set ls \<Longrightarrow> ws = []"
proof (induction xx n k ls arbitrary: es ws rule: parse_lines.induct)
  case (2 xx n k line rest)
  show ?case
  proof (cases "blank line \<or> line = END_PATCH_MARKER \<or> line = BEGIN_PATCH_MARKER")
    case True
    then show ?thesis using 2(1,2,4,5) by (auto split: if_splits)
  next
    case False
    then obtain es1 next1 where p: "parse_op xx n k line rest = Inr (es1, next1)"
      using 2(4,5) by (cases "parse_op xx n k line rest") (auto split: if_splits)
    obtain es2 ws2 where q: "parse_lines xx (n + 1 + (length rest - length next1)) (k + length es1) next1 = Inr (es2, ws2)" "ws = ws2"
      using False p 2(4,5) by (cases "parse_lines xx (n + 1 + (length rest - length next1)) (k + length es1) next1") auto
    have "ABORT_MARKER \<notin> set next1" using parse_op_rest_set [OF p] 2(5) by auto
    then show ?thesis using 2(3) [OF _ _ _ _ p refl q(1)] False 2(5) q(2) by auto
  qed
qed simp

definition unaborted :: "utext list \<Rightarrow> bool" where
  "unaborted ls \<longleftrightarrow> ls \<noteq> [] \<and> (\<forall>l \<in> set ls. trim_end l \<noteq> ABORT_MARKER \<and> LF \<notin> set l)"

lemma unaborted_append: "unaborted ls \<Longrightarrow> unaborted ls' \<Longrightarrow> unaborted (ls @ ls')"
  by (auto simp: unaborted_def)

lemma unaborted_join:
  "ds \<noteq> [] \<Longrightarrow> \<forall>d \<in> set ds. \<exists>ls. d = join [LF] ls \<and> unaborted ls \<Longrightarrow> \<exists>ls. join [LF] ds = join [LF] ls \<and> unaborted ls"
proof (induction ds)
  case (Cons d ds)
  obtain ls where ls: "d = join [LF] ls" "unaborted ls" using Cons.prems(2) by auto
  show ?case
  proof (cases "ds = []")
    case False
    then obtain ls' where ls': "join [LF] ds = join [LF] ls'" "unaborted ls'" using Cons by auto
    then have "join [LF] (d # ds) = join [LF] (ls @ ls')" using False ls join_append [of ls ls' "[LF]"] by (simp add: join_Cons unaborted_def)
    then show ?thesis using unaborted_append [OF ls(2) ls'(2)] by blast
  qed (use ls in auto)
qed simp

lemma script_lines_of_join:
  "ls \<noteq> [] \<Longrightarrow> \<forall>l \<in> set ls. LF \<notin> set l \<Longrightarrow> l \<in> set (script_lines (join [LF] ls)) \<Longrightarrow> \<exists>l' \<in> set ls. l = l' \<or> l = strip_cr l'"
  by (auto simp: script_lines_def split_lines_def split_at_join Let_def dest!: in_set_butlastD split: if_splits)

lemma strip_abort: "ABORT_MARKER = l \<or> ABORT_MARKER = strip_cr l \<Longrightarrow> trim_end l = ABORT_MARKER"
proof -
  have t: "trim_end (ABORT_MARKER @ [CR]) = ABORT_MARKER" "trim_end ABORT_MARKER = ABORT_MARKER"
    by (simp_all add: trim_end_def patch_markers units_def hl_units space_unit_def)
  assume "ABORT_MARKER = l \<or> ABORT_MARKER = strip_cr l"
  then have "l = ABORT_MARKER \<or> l = ABORT_MARKER @ [CR]" by (auto simp: strip_cr_def split: if_splits) (metis append_butlast_last_id)+
  then show ?thesis using t by auto
qed

lemma split_lines_no_lf: "l \<in> set (split_lines s) \<Longrightarrow> LF \<notin> set l"
  by (auto simp: split_lines_def Let_def strip_cr_def last_split_at dest!: in_set_butlastD split_at_pieces split: if_splits)

text \<open>An input cut off by the abort marker is applied up to the marker, and the warning of the parser is never given: the sections
  end before the marker.\<close>

lemma abort_not_reported:
  assumes "splitHashlineInputs pcwd input opts = Inr ss" "s \<in> set (mergeSamePathSections ss)"
    and "parseHashlineWithWarnings xx (sec_diff s) = Inr (es, ws)"
  shows "ws = []"
proof -
  obtain t where t: "split_sections pcwd (so_cwd opts) [] [] (split_lines t) = Inr ss"
    using assms(1) by (auto simp: splitHashlineInputs_def Let_def split: sum.splits option.splits)
  have ex: "\<exists>ls. sec_diff s' = join [LF] ls \<and> unaborted ls" if "s' \<in> set ss" for s'
    using sections_no_abort [OF t that] split_lines_no_lf by (simp add: unaborted_def)
  obtain s0 where s0: "s0 \<in> set ss" "sec_diff s = join [LF] (path_diffs ss (sec_path s0))"
    using assms(2) by (auto simp: mergeSamePathSections_def merge_table)
  have "path_diffs ss (sec_path s0) \<noteq> []" using s0(1) by (auto simp: path_diffs_def filter_empty_conv)
  moreover have "\<forall>d \<in> set (path_diffs ss (sec_path s0)). \<exists>ls. d = join [LF] ls \<and> unaborted ls" using ex by (auto simp: path_diffs_def)
  ultimately obtain ls where ls: "sec_diff s = join [LF] ls" "unaborted ls" unfolding s0(2) using unaborted_join by metis
  have "ABORT_MARKER \<notin> set (script_lines (sec_diff s))"
  proof
    assume "ABORT_MARKER \<in> set (script_lines (sec_diff s))"
    then obtain l where "l \<in> set ls" "ABORT_MARKER = l \<or> ABORT_MARKER = strip_cr l"
      using script_lines_of_join [of ls ABORT_MARKER] ls unfolding unaborted_def by metis
    then show False using ls(2) strip_abort [of l] unfolding unaborted_def by blast
  qed
  then show ?thesis using parse_lines_warned assms(3) unfolding parseHashlineWithWarnings_def by blast
qed

text \<open>A path inside the working directory whose first name begins with two dots is taken for one outside.\<close>

lemma dotted_name_outside:
  "normalizeHashlinePath (units ''/'') (units ''/w/..a'') (Some (units ''/w'')) = units ''/w/..a''"
  by (simp add: normalizeHashlinePath_def unquoteHashlinePath_def trim_units_def trim_end_def resolve_names_def resolve_step_def
      is_absolute_units_def units_def SLASH_def space_unit_def)

end
