(* ===== verification/Hashline_Stream.thy ===== *)
theory Hashline_Stream
  imports Hashline_Text
begin

text \<open>
  Streaming a file with anchors: \<^verbatim>\<open>hashline/stream.ts\<close>. The source is the list of texts that the streaming decoder gives, one per
  block of bytes and one at the end.
\<close>

section \<open>Lengths in bytes\<close>

text \<open>\<^verbatim>\<open>Buffer.byteLength\<close>: a pair of surrogates takes four bytes, a lone surrogate is replaced by a character of three.\<close>

fun byte_length :: "utext \<Rightarrow> nat" where
  "byte_length [] = 0"
| "byte_length [c] = (if c < 0x80 then 1 else if c < 0x800 then 2 else 3)"
| "byte_length (c # d # s) =
     (if 0xD800 \<le> c \<and> c < 0xDC00 \<and> 0xDC00 \<le> d \<and> d < 0xE000 then 4 + byte_length s
      else (if c < 0x80 then 1 else if c < 0x800 then 2 else 3) + byte_length (d # s))"

section \<open>The emitter\<close>

(* coding-agent/src/hashline/stream.ts:4-8 ResolvedHashlineStreamOptions *)
record stream_options =
  startLine :: nat
  maxChunkLines :: nat
  maxChunkBytes :: nat

(* coding-agent/src/hashline/stream.ts:10-16 resolveHashlineStreamOptions *)
definition resolveHashlineStreamOptions :: "nat option \<Rightarrow> nat option \<Rightarrow> nat option \<Rightarrow> stream_options" where
  "resolveHashlineStreamOptions start lines bytes =
     \<lparr>startLine = (case start of None \<Rightarrow> 1 | Some n \<Rightarrow> n), maxChunkLines = (case lines of None \<Rightarrow> 200 | Some n \<Rightarrow> n),
      maxChunkBytes = (case bytes of None \<Rightarrow> 64 * 1024 | Some n \<Rightarrow> n)\<rparr>"

(* coding-agent/src/hashline/stream.ts:23-26 createHashlineChunkEmitter *)
record emitter =
  em_line :: nat
  em_out :: "utext list"
  em_bytes :: nat

(* coding-agent/src/hashline/stream.ts:28-34 createHashlineChunkEmitter *)
definition em_flush :: "emitter \<Rightarrow> utext option \<times> emitter" where
  "em_flush em = (if em_out em = [] then (None, em) else (Some (join [LF] (em_out em)), em\<lparr>em_out := [], em_bytes := 0\<rparr>))"

text \<open>\<^verbatim>\<open>if (flushed)\<close> is also false of the empty string.\<close>

definition flushed_chunks :: "utext option \<Rightarrow> utext list" where
  "flushed_chunks f = (case f of None \<Rightarrow> [] | Some c \<Rightarrow> if c = [] then [] else [c])"

definition em_flush_if :: "bool \<Rightarrow> emitter \<Rightarrow> utext list \<times> emitter" where
  "em_flush_if b em = (if b then map_prod flushed_chunks id (em_flush em) else ([], em))"

(* coding-agent/src/hashline/stream.ts:36-59 createHashlineChunkEmitter *)
definition pushLine :: "(utext \<Rightarrow> nat) \<Rightarrow> stream_options \<Rightarrow> utext \<Rightarrow> emitter \<Rightarrow> utext list \<times> emitter" where
  "pushLine xx opts line em =
     (let formatted = formatHashLine xx (em_line em) line;
          sepBytes = (if em_out em = [] then 0 else 1);
          lineBytes = byte_length formatted;
          wouldOverflow = (maxChunkLines opts \<le> length (em_out em) \<or> maxChunkBytes opts < em_bytes em + sepBytes + lineBytes);
          (chunks1, em1) = em_flush_if (em_out em \<noteq> [] \<and> wouldOverflow) (em\<lparr>em_line := em_line em + 1\<rparr>);
          em2 = em1\<lparr>em_out := em_out em1 @ [formatted],
                    em_bytes := em_bytes em1 + (if em_out em1 = [] then 0 else 1) + lineBytes\<rparr>;
          (chunks2, em3) = em_flush_if (maxChunkLines opts \<le> length (em_out em2) \<or> maxChunkBytes opts \<le> em_bytes em2) em2
      in (chunks1 @ chunks2, em3))"

section \<open>The stream\<close>

(* coding-agent/src/hashline/stream.ts:100-108 streamHashLinesFromUtf8 *)
function push_pending :: "(utext \<Rightarrow> nat) \<Rightarrow> stream_options \<Rightarrow> utext \<Rightarrow> bool \<Rightarrow> emitter \<Rightarrow> utext list \<times> utext \<times> bool \<times> emitter" where
  "push_pending xx opts pending saw em =
     (if LF \<notin> set pending then ([], pending, saw, em)
      else let raw = takeWhile (\<lambda>c. c \<noteq> LF) pending;
               (out, em1) = pushLine xx opts (strip_cr raw) em;
               (outs, r) = push_pending xx opts (drop (length raw + 1) pending) True em1
           in (out @ outs, r))"
  by pat_completeness auto
termination by (relation "measure (\<lambda>(xx, opts, pending, saw, em). length pending)") (auto dest: length_pos_if_in_set intro: diff_less)

(* coding-agent/src/hashline/stream.ts:98-109 streamHashLinesFromUtf8 *)
fun push_blocks :: "(utext \<Rightarrow> nat) \<Rightarrow> stream_options \<Rightarrow> utext list \<Rightarrow> utext \<Rightarrow> bool \<Rightarrow> emitter \<Rightarrow> utext list \<times> utext \<times> bool \<times> emitter" where
  "push_blocks xx opts [] pending saw em = ([], pending, saw, em)"
| "push_blocks xx opts (b # bs) pending saw em =
     (let (out, pending1, saw1, em1) = push_pending xx opts (pending @ b) saw em;
          (outs, r) = push_blocks xx opts bs pending1 saw1 em1
      in (out @ outs, r))"

(* coding-agent/src/hashline/stream.ts:86-123 streamHashLinesFromUtf8 *)
definition streamHashLinesFromUtf8 :: "(utext \<Rightarrow> nat) \<Rightarrow> stream_options \<Rightarrow> utext list \<Rightarrow> utext \<Rightarrow> utext list" where
  "streamHashLinesFromUtf8 xx opts blocks decoded_tail =
     (let (out1, pending1, saw1, em1) = push_blocks xx opts blocks [] False \<lparr>em_line = startLine opts, em_out = [], em_bytes = 0\<rparr>;
          pending = pending1 @ decoded_tail;
          (out2, em2) = (if pending \<noteq> [] then pushLine xx opts (strip_cr pending) em1 else ([], em1));
          (out3, em3) = (if \<not> (saw1 \<or> pending \<noteq> []) then pushLine xx opts [] em2 else ([], em2))
      in out1 @ out2 @ out3 @ flushed_chunks (fst (em_flush em3)))"

section \<open>Chunks\<close>

lemma byte_length_sep: "byte_length (s @ LF # t) = byte_length s + 1 + byte_length t"
proof (induction s rule: byte_length.induct)
  case 1
  then show ?case by (cases t) (simp_all add: LF_def)
next
  case (2 c)
  then show ?case by (cases t) (simp_all add: LF_def)
next
  case (3 c d s)
  then show ?case by simp
qed

lemma byte_length_join_snoc: "ls \<noteq> [] \<Longrightarrow> byte_length (join [LF] (ls @ [l])) = byte_length (join [LF] ls) + 1 + byte_length l"
  by (induction "[LF]" ls rule: join.induct) (auto simp: byte_length_sep join_Cons)

text \<open>A chunk is a group of lines within the limits; a line that is too long is a chunk of its own.\<close>

definition good_group :: "stream_options \<Rightarrow> utext list \<Rightarrow> bool" where
  "good_group opts g \<longleftrightarrow> g \<noteq> [] \<and> [] \<notin> set g \<and> length g \<le> max 1 (maxChunkLines opts)
     \<and> (length g = 1 \<or> byte_length (join [LF] g) \<le> maxChunkBytes opts)"

definition em_inv :: "stream_options \<Rightarrow> emitter \<Rightarrow> bool" where
  "em_inv opts em \<longleftrightarrow> [] \<notin> set (em_out em) \<and> em_bytes em = byte_length (join [LF] (em_out em))
     \<and> (em_out em = [] \<or> length (em_out em) < maxChunkLines opts \<and> em_bytes em < maxChunkBytes opts)"

lemma em_inv_group: "em_inv opts em \<Longrightarrow> em_out em \<noteq> [] \<Longrightarrow> good_group opts (em_out em)"
  by (auto simp: em_inv_def good_group_def)

lemma flush_if_group:
  assumes "b \<longrightarrow> good_group opts (em_out em)"
  shows "em_flush_if b em = (if b then ([join [LF] (em_out em)], em\<lparr>em_out := [], em_bytes := 0\<rparr>) else ([], em))"
  using assms join_ne by (auto simp: em_flush_if_def em_flush_def flushed_chunks_def good_group_def)

lemma format_ne [simp]: "formatHashLine xx n l \<noteq> []" "[] \<noteq> formatHashLine xx n l"
  by (simp_all add: formatHashLine_def)

lemma pushLine_groups:
  assumes "em_inv opts em" "pushLine xx opts l em = (cs, em')"
  shows "em_inv opts em' \<and> em_line em' = em_line em + 1 \<and>
    (\<exists>gs. cs = map (join [LF]) gs \<and> list_all (good_group opts) gs \<and> concat gs @ em_out em' = em_out em @ [formatHashLine xx (em_line em) l])"
proof -
  let ?f = "formatHashLine xx (em_line em) l"
  let ?o = "em_out em \<noteq> [] \<and> (maxChunkLines opts \<le> length (em_out em) \<or> maxChunkBytes opts < em_bytes em + (if em_out em = [] then 0 else 1) + byte_length ?f)"
  define em1 where "em1 = (if ?o then \<lparr>em_line = em_line em + 1, em_out = [], em_bytes = 0\<rparr> else em\<lparr>em_line := em_line em + 1\<rparr>)"
  have f1: "em_flush_if ?o (em\<lparr>em_line := em_line em + 1\<rparr>) = (if ?o then [join [LF] (em_out em)] else [], em1)"
    using em_inv_group [OF assms(1)] by (subst flush_if_group [of _ opts]) (auto simp: em1_def)
  define em2 where "em2 = em1\<lparr>em_out := em_out em1 @ [?f], em_bytes := em_bytes em1 + (if em_out em1 = [] then 0 else 1) + byte_length ?f\<rparr>"
  have b2: "em_bytes em2 = byte_length (join [LF] (em_out em2))"
    using assms(1) by (auto simp: em2_def em1_def em_inv_def byte_length_join_snoc)
  have g2: "good_group opts (em_out em2)"
    using assms(1) b2 by (auto simp: em2_def em1_def em_inv_def good_group_def)
  define b where "b \<longleftrightarrow> maxChunkLines opts \<le> length (em_out em2) \<or> maxChunkBytes opts \<le> em_bytes em2"
  have f2: "em_flush_if b em2 = (if b then ([join [LF] (em_out em2)], em2\<lparr>em_out := [], em_bytes := 0\<rparr>) else ([], em2))"
    using g2 by (intro flush_if_group [of _ opts]) simp
  have r: "cs = (if ?o then [join [LF] (em_out em)] else []) @ fst (em_flush_if b em2)" "em' = snd (em_flush_if b em2)"
    using assms(2) f1 unfolding pushLine_def Let_def b_def em2_def by (auto split: prod.splits)
  let ?gs = "(if ?o then [em_out em] else []) @ (if b then [em_out em2] else [])"
  have "cs = map (join [LF]) ?gs" using r(1) f2 by simp
  moreover have "list_all (good_group opts) ?gs" using em_inv_group [OF assms(1)] g2 by simp
  moreover have "concat ?gs @ em_out em' = em_out em @ [?f]" using r(2) f2 by (auto simp: em2_def em1_def)
  moreover have "em_inv opts em'" using r(2) f2 b2 g2 by (auto simp: em_inv_def good_group_def b_def)
  moreover have "em_line em' = em_line em + 1" using r(2) f2 by (auto simp: em2_def em1_def)
  ultimately show ?thesis by blast
qed

fun push_lines :: "(utext \<Rightarrow> nat) \<Rightarrow> stream_options \<Rightarrow> utext list \<Rightarrow> emitter \<Rightarrow> utext list \<times> emitter" where
  "push_lines xx opts [] em = ([], em)"
| "push_lines xx opts (l # ls) em = (let (out, em1) = pushLine xx opts l em; (outs, em2) = push_lines xx opts ls em1 in (out @ outs, em2))"

lemma push_lines_append:
  "push_lines xx opts (ls @ ls') em = (let (out, em1) = push_lines xx opts ls em; (outs, em2) = push_lines xx opts ls' em1 in (out @ outs, em2))"
  by (induction ls arbitrary: em) (auto simp: Let_def split: prod.splits)

fun anchored_lines :: "(utext \<Rightarrow> nat) \<Rightarrow> nat \<Rightarrow> utext list \<Rightarrow> utext list" where
  "anchored_lines xx n [] = []"
| "anchored_lines xx n (l # ls) = formatHashLine xx n l # anchored_lines xx (Suc n) ls"

lemma push_lines_groups:
  "em_inv opts em \<Longrightarrow> push_lines xx opts ls em = (cs, em') \<Longrightarrow>
   em_inv opts em' \<and> (\<exists>gs. cs = map (join [LF]) gs \<and> list_all (good_group opts) gs \<and> concat gs @ em_out em' = em_out em @ anchored_lines xx (em_line em) ls)"
proof (induction ls arbitrary: em cs)
  case (Cons l ls)
  obtain out em1 where p: "pushLine xx opts l em = (out, em1)" by fastforce
  obtain outs where q: "push_lines xx opts ls em1 = (outs, em')" "cs = out @ outs"
    using Cons.prems(2) p by (auto simp: Let_def split: prod.splits)
  obtain gs where g: "out = map (join [LF]) gs" "list_all (good_group opts) gs" "concat gs @ em_out em1 = em_out em @ [formatHashLine xx (em_line em) l]"
    and e: "em_inv opts em1" "em_line em1 = em_line em + 1" using pushLine_groups [OF Cons.prems(1) p] by auto
  obtain gs' where g': "outs = map (join [LF]) gs'" "list_all (good_group opts) gs'" "concat gs' @ em_out em' = em_out em1 @ anchored_lines xx (em_line em1) ls"
    and e': "em_inv opts em'" using Cons.IH [OF e(1) q(1)] by auto
  have "concat (gs @ gs') @ em_out em' = (concat gs @ em_out em1) @ anchored_lines xx (em_line em1) ls" using g'(3) by simp
  then have "concat (gs @ gs') @ em_out em' = em_out em @ anchored_lines xx (em_line em) (l # ls)" unfolding g(3) by (simp add: e(2))
  then show ?case using g g' q(2) e' by (intro conjI exI [of _ "gs @ gs'"]) auto
qed simp

section \<open>The stream and the whole text\<close>

declare push_pending.simps [simp del]

lemma push_pending_lines:
  "push_pending xx opts p saw em =
     (let ls = map strip_cr (butlast (split_at LF p)); (cs, em') = push_lines xx opts ls em in (cs, last (split_at LF p), saw \<or> ls \<noteq> [], em'))"
proof (induction xx opts p saw em rule: push_pending.induct)
  case (1 xx opts p saw em)
  show ?case
  proof (cases "LF \<in> set p")
    case False
    then show ?thesis by (simp add: split_at_no_sep push_pending.simps)
  next
    case True
    let ?raw = "takeWhile (\<lambda>c. c \<noteq> LF) p" and ?rest = "drop (length (takeWhile (\<lambda>c. c \<noteq> LF) p) + 1) p"
    have "p = ?raw @ dropWhile (\<lambda>c. c \<noteq> LF) p" by simp
    moreover obtain d where d: "dropWhile (\<lambda>c. c \<noteq> LF) p = LF # d" using True by (metis (mono_tags, lifting) dropWhile_eq_Nil_conv hd_dropWhile list.collapse)
    ultimately have p: "p = ?raw @ LF # d" by simp
    then have "?rest = d" by (metis append_Cons append_Nil append_assoc append_eq_conv_conj length_append_singleton Suc_eq_plus1)
    then have s: "split_at LF p = ?raw # split_at LF ?rest" using p split_at_append_sep [of LF ?raw d] by (metis (mono_tags, lifting) set_takeWhileD)
    obtain out em1 where o: "pushLine xx opts (strip_cr ?raw) em = (out, em1)" by fastforce
    show ?thesis using 1 [OF _ refl o [symmetric] refl] True o by (subst push_pending.simps) (simp add: s Let_def split: prod.splits)
  qed
qed

lemma push_blocks_lines:
  "LF \<notin> set p \<Longrightarrow> push_blocks xx opts bs p saw em =
     (let ps = split_at LF (p @ concat bs); ls = map strip_cr (butlast ps); (cs, em') = push_lines xx opts ls em in
        (cs, last ps, saw \<or> ls \<noteq> [], em'))"
proof (induction bs arbitrary: p saw em)
  case Nil
  then show ?case by (simp add: split_at_no_sep)
next
  case (Cons b bs)
  have s: "split_at LF (p @ b @ concat bs) = butlast (split_at LF (p @ b)) @ split_at LF (last (split_at LF (p @ b)) @ concat bs)"
    using split_at_app [of LF "p @ b" "concat bs"] by simp
  show ?case
    by (simp add: push_pending_lines Cons.IH [OF last_split_at] s push_lines_append butlast_append Let_def split: prod.splits)
qed

text \<open>The lines of a text: an empty last piece is not a line, unless it is all there is.\<close>

definition stream_lines :: "utext \<Rightarrow> utext list" where
  "stream_lines s = (let ps = split_at LF s; ls = (if last ps = [] then butlast ps else ps) in if ls = [] then [[]] else map strip_cr ls)"

lemma stream_pushed:
  assumes "LF \<notin> set decoded_tail"
  shows "streamHashLinesFromUtf8 xx opts bs decoded_tail =
    (let (cs, em) = push_lines xx opts (stream_lines (concat bs @ decoded_tail)) \<lparr>em_line = startLine opts, em_out = [], em_bytes = 0\<rparr>
     in cs @ flushed_chunks (fst (em_flush em)))"
proof -
  let ?ps = "split_at LF (concat bs)" and ?em = "\<lparr>em_line = startLine opts, em_out = [], em_bytes = 0\<rparr>"
  have "LF \<notin> set (last ?ps @ decoded_tail)" using assms last_split_at by simp
  then have s: "split_at LF (concat bs @ decoded_tail) = butlast ?ps @ [last ?ps @ decoded_tail]"
    using split_at_app [of LF "concat bs" decoded_tail] split_at_no_sep by metis
  obtain cs em where p: "push_lines xx opts (map strip_cr (butlast ?ps)) ?em = (cs, em)" by fastforce
  have b: "push_blocks xx opts bs [] False ?em = (cs, last ?ps, butlast ?ps \<noteq> [], em)" using p push_blocks_lines [of "[]" xx opts bs False ?em] by (simp add: Let_def)
  show ?thesis
  proof (cases "last ?ps @ decoded_tail = []")
    case True
    then show ?thesis using p b by (auto simp: streamHashLinesFromUtf8_def stream_lines_def s push_lines_append Let_def split: prod.splits)
  next
    case False
    then have "stream_lines (concat bs @ decoded_tail) = map strip_cr (butlast ?ps) @ [strip_cr (last ?ps @ decoded_tail)]"
      by (auto simp: stream_lines_def s Let_def)
    then show ?thesis using False p b by (auto simp: streamHashLinesFromUtf8_def push_lines_append Let_def split: prod.splits)
  qed
qed

text \<open>C35. However a file is cut into blocks, the chunks of its stream are groups of its lines, each line once, in order and with its
  anchor; no chunk holds more lines than allowed, nor more bytes, unless it is a single line.\<close>

theorem stream_chunks:
  assumes "LF \<notin> set decoded_tail"
  shows "\<exists>gs. streamHashLinesFromUtf8 xx opts bs decoded_tail = map (join [LF]) gs
     \<and> concat gs = anchored_lines xx (startLine opts) (stream_lines (concat bs @ decoded_tail))
     \<and> list_all (\<lambda>g. length g \<le> max 1 (maxChunkLines opts) \<and> (length g = 1 \<or> byte_length (join [LF] g) \<le> maxChunkBytes opts)) gs"
proof -
  let ?em = "\<lparr>em_line = startLine opts, em_out = [], em_bytes = 0\<rparr>" and ?ls = "stream_lines (concat bs @ decoded_tail)"
  obtain cs em where p: "push_lines xx opts ?ls ?em = (cs, em)" by fastforce
  have i: "em_inv opts ?em" by (simp add: em_inv_def)
  obtain gs where g: "cs = map (join [LF]) gs" "list_all (good_group opts) gs" "concat gs @ em_out em = anchored_lines xx (startLine opts) ?ls" "em_inv opts em"
    using push_lines_groups [OF i p] by auto
  let ?gs = "gs @ (if em_out em = [] then [] else [em_out em])"
  have "flushed_chunks (fst (em_flush em)) = map (join [LF]) (if em_out em = [] then [] else [em_out em])"
    using join_ne [of "em_out em"] g(4) by (auto simp: em_flush_def flushed_chunks_def em_inv_def)
  then have "streamHashLinesFromUtf8 xx opts bs decoded_tail = map (join [LF]) ?gs" using stream_pushed [OF assms] p g(1) by simp
  moreover have "list_all (good_group opts) ?gs" using g(2) em_inv_group [OF g(4)] by simp
  then have "list_all (\<lambda>g. length g \<le> max 1 (maxChunkLines opts) \<and> (length g = 1 \<or> byte_length (join [LF] g) \<le> maxChunkBytes opts)) ?gs"
    by (rule list.pred_mono_strong) (simp add: good_group_def)
  moreover have "concat ?gs = anchored_lines xx (startLine opts) ?ls" using g(3) by auto
  ultimately show ?thesis by (intro exI [of _ ?gs] conjI)
qed

theorem stream_chunks_witness:
  "\<exists>gs. streamHashLinesFromUtf8 (\<lambda>_. 0) (resolveHashlineStreamOptions None (Some 1) None) [units ''a'', [CR, LF] @ units ''b''] [] = map (join [LF]) gs
     \<and> concat gs = [formatHashLine (\<lambda>_. 0) 1 (units ''a''), formatHashLine (\<lambda>_. 0) 2 (units ''b'')]
     \<and> list_all (\<lambda>g. length g \<le> 1) gs"
proof -
  have "stream_lines (concat [units ''a'', [CR, LF] @ units ''b''] @ []) = [units ''a'', units ''b'']"
    by (simp add: stream_lines_def units_def hl_units strip_cr_def)
  moreover have "LF \<notin> set ([] :: utext)" by simp
  from stream_chunks [OF this, of "\<lambda>_. 0" "resolveHashlineStreamOptions None (Some 1) None" "[units ''a'', [CR, LF] @ units ''b'']"]
  obtain gs where "streamHashLinesFromUtf8 (\<lambda>_. 0) (resolveHashlineStreamOptions None (Some 1) None) [units ''a'', [CR, LF] @ units ''b''] [] = map (join [LF]) gs"
    "concat gs = anchored_lines (\<lambda>_. 0) 1 (stream_lines (concat [units ''a'', [CR, LF] @ units ''b''] @ []))" "list_all (\<lambda>g. length g \<le> 1) gs"
    by (force simp: resolveHashlineStreamOptions_def list_all_iff)
  ultimately show ?thesis by (intro exI [of _ gs]) (simp add: numeral_2_eq_2)
qed

end
