(* ===== verification/Hashline_Apply.thy ===== *)
theory Hashline_Apply
  imports Hashline_Parser
begin

text \<open>
  Applying hashline edits to a file: \<^verbatim>\<open>hashline/apply.ts\<close>. The array of line origins, which the code maintains beside the lines and
  never reads, is left out. Warnings are values instead of texts.
\<close>

section \<open>Validation\<close>

datatype apply_error = NoSuchLine nat nat | HashlineMismatch "hash_mismatch list"

(* coding-agent/src/hashline/apply.ts:38-43 getHashlineEditAnchors *)
definition getHashlineEditAnchors :: "edit \<Rightarrow> anchor list" where
  "getHashlineEditAnchors e =
     (case e of
        Delete a _ _ \<Rightarrow> [a]
      | Insert (BeforeAnchor a) _ _ _ \<Rightarrow> [a]
      | Insert (AfterAnchor a) _ _ _ \<Rightarrow> [a]
      | _ \<Rightarrow> [])"

definition file_line :: "utext list \<Rightarrow> nat \<Rightarrow> utext" where
  "file_line ls n = (if 1 \<le> n \<and> n \<le> length ls then ls ! (n - 1) else [])"

fun validate_anchors :: "(utext \<Rightarrow> nat) \<Rightarrow> utext list \<Rightarrow> anchor list \<Rightarrow> apply_error + hash_mismatch list" where
  "validate_anchors xx ls [] = Inr []"
| "validate_anchors xx ls (a # as) =
     (if a_line a < 1 \<or> length ls < a_line a then Inl (NoSuchLine (a_line a) (length ls))
      else map_sum id
        (\<lambda>ms. if a_hash a = RANGE_INTERIOR_HASH \<or> computeLineHash xx (file_line ls (a_line a)) = a_hash a then ms
              else \<lparr>hm_line = a_line a, hm_expected = a_hash a, hm_actual = computeLineHash xx (file_line ls (a_line a))\<rparr> # ms)
        (validate_anchors xx ls as))"

(* coding-agent/src/hashline/apply.ts:50-66 validateHashlineAnchors *)
definition validateHashlineAnchors :: "(utext \<Rightarrow> nat) \<Rightarrow> edit list \<Rightarrow> utext list \<Rightarrow> apply_error + hash_mismatch list" where
  "validateHashlineAnchors xx edits ls = validate_anchors xx ls (concat (map getHashlineEditAnchors edits))"

section \<open>Groups of edits\<close>

(* coding-agent/src/hashline/apply.ts:97-101 getAnchorTargetLine *)
definition getAnchorTargetLine :: "edit \<Rightarrow> nat option" where
  "getAnchorTargetLine e =
     (case e of
        Delete a _ _ \<Rightarrow> Some (a_line a)
      | Insert (BeforeAnchor a) _ _ _ \<Rightarrow> Some (a_line a)
      | Insert (AfterAnchor a) _ _ _ \<Rightarrow> Some (a_line a)
      | _ \<Rightarrow> None)"

(* coding-agent/src/hashline/apply.ts:103-110 collectAnchorTargetLines *)
definition collectAnchorTargetLines :: "edit list \<Rightarrow> nat set" where
  "collectAnchorTargetLines edits = set (List.map_filter getAnchorTargetLine edits)"

definition inserts_before :: "nat \<Rightarrow> edit \<Rightarrow> bool" where
  "inserts_before n e = (case e of Insert (BeforeAnchor _) _ m _ \<Rightarrow> m = n | _ \<Rightarrow> False)"

definition deletes_at :: "nat \<Rightarrow> edit \<Rightarrow> bool" where
  "deletes_at n e \<longleftrightarrow> is_delete e \<and> e_lineNum e = n"

(* coding-agent/src/hashline/apply.ts:30-36 HashlineReplacementGroup *)
record replacement_group =
  rg_sourceLineNum :: nat
  rg_edits :: "edit list"
  rg_replacement :: "utext list"
  rg_startLine :: nat
  rg_count :: nat

text \<open>The group at the head of the remaining edits: inserts before an anchor and the deletes of the lines from that anchor on, all of
  one operation.\<close>

(* coding-agent/src/hashline/apply.ts:112-143 findReplacementGroup *)
definition findReplacementGroup :: "edit list \<Rightarrow> replacement_group option" where
  "findReplacementGroup es =
     (case es of
        Insert (BeforeAnchor a) t n k # _ \<Rightarrow>
          let ins = takeWhile (inserts_before n) es; rest = dropWhile (inserts_before n) es;
              dels = takeWhile (deletes_at n) rest; startLine = a_line (e_anchor (hd dels))
          in if dels = [] \<or> map (\<lambda>d. a_line (e_anchor d)) dels \<noteq> [startLine..<startLine + length dels] \<or> a_line a \<noteq> startLine then None
             else Some \<lparr>rg_sourceLineNum = n, rg_edits = ins @ dels, rg_replacement = map e_text ins, rg_startLine = startLine,
                        rg_count = length dels\<rparr>
      | _ \<Rightarrow> None)"

section \<open>Duplicated boundaries\<close>

text \<open>The largest number from \<open>n\<close> down to 2 that satisfies a test, or 0.\<close>

fun largest_from :: "nat \<Rightarrow> (nat \<Rightarrow> bool) \<Rightarrow> nat" where
  "largest_from n P = (if n < 2 then 0 else if P n then n else largest_from (n - 1) P)"

declare largest_from.simps [simp del]

(* coding-agent/src/hashline/apply.ts:145-158 countMatchingPrefixBlock *)
definition countMatchingPrefixBlock :: "utext list \<Rightarrow> nat \<Rightarrow> utext list \<Rightarrow> nat" where
  "countMatchingPrefixBlock ls startLine replacement =
     largest_from (min (length replacement) (startLine - 1))
       (\<lambda>n. take n (drop (startLine - n - 1) ls) = take n replacement)"

(* coding-agent/src/hashline/apply.ts:160-173 countMatchingSuffixBlock *)
definition countMatchingSuffixBlock :: "utext list \<Rightarrow> nat \<Rightarrow> utext list \<Rightarrow> nat" where
  "countMatchingSuffixBlock ls endLine replacement =
     largest_from (min (length replacement) (length ls - endLine))
       (\<lambda>n. take n (drop endLine ls) = drop (length replacement - n) replacement)"

definition closing_unit :: "nat \<Rightarrow> bool" where
  "closing_unit c \<longleftrightarrow> c \<in> set (units '')]}'')"

text \<open>\<^verbatim>\<open>/^\s*[\])}]+[;,]?\s*$/\<close>\<close>

(* coding-agent/src/hashline/apply.ts:179-183 isStructuralClosingBoundaryLine *)
definition isStructuralClosingBoundaryLine :: "utext \<Rightarrow> bool" where
  "isStructuralClosingBoundaryLine line =
     (let s = dropWhile space_unit line; rest = dropWhile closing_unit s
      in s \<noteq> [] \<and> closing_unit (hd s) \<and> blank (if rest \<noteq> [] \<and> hd rest \<in> set (units '';,'') then tl rest else rest))"

(* coding-agent/src/hashline/apply.ts:185-189 DelimiterBalance *)
record delimiter_balance =
  db_paren :: int
  db_bracket :: int
  db_brace :: int

(* coding-agent/src/hashline/apply.ts:191-191 ZERO_DELIMITER_BALANCE *)
definition ZERO_DELIMITER_BALANCE :: delimiter_balance where
  "ZERO_DELIMITER_BALANCE = \<lparr>db_paren = 0, db_bracket = 0, db_brace = 0\<rparr>"

definition net :: "char \<Rightarrow> char \<Rightarrow> utext \<Rightarrow> int" where
  "net a b s = int (count_list s (of_char a)) - int (count_list s (of_char b))"

(* coding-agent/src/hashline/apply.ts:202-229 computeDelimiterBalance *)
definition computeDelimiterBalance :: "utext list \<Rightarrow> delimiter_balance" where
  "computeDelimiterBalance ls =
     \<lparr>db_paren = net CHR ''('' CHR '')'' (concat ls), db_bracket = net CHR ''['' CHR '']'' (concat ls),
      db_brace = net CHR ''{'' CHR ''}'' (concat ls)\<rparr>"

(* coding-agent/src/hashline/apply.ts:242-251 shouldDropSingleStructuralBoundary *)
definition shouldDropSingleStructuralBoundary :: "utext list \<Rightarrow> utext list \<Rightarrow> delimiter_balance \<Rightarrow> bool" where
  "shouldDropSingleStructuralBoundary fullPayload keptPayload expected \<longleftrightarrow>
     computeDelimiterBalance keptPayload = expected \<and> computeDelimiterBalance fullPayload \<noteq> expected"

(* coding-agent/src/hashline/apply.ts:253-264 countMatchingSingleStructuralPrefixBoundary *)
definition countMatchingSingleStructuralPrefixBoundary :: "utext list \<Rightarrow> nat \<Rightarrow> utext list \<Rightarrow> delimiter_balance \<Rightarrow> nat" where
  "countMatchingSingleStructuralPrefixBoundary ls startLine replacement expected =
     (if replacement = [] \<or> startLine \<le> 1 then 0
      else if \<not> isStructuralClosingBoundaryLine (hd replacement) then 0
      else if file_line ls (startLine - 1) \<noteq> hd replacement then 0
      else if shouldDropSingleStructuralBoundary replacement (tl replacement) expected then 1 else 0)"

(* coding-agent/src/hashline/apply.ts:266-277 countMatchingSingleStructuralSuffixBoundary *)
definition countMatchingSingleStructuralSuffixBoundary :: "utext list \<Rightarrow> nat \<Rightarrow> utext list \<Rightarrow> delimiter_balance \<Rightarrow> nat" where
  "countMatchingSingleStructuralSuffixBoundary ls endLine replacement expected =
     (if replacement = [] \<or> length ls \<le> endLine then 0
      else if \<not> isStructuralClosingBoundaryLine (last replacement) then 0
      else if file_line ls (endLine + 1) \<noteq> last replacement then 0
      else if shouldDropSingleStructuralBoundary replacement (butlast replacement) expected then 1 else 0)"

(* coding-agent/src/hashline/apply.ts:279-284 hasExternalTargets *)
definition hasExternalTargets :: "nat list \<Rightarrow> nat set \<Rightarrow> bool" where
  "hasExternalTargets lines targets \<longleftrightarrow> list_ex (\<lambda>l. l \<in> targets) lines"

(* coding-agent/src/hashline/apply.ts:286-288 contiguousRange *)
definition contiguousRange :: "nat \<Rightarrow> nat \<Rightarrow> nat list" where
  "contiguousRange start n = [start..<start + n]"

(* coding-agent/src/hashline/apply.ts:290-302 deleteEditForAutoAbsorbedLine *)
definition deleteEditForAutoAbsorbedLine :: "(utext \<Rightarrow> nat) \<Rightarrow> nat \<Rightarrow> nat \<Rightarrow> nat \<Rightarrow> utext list \<Rightarrow> edit" where
  "deleteEditForAutoAbsorbedLine xx line sourceLineNum index ls =
     Delete \<lparr>a_line = line, a_hash = computeLineHash xx (file_line ls line)\<rparr> sourceLineNum index"

section \<open>Pure inserts\<close>

(* coding-agent/src/hashline/apply.ts:312-318 cursorMatches *)
definition cursorMatches :: "cursor \<Rightarrow> cursor \<Rightarrow> bool" where
  "cursorMatches a b =
     (case (a, b) of
        (Bof, Bof) \<Rightarrow> True
      | (Eof, Eof) \<Rightarrow> True
      | (BeforeAnchor x, BeforeAnchor y) \<Rightarrow> a_line x = a_line y \<and> a_hash x = a_hash y
      | (AfterAnchor x, AfterAnchor y) \<Rightarrow> a_line x = a_line y \<and> a_hash x = a_hash y
      | _ \<Rightarrow> False)"

(* coding-agent/src/hashline/apply.ts:304-310 HashlinePureInsertGroup *)
record pure_insert_group =
  pi_edits :: "edit list"
  pi_sourceLineNum :: nat
  pi_cursor :: cursor
  pi_payload :: "utext list"

definition same_insert :: "cursor \<Rightarrow> nat \<Rightarrow> edit \<Rightarrow> bool" where
  "same_insert c n e = (case e of Insert c' _ m _ \<Rightarrow> m = n \<and> cursorMatches c' c | _ \<Rightarrow> False)"

(* coding-agent/src/hashline/apply.ts:327-350 findPureInsertGroup *)
definition findPureInsertGroup :: "edit list \<Rightarrow> pure_insert_group option" where
  "findPureInsertGroup es =
     (case es of
        Insert c t n k # _ \<Rightarrow>
          let ins = takeWhile (same_insert c n) es; rest = dropWhile (same_insert c n) es
          in if rest \<noteq> [] \<and> deletes_at n (hd rest) then None
             else Some \<lparr>pi_edits = ins, pi_sourceLineNum = n, pi_cursor = c, pi_payload = map e_text ins\<rparr>
      | _ \<Rightarrow> None)"

text \<open>The number of file lines strictly above the insertion point, which is also the index of the first line below it; except at the
  start and the end of the file, where the other side is empty.\<close>

(* coding-agent/src/hashline/apply.ts:360-371 pureInsertNeighborhood *)
definition pureInsertNeighborhood :: "cursor \<Rightarrow> utext list \<Rightarrow> nat \<times> nat" where
  "pureInsertNeighborhood c ls =
     (case c of
        Bof \<Rightarrow> (0, 0)
      | Eof \<Rightarrow> (length ls, length ls)
      | BeforeAnchor a \<Rightarrow> (a_line a - 1, a_line a - 1)
      | AfterAnchor a \<Rightarrow> (a_line a, a_line a))"

(* coding-agent/src/hashline/apply.ts:400-437 tryAbsorbPureInsertGroup *)
definition absorbed_leading :: "pure_insert_group \<Rightarrow> utext list \<Rightarrow> bool \<Rightarrow> nat \<Rightarrow> nat" where
  "absorbed_leading g ls generic upper =
     (let payload = pi_payload g;
          block = (if generic then largest_from (min (length payload) upper) (\<lambda>n. take n payload = take n (drop (upper - n) ls)) else 0);
          dup = 0 < upper \<and> file_line ls upper = hd payload \<and> upper \<le> length ls
      in if block \<noteq> 0 then block
         else if generic \<and> is_after (pi_cursor g) \<and> dup \<and> \<not> isStructuralClosingBoundaryLine (hd payload) then 1
         else if dup \<and> isStructuralClosingBoundaryLine (hd payload)
              \<and> shouldDropSingleStructuralBoundary payload (tl payload) ZERO_DELIMITER_BALANCE then 1
         else 0)"

(* coding-agent/src/hashline/apply.ts:439-480 tryAbsorbPureInsertGroup *)
definition absorbed_trailing :: "pure_insert_group \<Rightarrow> utext list \<Rightarrow> bool \<Rightarrow> nat \<Rightarrow> nat \<Rightarrow> nat" where
  "absorbed_trailing g ls generic lower lead =
     (let payload = pi_payload g; remaining = drop lead payload;
          block = (if generic then largest_from (min (length remaining) (length ls - lower))
                     (\<lambda>n. drop (length payload - n) payload = take n (drop lower ls)) else 0);
          dup = remaining \<noteq> [] \<and> lower < length ls \<and> last remaining = ls ! lower
      in if block \<noteq> 0 then block
         else if generic \<and> is_before (pi_cursor g) \<and> dup \<and> \<not> isStructuralClosingBoundaryLine (last remaining) then 1
         else if dup \<and> isStructuralClosingBoundaryLine (last remaining)
              \<and> shouldDropSingleStructuralBoundary remaining (butlast remaining) ZERO_DELIMITER_BALANCE then 1
         else 0)"

(* coding-agent/src/hashline/apply.ts:373-379 PureInsertAbsorbResult *)
record absorb_result =
  ab_keptPayload :: "utext list"
  ab_leading :: nat
  ab_trailing :: nat
  ab_leadingFileRange :: "(nat \<times> nat) option"
  ab_trailingFileRange :: "(nat \<times> nat) option"

(* coding-agent/src/hashline/apply.ts:389-493 tryAbsorbPureInsertGroup *)
definition tryAbsorbPureInsertGroup :: "pure_insert_group \<Rightarrow> utext list \<Rightarrow> bool \<Rightarrow> absorb_result" where
  "tryAbsorbPureInsertGroup g ls generic =
     (let payload = pi_payload g; (upper, lower) = pureInsertNeighborhood (pi_cursor g) ls;
          lead = (if payload = [] then 0 else absorbed_leading g ls generic upper);
          trail = (if payload = [] then 0 else absorbed_trailing g ls generic lower lead)
      in \<lparr>ab_keptPayload = drop lead (take (length payload - trail) payload), ab_leading = lead, ab_trailing = trail,
          ab_leadingFileRange = (if 0 < lead then Some (upper + 1 - lead, upper) else None),
          ab_trailingFileRange = (if 0 < trail then Some (lower + 1, lower + trail) else None)\<rparr>)"

section \<open>Absorption\<close>

datatype absorb_kind = PureInsertLeading | PureInsertTrailing | PrefixLines | SuffixLines

text \<open>A warning: what was absorbed, how many lines, of which operation, and the file lines.\<close>

type_synonym apply_warning = "absorb_kind \<times> nat \<times> nat \<times> nat \<times> nat"

record absorb_state =
  as_warnings :: "apply_warning list"
  as_keys :: "(absorb_kind \<times> nat \<times> nat) set"
  as_next :: nat

definition push_warning :: "absorb_kind \<Rightarrow> nat \<Rightarrow> nat \<Rightarrow> (nat \<times> nat) option \<Rightarrow> absorb_state \<Rightarrow> absorb_state" where
  "push_warning kind n source rng st =
     (case rng of
        None \<Rightarrow> st
      | Some (s, e) \<Rightarrow>
          if (kind, s, e) \<in> as_keys st then st
          else st\<lparr>as_keys := insert (kind, s, e) (as_keys st), as_warnings := as_warnings st @ [(kind, n, source, s, e)]\<rparr>)"

(* coding-agent/src/hashline/apply.ts:516-561 absorbReplacementBoundaryDuplicates *)
definition absorb_pure_insert :: "pure_insert_group \<Rightarrow> utext list \<Rightarrow> bool \<Rightarrow> absorb_state \<Rightarrow> edit list \<times> absorb_state" where
  "absorb_pure_insert g ls generic st =
     (let r = tryAbsorbPureInsertGroup g ls generic; n = pi_sourceLineNum g; kept = ab_keptPayload r
      in if ab_leading r > 0 \<or> ab_trailing r > 0
         then (map (\<lambda>(i, t). Insert (pi_cursor g) t n i) (List.enumerate (as_next st) kept),
               (push_warning PureInsertTrailing (ab_trailing r) n (ab_trailingFileRange r)
                  (push_warning PureInsertLeading (ab_leading r) n (ab_leadingFileRange r) st))\<lparr>as_next := as_next st + length kept\<rparr>)
         else (pi_edits g, st))"

definition nonzero :: "nat \<Rightarrow> nat \<Rightarrow> nat" where
  "nonzero a b = (if a \<noteq> 0 then a else b)"

definition deleted_balance :: "utext list \<Rightarrow> nat \<Rightarrow> nat \<Rightarrow> delimiter_balance" where
  "deleted_balance ls startLine n = computeDelimiterBalance (map (file_line ls) [startLine..<startLine + n])"

(* coding-agent/src/hashline/apply.ts:566-581 absorbReplacementBoundaryDuplicates *)
definition absorb_counts :: "replacement_group \<Rightarrow> utext list \<Rightarrow> nat set \<Rightarrow> nat \<times> nat" where
  "absorb_counts g ls targets =
     (let s = rg_startLine g; e = s + rg_count g - 1; bal = deleted_balance ls s (rg_count g);
          p = nonzero (countMatchingPrefixBlock ls s (rg_replacement g))
                (countMatchingSingleStructuralPrefixBoundary ls s (rg_replacement g) bal);
          q = nonzero (countMatchingSuffixBlock ls e (rg_replacement g))
                (countMatchingSingleStructuralSuffixBoundary ls e (rg_replacement g) bal)
      in (if hasExternalTargets (contiguousRange (s - p) p) targets then 0 else p,
          if hasExternalTargets (contiguousRange (e + 1) q) targets then 0 else q))"

definition absorbed_deletes :: "(utext \<Rightarrow> nat) \<Rightarrow> nat \<Rightarrow> utext list \<Rightarrow> nat \<Rightarrow> nat list \<Rightarrow> edit list" where
  "absorbed_deletes xx source ls k lines = map (\<lambda>(i, l). deleteEditForAutoAbsorbedLine xx l source i ls) (List.enumerate k lines)"

(* coding-agent/src/hashline/apply.ts:566-618 absorbReplacementBoundaryDuplicates *)
definition absorb_replacement ::
  "(utext \<Rightarrow> nat) \<Rightarrow> replacement_group \<Rightarrow> utext list \<Rightarrow> nat set \<Rightarrow> absorb_state \<Rightarrow> edit list \<times> absorb_state"
where
  "absorb_replacement xx g ls targets st =
     (let s = rg_startLine g; e = s + rg_count g - 1; n = rg_sourceLineNum g; (p, q) = absorb_counts g ls targets
      in (absorbed_deletes xx n ls (as_next st) (contiguousRange (s - p) p) @ rg_edits g
            @ absorbed_deletes xx n ls (as_next st + p) (contiguousRange (e + 1) q),
          (push_warning SuffixLines q n (if 0 < q then Some (e + 1, e + q) else None)
             (push_warning PrefixLines p n (if 0 < p then Some (s - p, s - 1) else None) st))\<lparr>as_next := as_next st + p + q\<rparr>))"

text \<open>One group of the loop: what is emitted, and the edits left.\<close>

(* coding-agent/src/hashline/apply.ts:511-564 absorbReplacementBoundaryDuplicates *)
definition absorb_one ::
  "(utext \<Rightarrow> nat) \<Rightarrow> utext list \<Rightarrow> bool \<Rightarrow> nat set \<Rightarrow> edit \<Rightarrow> edit list \<Rightarrow> absorb_state \<Rightarrow> edit list \<times> edit list \<times> absorb_state"
where
  "absorb_one xx ls generic targets e es st =
     (case findReplacementGroup (e # es) of
        Some g \<Rightarrow> (case absorb_replacement xx g ls targets st of (out, st') \<Rightarrow> (out, drop (length (rg_edits g) - 1) es, st'))
      | None \<Rightarrow> (case findPureInsertGroup (e # es) of
          Some g \<Rightarrow> (case absorb_pure_insert g ls generic st of (out, st') \<Rightarrow> (out, drop (length (pi_edits g) - 1) es, st'))
        | None \<Rightarrow> ([e], es, st)))"

lemma absorb_one_rest: "absorb_one xx ls generic targets e es st = (out, rest, st') \<Longrightarrow> length rest \<le> length es"
  by (auto simp: absorb_one_def split: option.splits prod.splits)

function absorb_loop ::
  "(utext \<Rightarrow> nat) \<Rightarrow> utext list \<Rightarrow> bool \<Rightarrow> nat set \<Rightarrow> edit list \<Rightarrow> absorb_state \<Rightarrow> edit list \<times> absorb_state"
where
  "absorb_loop xx ls generic targets [] st = ([], st)"
| "absorb_loop xx ls generic targets (e # es) st =
     (case absorb_one xx ls generic targets e es st of
        (out, rest, st1) \<Rightarrow> (case absorb_loop xx ls generic targets rest st1 of (out', st2) \<Rightarrow> (out @ out', st2)))"
  by pat_completeness auto
termination
  by (relation "measure (\<lambda>(xx, ls, generic, targets, es, st). length es)") (auto dest: absorb_one_rest [OF sym] simp: less_Suc_eq_le)

(* coding-agent/src/hashline/apply.ts:495-622 absorbReplacementBoundaryDuplicates *)
definition absorbReplacementBoundaryDuplicates :: "(utext \<Rightarrow> nat) \<Rightarrow> edit list \<Rightarrow> utext list \<Rightarrow> bool \<Rightarrow> edit list \<times> apply_warning list" where
  "absorbReplacementBoundaryDuplicates xx edits ls generic =
     (case absorb_loop xx ls generic (collectAnchorTargetLines edits) edits \<lparr>as_warnings = [], as_keys = {}, as_next = length edits\<rparr> of
        (out, st) \<Rightarrow> (out, as_warnings st))"

section \<open>Application\<close>

(* coding-agent/src/hashline/apply.ts:664-677 applyHashlineEdits *)
definition normalize_cursor :: "(utext \<Rightarrow> nat) \<Rightarrow> utext list \<Rightarrow> edit \<Rightarrow> edit" where
  "normalize_cursor xx ls e =
     (case e of
        Insert (AfterAnchor a) t n k \<Rightarrow>
          if length ls \<le> a_line a then Insert Eof t n k
          else Insert (BeforeAnchor \<lparr>a_line = a_line a + 1, a_hash = computeLineHash xx (file_line ls (a_line a + 1))\<rparr>) t n k
      | _ \<Rightarrow> e)"

(* coding-agent/src/hashline/apply.ts:680-691 applyHashlineEdits *)
definition cursor_texts :: "cursor \<Rightarrow> edit list \<Rightarrow> utext list" where
  "cursor_texts c es = List.map_filter (\<lambda>e. case e of Insert c' t _ _ \<Rightarrow> if c' = c then Some t else None | _ \<Rightarrow> None) es"

definition anchor_edits :: "edit list \<Rightarrow> edit list" where
  "anchor_edits es = filter (\<lambda>e. case e of Insert Bof _ _ _ \<Rightarrow> False | Insert Eof _ _ _ \<Rightarrow> False | _ \<Rightarrow> True) es"

definition bucket_line :: "edit \<Rightarrow> nat" where
  "bucket_line e = (case e of Delete a _ _ \<Rightarrow> a_line a | Insert (BeforeAnchor a) _ _ _ \<Rightarrow> a_line a | _ \<Rightarrow> 0)"

text \<open>A bucket holds the edits of one line in their order.\<close>

(* coding-agent/src/hashline/apply.ts:624-638 bucketAnchorEditsByLine *)
definition bucket :: "edit list \<Rightarrow> nat \<Rightarrow> edit list" where
  "bucket es line = filter (\<lambda>e. bucket_line e = line) es"

definition insert_texts :: "edit list \<Rightarrow> utext list" where
  "insert_texts es = List.map_filter (\<lambda>e. case e of Insert _ t _ _ \<Rightarrow> Some t | _ \<Rightarrow> None) es"

(* coding-agent/src/hashline/apply.ts:695-723 applyHashlineEdits *)
definition apply_bucket :: "edit list \<Rightarrow> nat \<Rightarrow> utext list \<Rightarrow> utext list" where
  "apply_bucket es line ls =
     (let before = insert_texts (bucket es line); del = list_ex is_delete (bucket es line)
      in if before = [] \<and> \<not> del then ls
         else take (line - 1) ls @ (if del then before else before @ [file_line ls line]) @ drop line ls)"

(* coding-agent/src/hashline/apply.ts:68-78 insertAtStart *)
definition insertAtStart :: "utext list \<Rightarrow> utext list \<Rightarrow> utext list" where
  "insertAtStart ls new = (if new = [] then ls else if ls = [[]] then new else new @ ls)"

(* coding-agent/src/hashline/apply.ts:80-93 insertAtEnd *)
definition insertAtEnd :: "utext list \<Rightarrow> utext list \<Rightarrow> utext list \<times> nat option" where
  "insertAtEnd ls new =
     (if new = [] then (ls, None)
      else if ls = [[]] then (new, Some 1)
      else let i = (if ls \<noteq> [] \<and> last ls = [] then length ls - 1 else length ls) in (take i ls @ new @ drop i ls, Some (i + 1)))"

(* coding-agent/src/hashline/apply.ts:7-12 HashlineApplyResult *)
record apply_result =
  ar_lines :: utext
  ar_firstChangedLine :: "nat option"
  ar_warnings :: "apply_warning list"

definition min_opt :: "nat option \<Rightarrow> nat \<Rightarrow> nat option" where
  "min_opt a n = (case a of None \<Rightarrow> Some n | Some m \<Rightarrow> if n < m then Some n else Some m)"

(* coding-agent/src/hashline/apply.ts:679-731 applyHashlineEdits *)
definition apply_normalized :: "edit list \<Rightarrow> utext list \<Rightarrow> utext list \<times> nat option" where
  "apply_normalized es ls =
     (let as = anchor_edits es; keys = rev (sort (remdups (map bucket_line as)));
          ls1 = fold (apply_bucket as) keys ls; first1 = foldl min_opt None keys;
          bof = cursor_texts Bof es; ls2 = insertAtStart ls1 bof; first2 = (if bof = [] then first1 else min_opt first1 1);
          (ls3, changed) = insertAtEnd ls2 (cursor_texts Eof es)
      in (ls3, case changed of None \<Rightarrow> first2 | Some n \<Rightarrow> min_opt first2 n))"

(* coding-agent/src/hashline/apply.ts:640-737 applyHashlineEdits *)
definition applyHashlineEdits :: "(utext \<Rightarrow> nat) \<Rightarrow> utext \<Rightarrow> edit list \<Rightarrow> bool \<Rightarrow> apply_error + apply_result" where
  "applyHashlineEdits xx text edits generic =
     (if edits = [] then Inr \<lparr>ar_lines = text, ar_firstChangedLine = None, ar_warnings = []\<rparr>
      else let ls = split_at LF text
           in (case validateHashlineAnchors xx edits ls of
                 Inl e \<Rightarrow> Inl e
               | Inr (m # ms) \<Rightarrow> Inl (HashlineMismatch (m # ms))
               | Inr [] \<Rightarrow>
                   (case absorbReplacementBoundaryDuplicates xx edits ls generic of
                      (absorbed, warnings) \<Rightarrow>
                        (case apply_normalized (map (normalize_cursor xx ls) absorbed) ls of
                           (ls', first) \<Rightarrow> Inr \<lparr>ar_lines = join [LF] ls', ar_firstChangedLine = first, ar_warnings = warnings\<rparr>))))"

section \<open>Bottom-up splicing is simultaneous weaving\<close>

text \<open>What stands for line \<open>i\<close> after the edits: the inserted texts, then the line itself unless it is deleted.\<close>

definition slot :: "edit list \<Rightarrow> utext list \<Rightarrow> nat \<Rightarrow> utext list" where
  "slot es ls i = insert_texts (bucket es i) @ (if list_ex is_delete (bucket es i) then [] else [file_line ls i])"

definition weave :: "edit list \<Rightarrow> utext list \<Rightarrow> utext list" where
  "weave es ls = concat (map (slot es ls) [1..<Suc (length ls)])"

definition in_range :: "utext list \<Rightarrow> edit \<Rightarrow> bool" where
  "in_range ls e \<longleftrightarrow> 1 \<le> bucket_line e \<and> bucket_line e \<le> length ls"

lemma sort_remdups_filter:
  assumes "set xs \<subseteq> {1..n}"
  shows "sort (remdups xs) = filter (\<lambda>i. i \<in> set xs) [1..<Suc n]"
proof (rule sorted_distinct_set_unique)
  show "sorted (filter (\<lambda>i. i \<in> set xs) [1..<Suc n])" by (intro sorted_wrt_filter) (simp del: upt_Suc)
qed (use assms in \<open>auto simp del: upt_Suc\<close>)

lemma fold_filter_id: "(\<And>x s. \<not> P x \<Longrightarrow> f x s = s) \<Longrightarrow> fold f (filter P xs) s = fold f xs s"
  by (induction xs arbitrary: s) auto

definition partly_woven :: "edit list \<Rightarrow> utext list \<Rightarrow> nat \<Rightarrow> utext list" where
  "partly_woven es ls k = take k ls @ concat (map (slot es ls) [Suc k..<Suc (length ls)])"

lemma bucket_keys: "bucket es line \<noteq> [] \<longleftrightarrow> line \<in> set (map bucket_line es)"
  by (induction es) (auto simp: bucket_def)

lemma apply_bucket_empty: "line \<notin> set (map bucket_line es) \<Longrightarrow> apply_bucket es line ls = ls"
  using bucket_keys [of es line] by (auto simp: apply_bucket_def insert_texts_def Let_def List.map_filter_def)

lemma slot_plain:
  assumes "insert_texts (bucket es k) = []" "\<not> list_ex is_delete (bucket es k)" "1 \<le> k" "k \<le> length ls"
  shows "slot es ls k = [ls ! (k - 1)]"
  using assms by (simp add: slot_def file_line_def)

lemma apply_bucket_step:
  assumes "1 \<le> k" "k \<le> length ls"
  shows "apply_bucket es k (partly_woven es ls k) = partly_woven es ls (k - 1)"
proof -
  have t: "take k ls = take (k - 1) ls @ [ls ! (k - 1)]"
    using assms take_Suc_conv_app_nth [of "k - 1" ls] by simp
  have u: "[k..<Suc (length ls)] = k # [Suc k..<Suc (length ls)]" using assms upt_conv_Cons [of k "Suc (length ls)"] by simp
  have f: "file_line (partly_woven es ls k) k = file_line ls k" "take (k - 1) (partly_woven es ls k) = take (k - 1) ls"
    "drop k (partly_woven es ls k) = concat (map (slot es ls) [Suc k..<Suc (length ls)])"
    using assms by (simp_all add: partly_woven_def file_line_def nth_append del: upt_Suc)
  show ?thesis
  proof (cases "insert_texts (bucket es k) = [] \<and> \<not> list_ex is_delete (bucket es k)")
    case True
    then show ?thesis using assms slot_plain [of es k ls]
      by (simp add: apply_bucket_def Let_def partly_woven_def u t del: upt_Suc)
  next
    case False
    then show ?thesis using assms
      by (auto simp: apply_bucket_def Let_def f simp del: upt_Suc) (simp_all add: partly_woven_def u slot_def del: upt_Suc)
  qed
qed

lemma fold_apply_buckets: "n \<le> length ls \<Longrightarrow> fold (apply_bucket es) (rev [1..<Suc n]) (partly_woven es ls n) = partly_woven es ls 0"
proof (induction n)
  case (Suc n)
  then show ?case using apply_bucket_step [of "Suc n" ls es] by simp
qed simp

lemma apply_buckets_weave:
  assumes "list_all (in_range ls) es"
  shows "fold (apply_bucket es) (rev (sort (remdups (map bucket_line es)))) ls = weave es ls"
proof -
  have "sort (remdups (map bucket_line es)) = filter (\<lambda>i. i \<in> set (map bucket_line es)) [1..<Suc (length ls)]"
    using assms by (intro sort_remdups_filter) (auto simp: list_all_iff in_range_def)
  then have "fold (apply_bucket es) (rev (sort (remdups (map bucket_line es)))) ls = fold (apply_bucket es) (rev [1..<Suc (length ls)]) ls"
    using fold_filter_id [of "\<lambda>i. i \<in> set (map bucket_line es)" "apply_bucket es" "rev [1..<Suc (length ls)]" ls] apply_bucket_empty
    by (simp add: rev_filter del: upt_Suc set_map)
  also have "\<dots> = partly_woven es ls 0"
    using fold_apply_buckets [of "length ls" ls es] by (simp add: partly_woven_def)
  finally show ?thesis by (simp add: partly_woven_def weave_def)
qed

section \<open>Absorption stays in the file\<close>

lemma largest_from_le: "largest_from n P \<le> n"
  by (induction n P rule: largest_from.induct) (subst largest_from.simps, auto)

lemma largest_from_holds: "largest_from n P \<noteq> 0 \<Longrightarrow> P (largest_from n P)"
  by (induction n P rule: largest_from.induct) (subst largest_from.simps, subst (asm) largest_from.simps, auto split: if_splits)

text \<open>The counted lines are copies of the leading and trailing lines of the replacement.\<close>

lemma prefix_count:
  assumes "p = nonzero (countMatchingPrefixBlock ls s r) (countMatchingSingleStructuralPrefixBoundary ls s r b)" "s \<le> Suc (length ls)"
  shows "p \<le> length r" "p \<le> s - 1" "take p (drop (s - 1 - p) ls) = take p r"
proof -
  have "p \<le> length r \<and> p \<le> s - 1 \<and> take p (drop (s - 1 - p) ls) = take p r"
  proof (cases "countMatchingPrefixBlock ls s r = 0")
    case False
    then show ?thesis using assms(1) largest_from_le [of "min (length r) (s - 1)"] largest_from_holds
      unfolding countMatchingPrefixBlock_def nonzero_def by (smt (verit) diff_commute min.bounded_iff)
  next
    case True
    then have p: "p = countMatchingSingleStructuralPrefixBoundary ls s r b" using assms(1) by (simp add: nonzero_def)
    show ?thesis
    proof (cases "p = 0")
      case False
      then have "p = 1" "r \<noteq> []" "1 < s" "file_line ls (s - 1) = hd r"
        using p by (auto simp: countMatchingSingleStructuralPrefixBoundary_def split: if_splits)
      then show ?thesis using assms(2)
        by (cases r) (auto simp: file_line_def take_Suc_conv_app_nth Suc_le_eq hd_drop_conv_nth take_Suc)
    qed simp
  qed
  then show "p \<le> length r" "p \<le> s - 1" "take p (drop (s - 1 - p) ls) = take p r" by blast+
qed

lemma suffix_count:
  assumes "q = nonzero (countMatchingSuffixBlock ls e r) (countMatchingSingleStructuralSuffixBoundary ls e r b)"
  shows "q \<le> length r" "q \<le> length ls - e" "take q (drop e ls) = drop (length r - q) r"
proof -
  have "q \<le> length r \<and> q \<le> length ls - e \<and> take q (drop e ls) = drop (length r - q) r"
  proof (cases "countMatchingSuffixBlock ls e r = 0")
    case False
    then show ?thesis using assms(1) largest_from_le [of "min (length r) (length ls - e)"] largest_from_holds
      unfolding countMatchingSuffixBlock_def nonzero_def by (smt (verit) min.bounded_iff)
  next
    case True
    then have q: "q = countMatchingSingleStructuralSuffixBoundary ls e r b" using assms(1) by (simp add: nonzero_def)
    show ?thesis
    proof (cases "q = 0")
      case False
      then have "q = 1" "r \<noteq> []" "e < length ls" "ls ! e = last r"
        using q by (auto simp: countMatchingSingleStructuralSuffixBoundary_def file_line_def split: if_splits)
      then show ?thesis by (cases r rule: rev_cases) (auto simp: take_Suc hd_drop_conv_nth Suc_le_eq)
    qed simp
  qed
  then show "q \<le> length r" "q \<le> length ls - e" "take q (drop e ls) = drop (length r - q) r" by blast+
qed

text \<open>An edit whose anchors name lines of the file.\<close>

definition anchored :: "utext list \<Rightarrow> edit \<Rightarrow> bool" where
  "anchored ls e \<longleftrightarrow> list_all (\<lambda>a. 1 \<le> a_line a \<and> a_line a \<le> length ls) (getHashlineEditAnchors e)"

lemma anchored_simps [simp]:
  "anchored ls (Delete a n k) \<longleftrightarrow> 1 \<le> a_line a \<and> a_line a \<le> length ls"
  "anchored ls (Insert Bof t n k)" "anchored ls (Insert Eof t n k)"
  "anchored ls (Insert (BeforeAnchor a) t n k) \<longleftrightarrow> 1 \<le> a_line a \<and> a_line a \<le> length ls"
  "anchored ls (Insert (AfterAnchor a) t n k) \<longleftrightarrow> 1 \<le> a_line a \<and> a_line a \<le> length ls"
  by (simp_all add: anchored_def getHashlineEditAnchors_def)

lemma replacement_group:
  assumes "findReplacementGroup es = Some g"
  obtains ins dels rest where "es = ins @ dels @ rest" "rg_edits g = ins @ dels" "rg_replacement g = map e_text ins" "dels \<noteq> []"
    "list_all is_delete dels" "map (\<lambda>d. a_line (e_anchor d)) dels = [rg_startLine g..<rg_startLine g + rg_count g]" "rg_count g = length dels"
proof -
  obtain a t n k es' where e: "es = Insert (BeforeAnchor a) t n k # es'"
    using assms by (auto simp: findReplacementGroup_def split: list.splits edit.splits cursor.splits)
  define ins where "ins = takeWhile (inserts_before n) es"
  define dels where "dels = takeWhile (deletes_at n) (dropWhile (inserts_before n) es)"
  define rest where "rest = dropWhile (deletes_at n) (dropWhile (inserts_before n) es)"
  have g: "dels \<noteq> []" "map (\<lambda>d. a_line (e_anchor d)) dels = [a_line (e_anchor (hd dels))..<a_line (e_anchor (hd dels)) + length dels]"
    "g = \<lparr>rg_sourceLineNum = n, rg_edits = ins @ dels, rg_replacement = map e_text ins, rg_startLine = a_line (e_anchor (hd dels)), rg_count = length dels\<rparr>"
    using assms unfolding findReplacementGroup_def e ins_def dels_def by (auto simp: Let_def split: if_splits)
  have "es = ins @ dels @ rest" by (simp add: ins_def dels_def rest_def)
  moreover have "list_all is_delete dels"
    by (auto simp: dels_def list_all_iff deletes_at_def dest: set_takeWhileD)
  ultimately show thesis using g that [of ins dels rest] by simp
qed

lemma anchored_group:
  assumes "findReplacementGroup es = Some g" "list_all (anchored ls) es"
  shows "1 \<le> rg_startLine g" "rg_startLine g + rg_count g \<le> Suc (length ls)" "1 \<le> rg_count g" "list_all (anchored ls) (rg_edits g)"
proof -
  obtain ins dels rest where d: "es = ins @ dels @ rest" "rg_edits g = ins @ dels" "dels \<noteq> []" "list_all is_delete dels"
    "map (\<lambda>d. a_line (e_anchor d)) dels = [rg_startLine g..<rg_startLine g + rg_count g]" "rg_count g = length dels"
    using replacement_group [OF assms(1)] by metis
  have "1 \<le> a_line (e_anchor x) \<and> a_line (e_anchor x) \<le> length ls" if x: "x \<in> set dels" for x
  proof -
    have "anchored ls x" "is_delete x" using x assms(2) d(1,4) by (auto simp: list_all_iff)
    then show ?thesis by (cases x) auto
  qed
  then have "\<forall>l \<in> set (map (\<lambda>d. a_line (e_anchor d)) dels). 1 \<le> l \<and> l \<le> length ls" by simp
  then have r: "\<forall>l \<in> {rg_startLine g..<rg_startLine g + rg_count g}. 1 \<le> l \<and> l \<le> length ls" unfolding d(5) by simp
  show c: "1 \<le> rg_count g" using d(3,6) by (cases dels) auto
  show "1 \<le> rg_startLine g" using r c by (auto dest: bspec [of _ _ "rg_startLine g"])
  show "rg_startLine g + rg_count g \<le> Suc (length ls)" using r c by (auto dest: bspec [of _ _ "rg_startLine g + rg_count g - 1"])
  show "list_all (anchored ls) (rg_edits g)" using assms(2) d(1,2) by simp
qed

lemma absorb_counts_facts:
  assumes "absorb_counts g ls targets = (p, q)" "1 \<le> rg_startLine g" "rg_startLine g + rg_count g \<le> Suc (length ls)" "1 \<le> rg_count g"
  defines "s \<equiv> rg_startLine g" and "e \<equiv> rg_startLine g + rg_count g - 1" and "r \<equiv> rg_replacement g"
  shows "p \<le> length r" "p \<le> s - 1" "take p (drop (s - 1 - p) ls) = take p r"
    "q \<le> length r" "q \<le> length ls - e" "take q (drop e ls) = drop (length r - q) r"
    "\<forall>l \<in> {s - p..<s} \<union> {e + 1..<e + 1 + q}. l \<notin> targets"
proof -
  define b where "b = deleted_balance ls s (rg_count g)"
  define p' where "p' = nonzero (countMatchingPrefixBlock ls s r) (countMatchingSingleStructuralPrefixBoundary ls s r b)"
  define q' where "q' = nonzero (countMatchingSuffixBlock ls e r) (countMatchingSingleStructuralSuffixBoundary ls e r b)"
  have pq: "p = (if hasExternalTargets (contiguousRange (s - p') p') targets then 0 else p')"
    "q = (if hasExternalTargets (contiguousRange (e + 1) q') targets then 0 else q')"
    using assms(1) unfolding absorb_counts_def by (auto simp: Let_def s_def e_def r_def b_def p'_def q'_def)
  note P = prefix_count [OF p'_def] and Q = suffix_count [OF q'_def]
  have s: "s \<le> Suc (length ls)" using assms(3) by (simp add: s_def)
  show "p \<le> length r" "p \<le> s - 1" "take p (drop (s - 1 - p) ls) = take p r" using pq(1) P [OF s] by auto
  show "q \<le> length r" "q \<le> length ls - e" "take q (drop e ls) = drop (length r - q) r" using pq(2) Q by auto
  show "\<forall>l \<in> {s - p..<s} \<union> {e + 1..<e + 1 + q}. l \<notin> targets"
    using pq P(2) [OF s] by (auto simp: hasExternalTargets_def contiguousRange_def list_ex_iff split: if_splits)
qed

lemma anchored_absorbed_deletes:
  "list_all (\<lambda>l. 1 \<le> l \<and> l \<le> length ls) lines \<Longrightarrow> list_all (anchored ls) (absorbed_deletes xx n ls k lines)"
  by (auto simp: absorbed_deletes_def deleteEditForAutoAbsorbedLine_def list_all_iff in_set_enumerate_eq)

lemma anchored_replacement:
  assumes "findReplacementGroup es = Some g" "list_all (anchored ls) es" "absorb_replacement xx g ls targets st = (out, st')"
  shows "list_all (anchored ls) out"
proof -
  obtain p q where c: "absorb_counts g ls targets = (p, q)" by fastforce
  note g = anchored_group [OF assms(1,2)] and f = absorb_counts_facts [OF c anchored_group(1-3) [OF assms(1,2)]]
  have "list_all (\<lambda>l. 1 \<le> l \<and> l \<le> length ls) (contiguousRange (rg_startLine g - p) p)"
    "list_all (\<lambda>l. 1 \<le> l \<and> l \<le> length ls) (contiguousRange (rg_startLine g + rg_count g - 1 + 1) q)"
    using f(2,5) g(1-3) by (auto simp: contiguousRange_def list_all_iff)
  note d = this [THEN anchored_absorbed_deletes]
  show ?thesis using assms(3) g(4) d [simplified] by (auto simp: absorb_replacement_def c Let_def)
qed

lemma anchored_pure_insert:
  assumes "findPureInsertGroup es = Some g" "list_all (anchored ls) es" "absorb_pure_insert g ls generic st = (out, st')"
  shows "list_all (anchored ls) out"
proof -
  obtain c t n k es' where e: "es = Insert c t n k # es'"
    using assms(1) by (auto simp: findPureInsertGroup_def split: list.splits edit.splits)
  have g: "pi_cursor g = c" "pi_edits g = takeWhile (same_insert c n) es"
    using assms(1) unfolding findPureInsertGroup_def e by (auto simp: Let_def split: if_splits)
  have a: "anchored ls (Insert c t' n' k') \<longleftrightarrow> anchored ls (Insert c t n k)" for t' n' k' by (cases c) simp_all
  have "list_all (anchored ls) (pi_edits g)" using assms(2) g(2) by (auto simp: list_all_iff dest: set_takeWhileD)
  then show ?thesis using assms(2,3) e g(1) a
    by (auto simp: absorb_pure_insert_def Let_def list_all_iff split: if_splits)
qed

lemma anchored_absorbed:
  "list_all (anchored ls) es \<Longrightarrow> list_all (anchored ls) (fst (absorb_loop xx ls generic targets es st))"
proof (induction xx ls generic targets es st rule: absorb_loop.induct)
  case (2 xx ls generic targets e es st)
  obtain out rest st1 where o: "absorb_one xx ls generic targets e es st = (out, rest, st1)" by (metis prod_cases3)
  have "list_all (anchored ls) out \<and> list_all (anchored ls) rest"
    using o 2(2) anchored_replacement [of "e # es" _ ls xx targets st] anchored_pure_insert [of "e # es" _ ls generic st]
    by (auto simp: absorb_one_def list_all_iff split: option.splits prod.splits dest: in_set_dropD)
  then show ?case using 2(1) [OF o [symmetric]] o by (auto split: prod.splits)
qed simp

section \<open>Correctness of application\<close>

lemma normalized_in_range: "list_all (anchored ls) es \<Longrightarrow> list_all (in_range ls) (anchor_edits (map (normalize_cursor xx ls) es))"
  by (auto simp: anchor_edits_def list_all_iff normalize_cursor_def in_range_def bucket_line_def split: edit.splits cursor.splits if_splits
      dest!: bspec)

lemma validate_anchors_ok:
  "validate_anchors xx ls as = Inr [] \<longleftrightarrow> list_all (\<lambda>a. 1 \<le> a_line a \<and> a_line a \<le> length ls
     \<and> a_hash a \<in> {RANGE_INTERIOR_HASH, computeLineHash xx (ls ! (a_line a - 1))}) as"
proof (induction as)
  case (Cons a as)
  then show ?case by (cases "validate_anchors xx ls as") (auto simp: file_line_def)
qed simp

lemma apply_edits_ok:
  assumes "edits \<noteq> []"
  shows "(\<exists>r. applyHashlineEdits xx text edits generic = Inr r) \<longleftrightarrow> validateHashlineAnchors xx edits (split_at LF text) = Inr []"
proof -
  obtain a b where "absorbReplacementBoundaryDuplicates xx edits (split_at LF text) generic = (a, b)" by fastforce
  moreover obtain c d where "apply_normalized (map (normalize_cursor xx (split_at LF text)) a) (split_at LF text) = (c, d)" by fastforce
  ultimately show ?thesis using assms by (auto simp: applyHashlineEdits_def Let_def split: sum.splits list.splits)
qed

lemma validated_anchored:
  "validateHashlineAnchors xx edits ls = Inr [] \<Longrightarrow> list_all (anchored ls) edits"
  unfolding validateHashlineAnchors_def validate_anchors_ok by (auto simp: list_all_iff anchored_def)

definition woven_lines :: "edit list \<Rightarrow> utext list \<Rightarrow> utext list" where
  "woven_lines es ls = fst (insertAtEnd (insertAtStart (weave (anchor_edits es) ls) (cursor_texts Bof es)) (cursor_texts Eof es))"

lemma apply_normalized_weave:
  "list_all (in_range ls) (anchor_edits es) \<Longrightarrow> fst (apply_normalized es ls) = woven_lines es ls"
  by (simp add: apply_normalized_def woven_lines_def apply_buckets_weave Let_def split: prod.splits)

lemma applied_lines:
  assumes "applyHashlineEdits xx text edits generic = Inr r" "edits \<noteq> []"
  defines "ls \<equiv> split_at LF text"
  shows "ar_lines r = join [LF] (woven_lines (map (normalize_cursor xx ls) (fst (absorbReplacementBoundaryDuplicates xx edits ls generic))) ls)"
proof -
  have v: "validateHashlineAnchors xx edits ls = Inr []" using assms(1,2) apply_edits_ok ls_def by blast
  obtain a b where ab: "absorbReplacementBoundaryDuplicates xx edits ls generic = (a, b)" by fastforce
  then have "list_all (anchored ls) a"
    using anchored_absorbed [OF validated_anchored [OF v]] by (auto simp: absorbReplacementBoundaryDuplicates_def split: prod.splits) (metis fst_conv)
  then show ?thesis using assms(1,2) v ab apply_normalized_weave [OF normalized_in_range, of ls a xx]
    by (auto simp: applyHashlineEdits_def ls_def [symmetric] Let_def split: prod.splits)
qed

text \<open>C8. Applying edits bottom up, one splice per line, is the same as weaving all of them at once into the original file: every
  line of the file, in order, gives the texts inserted before it and then itself unless it is deleted, each
  under its original number; then come the texts for the start and the end of the file.\<close>

theorem hashline_apply_weaves:
  assumes "applyHashlineEdits xx text edits generic = Inr r" "edits \<noteq> []"
  shows "let ls = split_at LF text;
             es = map (normalize_cursor xx ls) (fst (absorbReplacementBoundaryDuplicates xx edits ls generic));
             middle = concat (map (\<lambda>i. insert_texts (bucket (anchor_edits es) i)
                        @ (if list_ex is_delete (bucket (anchor_edits es) i) then [] else [ls ! (i - 1)])) [1..<Suc (length ls)])
         in ar_lines r = join [LF] (fst (insertAtEnd (insertAtStart middle (cursor_texts Bof es)) (cursor_texts Eof es)))"
proof -
  have "weave es ls = concat (map (\<lambda>i. insert_texts (bucket es i) @ (if list_ex is_delete (bucket es i) then [] else [ls ! (i - 1)]))
      [1..<Suc (length ls)])" for es ls
    unfolding weave_def slot_def by (intro arg_cong [where f = concat] map_cong) (auto simp: file_line_def)
  then show ?thesis using applied_lines [OF assms] by (simp add: woven_lines_def Let_def del: upt_Suc)
qed

text \<open>C9. Edits are applied all or not at all: an application succeeds exactly when every anchor names a line of the file and carries the hash
  of what stands there now, or is an inner line of a range.\<close>

theorem hashline_apply_guarded:
  "isl (applyHashlineEdits xx text edits generic) \<longleftrightarrow>
     \<not> list_all (\<lambda>e. list_all (\<lambda>a. 1 \<le> a_line a \<and> a_line a \<le> length (split_at LF text)
          \<and> a_hash a \<in> {RANGE_INTERIOR_HASH, computeLineHash xx (split_at LF text ! (a_line a - 1))}) (getHashlineEditAnchors e)) edits"
proof (cases "edits = []")
  case True
  then show ?thesis by (simp add: applyHashlineEdits_def)
next
  case False
  have "isl (applyHashlineEdits xx text edits generic) \<longleftrightarrow> validateHashlineAnchors xx edits (split_at LF text) \<noteq> Inr []"
    using apply_edits_ok [OF False, of xx "text" generic] by (cases "applyHashlineEdits xx text edits generic") auto
  then show ?thesis unfolding validateHashlineAnchors_def validate_anchors_ok by (simp add: list_all_iff)
qed

section \<open>A replacement keeps its context\<close>

lemma bucket_append [simp]: "bucket (xs @ ys) i = bucket xs i @ bucket ys i" "bucket [] i = []"
  by (simp_all add: bucket_def)

lemma insert_texts_append [simp]: "insert_texts (xs @ ys) = insert_texts xs @ insert_texts ys" "insert_texts [] = []"
  by (simp_all add: insert_texts_def List.map_filter_def)

lemma absorbed_deletes_bucket:
  "insert_texts (bucket (absorbed_deletes xx n ls k lines) i) = []"
  "list_ex is_delete (bucket (absorbed_deletes xx n ls k lines) i) \<longleftrightarrow> i \<in> set lines"
  by (induction lines arbitrary: k)
     (auto simp: absorbed_deletes_def deleteEditForAutoAbsorbedLine_def bucket_def bucket_line_def insert_texts_def List.map_filter_def)

lemma insert_all_bucket:
  "insert_texts (bucket (insert_all (BeforeAnchor a) n k ts) i) = (if i = a_line a then ts else [])"
  "\<not> list_ex is_delete (bucket (insert_all (BeforeAnchor a) n k ts) i)"
  by (induction ts arbitrary: k) (auto simp: insert_all_def bucket_def bucket_line_def insert_texts_def List.map_filter_def)

lemma delete_all_bucket:
  "insert_texts (bucket (delete_all n k as) i) = []" "list_ex is_delete (bucket (delete_all n k as) i) \<longleftrightarrow> i \<in> a_line ` set as"
  by (induction as arbitrary: k) (auto simp: delete_all_def bucket_def bucket_line_def insert_texts_def List.map_filter_def)

lemmas bucket_simps = absorbed_deletes_bucket insert_all_bucket delete_all_bucket

lemma plain_run:
  assumes "\<And>i. a \<le> i \<Longrightarrow> i < b \<Longrightarrow> slot es ls i = [ls ! (i - 1)]" "1 \<le> a" "b \<le> Suc (length ls)"
  shows "concat (map (slot es ls) [a..<b]) = take (b - a) (drop (a - 1) ls)"
  using assms(1,3)
proof (induction "b - a" arbitrary: b)
  case (Suc m)
  then obtain c where c: "b = Suc c" "a \<le> c" by (cases b) auto
  have "concat (map (slot es ls) [a..<c]) = take (c - a) (drop (a - 1) ls)" using Suc c by (intro Suc.hyps(1)) auto
  moreover have "take (Suc c - a) (drop (a - 1) ls) = take (c - a) (drop (a - 1) ls) @ [ls ! (c - 1)]"
    using c Suc.prems assms(2) take_Suc_conv_app_nth [of "c - a" "drop (a - 1) ls"] by (simp add: Suc_diff_le)
  ultimately show ?case using c Suc.prems(1) [of c] by simp
qed simp

lemma empty_run: "(\<And>i. a \<le> i \<Longrightarrow> i < b \<Longrightarrow> slot es ls i = []) \<Longrightarrow> concat (map (slot es ls) [a..<b]) = []"
  by auto

lemma upt_split: "i \<le> j \<Longrightarrow> j \<le> k \<Longrightarrow> [i..<k] = [i..<j] @ [j..<k]"
  by (metis le_iff_add upt_add_eq_append)

lemma weave_replacement:
  assumes "\<And>i. insert_texts (bucket es i) = (if i = s then payload else [])" "\<And>i. list_ex is_delete (bucket es i) \<longleftrightarrow> lo \<le> i \<and> i < hi"
    "1 \<le> lo" "lo \<le> s" "s < hi" "hi \<le> Suc (length ls)"
  shows "weave es ls = take (lo - 1) ls @ payload @ drop (hi - 1) ls"
proof -
  have u: "[1..<Suc (length ls)] = [1..<lo] @ [lo..<s] @ [s] @ [Suc s..<hi] @ [hi..<Suc (length ls)]"
    using assms(3-6) upt_split [of 1 lo "Suc (length ls)"] upt_split [of lo s "Suc (length ls)"]
      upt_split [of "Suc s" hi "Suc (length ls)"] upt_conv_Cons [of s "Suc (length ls)"] by simp
  have slots: "slot es ls i = (if i = s then payload else if lo \<le> i \<and> i < hi then [] else [file_line ls i])" for i
    using assms(1,2,4,5) by (auto simp: slot_def)
  have "concat (map (slot es ls) [1..<lo]) = take (lo - 1) (drop (1 - 1) ls)"
    using assms by (intro plain_run) (auto simp: slots file_line_def)
  moreover have "concat (map (slot es ls) [hi..<Suc (length ls)]) = take (Suc (length ls) - hi) (drop (hi - 1) ls)"
    using assms by (intro plain_run) (auto simp: slots file_line_def)
  moreover have "concat (map (slot es ls) [lo..<s]) = []" "concat (map (slot es ls) [Suc s..<hi]) = []" "slot es ls s = payload"
    using assms(4,5) by (auto simp: slots)
  ultimately show ?thesis using assms(6) unfolding weave_def u by (simp del: upt_Suc concat_eq_Nil_conv)
qed

text \<open>The edits of one replace operation with a payload.\<close>

definition replace_op_edits :: "nat \<Rightarrow> nat \<Rightarrow> parsed_range \<Rightarrow> utext list \<Rightarrow> edit list" where
  "replace_op_edits n k rg payload = insert_all (BeforeAnchor (pr_start rg)) n k payload @ delete_all n (k + length payload) (expandRange rg)"

lemma takeWhile_inserts:
  "takeWhile (inserts_before n) (insert_all (BeforeAnchor a) n k ts @ es) = insert_all (BeforeAnchor a) n k ts @ takeWhile (inserts_before n) es"
  "dropWhile (inserts_before n) (insert_all (BeforeAnchor a) n k ts @ es) = dropWhile (inserts_before n) es"
  by (induction ts arbitrary: k) (auto simp: insert_all_def inserts_before_def)

lemma delete_all_Cons: "as \<noteq> [] \<Longrightarrow> delete_all n k as = Delete (hd as) n k # delete_all n (Suc k) (tl as)"
  by (cases as) (simp_all add: delete_all_def)

lemma takeWhile_deletes: "takeWhile (deletes_at n) (delete_all n k as) = delete_all n k as"
  by (induction as arbitrary: k) (simp_all add: delete_all_def deletes_at_def)

lemma delete_all_lines: "map (\<lambda>d. a_line (e_anchor d)) (delete_all n k as) = map a_line as" "length (delete_all n k as) = length as"
  by (induction as arbitrary: k) (simp_all add: delete_all_def)

lemma expandRange_lines:
  "map a_line (expandRange rg) = [a_line (pr_start rg)..<Suc (a_line (pr_end rg))]"
  by (simp add: expandRange_def o_def del: upt_Suc)

lemma findReplacementGroup_Insert:
  assumes "es = Insert (BeforeAnchor a) t n k # es'" "dels = takeWhile (deletes_at n) (dropWhile (inserts_before n) es)" "dels \<noteq> []"
    "map (\<lambda>d. a_line (e_anchor d)) dels = [a_line a..<a_line a + length dels]"
  shows "findReplacementGroup es = Some \<lparr>rg_sourceLineNum = n, rg_edits = takeWhile (inserts_before n) es @ dels,
    rg_replacement = map e_text (takeWhile (inserts_before n) es), rg_startLine = a_line a, rg_count = length dels\<rparr>"
proof -
  have "hd (map (\<lambda>d. a_line (e_anchor d)) dels) = a_line a" using assms(3) unfolding assms(4) by (simp add: hd_upt)
  then have "a_line (e_anchor (hd dels)) = a_line a" using assms(3) by (simp add: hd_map)
  then show ?thesis using assms(2-4) unfolding findReplacementGroup_def by (subst assms(1)) (simp add: Let_def)
qed

lemma replace_op_group:
  assumes "payload \<noteq> []" "a_line (pr_start rg) \<le> a_line (pr_end rg)"
  shows "findReplacementGroup (replace_op_edits n k rg payload) = Some \<lparr>rg_sourceLineNum = n, rg_edits = replace_op_edits n k rg payload,
    rg_replacement = payload, rg_startLine = a_line (pr_start rg), rg_count = a_line (pr_end rg) + 1 - a_line (pr_start rg)\<rparr>"
proof -
  let ?d = "delete_all n (k + length payload) (expandRange rg)"
  have len: "length (expandRange rg) = a_line (pr_end rg) + 1 - a_line (pr_start rg)"
    using arg_cong [OF expandRange_lines, of length rg] by (simp del: upt_Suc)
  then have ne: "expandRange rg \<noteq> []" using assms(2) by auto
  have hd: "a_line (hd (expandRange rg)) = a_line (pr_start rg)"
    using expandRange_lines [of rg] ne assms(2) hd_map [OF ne, of a_line] by (simp add: upt_conv_Cons del: upt_Suc)
  have d: "takeWhile (inserts_before n) ?d = []" "dropWhile (inserts_before n) ?d = ?d"
    by (simp_all add: delete_all_Cons [OF ne] inserts_before_def)
  obtain t ts where p: "payload = t # ts" using assms(1) by (cases payload) auto
  have m: "map (\<lambda>d. a_line (e_anchor d)) ?d = [a_line (pr_start rg)..<a_line (pr_start rg) + length ?d]" and l: "length ?d = length (expandRange rg)"
    using len assms(2) by (simp_all add: delete_all_lines expandRange_lines del: upt_Suc)
  have first: "replace_op_edits n k rg payload = Insert (BeforeAnchor (pr_start rg)) t n k # insert_all (BeforeAnchor (pr_start rg)) n (Suc k) ts @ ?d"
    by (simp add: replace_op_edits_def p insert_all_def)
  have texts: "map e_text (insert_all (BeforeAnchor (pr_start rg)) n k payload) = payload"
    by (simp add: insert_all_def split_def o_def)
  have "?d \<noteq> []" by (simp add: delete_all_Cons [OF ne])
  moreover have tw: "takeWhile (inserts_before n) (replace_op_edits n k rg payload) = insert_all (BeforeAnchor (pr_start rg)) n k payload"
    "takeWhile (deletes_at n) (dropWhile (inserts_before n) (replace_op_edits n k rg payload)) = ?d"
    by (simp_all add: replace_op_edits_def takeWhile_inserts d takeWhile_deletes)
  ultimately show ?thesis using findReplacementGroup_Insert [OF first refl, unfolded tw] m l len texts by (simp add: replace_op_edits_def)
qed

lemma replace_op_edits_ne: "payload \<noteq> [] \<Longrightarrow> replace_op_edits n k rg payload \<noteq> []"
  by (cases payload) (simp_all add: replace_op_edits_def insert_all_def)

lemma absorb_single_group:
  "findReplacementGroup es = Some g \<Longrightarrow> rg_edits g = es \<Longrightarrow> es \<noteq> [] \<Longrightarrow> absorb_loop xx ls generic targets es st = absorb_replacement xx g ls targets st"
  by (cases es) (auto simp: absorb_one_def split: prod.splits)

definition op_group :: "nat \<Rightarrow> nat \<Rightarrow> parsed_range \<Rightarrow> utext list \<Rightarrow> replacement_group" where
  "op_group n k rg payload = \<lparr>rg_sourceLineNum = n, rg_edits = replace_op_edits n k rg payload, rg_replacement = payload,
     rg_startLine = a_line (pr_start rg), rg_count = a_line (pr_end rg) + 1 - a_line (pr_start rg)\<rparr>"

lemma replace_op_absorbed:
  assumes "payload \<noteq> []" "a_line (pr_start rg) \<le> a_line (pr_end rg)" "list_all (anchored ls) (replace_op_edits n k rg payload)"
    and c: "absorb_counts (op_group n k rg payload) ls (collectAnchorTargetLines (replace_op_edits n k rg payload)) = (p, q)"
  defines "s \<equiv> a_line (pr_start rg)" and "e \<equiv> a_line (pr_end rg)"
  shows "\<exists>k1 k2. fst (absorbReplacementBoundaryDuplicates xx (replace_op_edits n k rg payload) ls generic)
       = absorbed_deletes xx n ls k1 [s - p..<s] @ replace_op_edits n k rg payload @ absorbed_deletes xx n ls k2 [e + 1..<e + 1 + q]"
    "p \<le> s - 1" "take p (drop (s - 1 - p) ls) = take p payload"
    "q \<le> length ls - e" "take q (drop e ls) = drop (length payload - q) payload" "1 \<le> s" "e \<le> length ls"
proof -
  let ?E = "replace_op_edits n k rg payload"
  have se: "s \<le> e" using assms(2) by (simp add: s_def e_def)
  have g: "findReplacementGroup ?E = Some (op_group n k rg payload)" using replace_op_group [OF assms(1,2)] by (simp add: op_group_def)
  have f: "rg_edits (op_group n k rg payload) = ?E" "rg_startLine (op_group n k rg payload) = s" "rg_count (op_group n k rg payload) = e + 1 - s"
    "rg_replacement (op_group n k rg payload) = payload" "rg_sourceLineNum (op_group n k rg payload) = n"
    by (simp_all add: op_group_def s_def e_def)
  note a = anchored_group [OF g assms(3), unfolded f]
  note counts = absorb_counts_facts [OF c, unfolded f, OF a(1-3)]
  show "p \<le> s - 1" "take p (drop (s - 1 - p) ls) = take p payload" using counts(2,3) by simp_all
  show "q \<le> length ls - e" "take q (drop e ls) = drop (length payload - q) payload" using counts(5,6) se by simp_all
  show "1 \<le> s" "e \<le> length ls" using a se by simp_all
  have "fst (absorbReplacementBoundaryDuplicates xx ?E ls generic)
      = absorbed_deletes xx n ls (length ?E) [s - p..<s] @ ?E @ absorbed_deletes xx n ls (length ?E + p) [e + 1..<e + 1 + q]"
    using c counts(2) se a(1) absorb_single_group [OF g f(1) replace_op_edits_ne [OF assms(1)]]
    by (simp add: absorbReplacementBoundaryDuplicates_def absorb_replacement_def Let_def contiguousRange_def f del: upt_Suc)
  then show "\<exists>k1 k2. fst (absorbReplacementBoundaryDuplicates xx ?E ls generic)
       = absorbed_deletes xx n ls k1 [s - p..<s] @ ?E @ absorbed_deletes xx n ls k2 [e + 1..<e + 1 + q]" by blast
qed

lemma replace_op_normal:
  "map (normalize_cursor xx ls) (absorbed_deletes xx n ls k1 as @ replace_op_edits n k rg payload @ absorbed_deletes xx n ls k2 bs)
     = absorbed_deletes xx n ls k1 as @ replace_op_edits n k rg payload @ absorbed_deletes xx n ls k2 bs"
  by (simp add: absorbed_deletes_def deleteEditForAutoAbsorbedLine_def replace_op_edits_def insert_all_def delete_all_def normalize_cursor_def
      split_def o_def)

lemma replace_op_anchored:
  assumes "es = absorbed_deletes xx n ls k1 as @ replace_op_edits n k rg payload @ absorbed_deletes xx n ls k2 bs"
  shows "anchor_edits es = es" "cursor_texts Bof es = []" "cursor_texts Eof es = []"
proof -
  have "\<forall>e \<in> set es. is_delete e \<or> (\<exists>a t m j. e = Insert (BeforeAnchor a) t m j)"
    unfolding assms absorbed_deletes_def deleteEditForAutoAbsorbedLine_def replace_op_edits_def insert_all_def delete_all_def by auto
  then show "anchor_edits es = es" "cursor_texts Bof es = []" "cursor_texts Eof es = []"
    by (auto simp: anchor_edits_def cursor_texts_def List.map_filter_def filter_id_conv filter_empty_conv split: edit.splits cursor.splits dest!: bspec)
qed

lemma replace_op_lines:
  assumes "payload \<noteq> []" "a_line (pr_start rg) \<le> a_line (pr_end rg)"
    and "applyHashlineEdits xx text (replace_op_edits n k rg payload) generic = Inr r" "ls = split_at LF text"
    and c: "absorb_counts (op_group n k rg payload) ls (collectAnchorTargetLines (replace_op_edits n k rg payload)) = (p, q)"
  defines "s \<equiv> a_line (pr_start rg)" and "e \<equiv> a_line (pr_end rg)"
  shows "ar_lines r = join [LF] (take (s - 1 - p) ls @ payload @ drop (e + q) ls)" "p \<le> s - 1"
    "take p payload = drop (s - 1 - p) (take (s - 1) ls)" "drop (length payload - q) payload = take q (drop e ls)"
proof -
  let ?E = "replace_op_edits n k rg payload"
  note ne = replace_op_edits_ne [OF assms(1), of n k rg]
  have v: "list_all (anchored ls) ?E" using apply_edits_ok [OF ne] assms(3) validated_anchored unfolding assms(4) by blast
  note ab = replace_op_absorbed [OF assms(1,2) v c, folded s_def e_def]
  obtain k1 k2 where a: "fst (absorbReplacementBoundaryDuplicates xx ?E ls generic)
       = absorbed_deletes xx n ls k1 [s - p..<s] @ ?E @ absorbed_deletes xx n ls k2 [e + 1..<e + 1 + q]" using ab(1) by blast
  define es where "es = absorbed_deletes xx n ls k1 [s - p..<s] @ ?E @ absorbed_deletes xx n ls k2 [e + 1..<e + 1 + q]"
  have lines: "ar_lines r = join [LF] (woven_lines es ls)"
    using applied_lines [OF assms(3) ne] a replace_op_normal unfolding es_def assms(4) [symmetric] by simp
  have anchors: "a_line ` set (expandRange rg) = {s..<Suc e}"
    using arg_cong [OF expandRange_lines, of set rg] by (simp add: s_def e_def del: upt_Suc)
  have "weave es ls = take (s - p - 1) ls @ payload @ drop (e + 1 + q - 1) ls"
  proof (rule weave_replacement)
    show "insert_texts (bucket es i) = (if i = s then payload else [])" for i
      by (simp add: es_def replace_op_edits_def bucket_simps s_def)
    show "list_ex is_delete (bucket es i) \<longleftrightarrow> s - p \<le> i \<and> i < e + 1 + q" for i
      using ab(2,6) assms(2) by (auto simp: es_def replace_op_edits_def bucket_simps anchors s_def [symmetric] e_def [symmetric])
  qed (use ab(2-7) assms(2) in \<open>auto simp: s_def e_def\<close>)
  then show "ar_lines r = join [LF] (take (s - 1 - p) ls @ payload @ drop (e + q) ls)"
    using replace_op_anchored [OF es_def] lines by (simp add: woven_lines_def insertAtStart_def insertAtEnd_def diff_commute)
  show "p \<le> s - 1" by (rule ab(2))
  have "s - Suc (s - Suc p) = p" using ab(2,6) by arith
  then show "take p payload = drop (s - 1 - p) (take (s - 1) ls)" using ab(3) by (simp add: drop_take)
  show "drop (length payload - q) payload = take q (drop e ls)" using ab(5) by simp
qed

lemma context_kept:
  assumes "p + q \<le> length payload" "take p payload = drop (s - p) (take s ls)" "drop (length payload - q) payload = take q (drop e ls)"
  shows "take (s - p) ls @ payload @ drop (e + q) ls = take s ls @ drop p (take (length payload - q) payload) @ drop e ls"
proof -
  have "take s ls = take (s - p) ls @ take p payload"
    using assms(2) append_take_drop_id [of "s - p" "take s ls"] by (simp add: min_absorb1)
  moreover have "drop e ls = drop (length payload - q) payload @ drop (e + q) ls"
    using assms(3) append_take_drop_id [of q "drop e ls"] by (simp add: add.commute)
  moreover have "payload = (take p payload @ drop p (take (length payload - q) payload)) @ drop (length payload - q) payload"
    using assms(1) append_take_drop_id [of p "take (length payload - q) payload"] by (simp add: min_absorb1)
  ultimately show ?thesis by simp
qed

text \<open>C7. What a replace operation does around its range: of the lines above the range, the \<open>p\<close> nearest, and of the lines
  below it, the \<open>q\<close> nearest, are absorbed, and they are the leading and trailing lines of the payload; so where the
  absorbed parts of the payload do not overlap, all lines above and all lines below the range are in the result as
  they were, around the payload without its duplicated borders.\<close>

theorem replacement_keeps_context:
  assumes "payload \<noteq> []" "a_line (pr_start rg) \<le> a_line (pr_end rg)"
    and "applyHashlineEdits xx text (replace_op_edits n k rg payload) generic = Inr r"
  shows "\<exists>p q. let ls = split_at LF text; s = a_line (pr_start rg) - 1; e = a_line (pr_end rg) in
     ar_lines r = join [LF] (take (s - p) ls @ payload @ drop (e + q) ls)
     \<and> p \<le> s \<and> take p payload = drop (s - p) (take s ls) \<and> drop (length payload - q) payload = take q (drop e ls)
     \<and> (p + q \<le> length payload \<longrightarrow> ar_lines r = join [LF] (take s ls @ drop p (take (length payload - q) payload) @ drop e ls))"
proof -
  obtain p q where c: "absorb_counts (op_group n k rg payload) (split_at LF text) (collectAnchorTargetLines (replace_op_edits n k rg payload)) = (p, q)"
    by fastforce
  note l = replace_op_lines [OF assms refl c]
  show ?thesis unfolding Let_def using l context_kept [OF _ l(3,4)] by (intro exI [of _ p] exI [of _ q]) simp
qed

lemma bigram_first: "HL_BIGRAMS ! 0 = units ''aa''" "HL_BIGRAMS \<noteq> []"
proof -
  obtain ls' where l: "letters = CHR ''a'' # ls'" by (simp add: letters_def)
  have m: "''aa'' \<notin> set missing_bigrams" by (simp add: missing_bigrams_def)
  obtain bs where "[[a, b]. a \<leftarrow> letters, b \<leftarrow> letters] = ''aa'' # bs" by (simp add: l)
  then have h: "HL_BIGRAMS = units ''aa'' # map units (filter (\<lambda>b. b \<notin> set missing_bigrams) bs)" unfolding HL_BIGRAMS_def using m by simp
  show "HL_BIGRAMS ! 0 = units ''aa''" by (simp add: h)
  show "HL_BIGRAMS \<noteq> []" by (simp add: h)
qed

lemma const_hash [simp]: "computeLineHash (\<lambda>_. 0) line = units ''aa''"
  by (simp add: computeLineHash_def bigram_first)

section \<open>Concrete files\<close>

definition demo_anchor :: "nat \<Rightarrow> anchor" where
  "demo_anchor n = \<lparr>a_line = n, a_hash = units ''aa''\<rparr>"

definition demo_range :: "nat \<Rightarrow> nat \<Rightarrow> parsed_range" where
  "demo_range m n = \<lparr>pr_start = demo_anchor m, pr_end = demo_anchor n\<rparr>"

text \<open>With this hash every anchor is right, so that only the line numbers matter.\<close>

lemma enumerate_mem: "(i, x) \<in> set (List.enumerate k xs) \<Longrightarrow> x \<in> set xs"
  by (auto simp: in_set_enumerate_eq)

lemma demo_applies:
  assumes "payload \<noteq> []" "1 \<le> m" "m \<le> n" "n \<le> length ls" "\<forall>l \<in> set ls. LF \<notin> set l" "ls \<noteq> []"
  obtains r where "applyHashlineEdits (\<lambda>_. 0) (join [LF] ls) (replace_op_edits 1 0 (demo_range m n) payload) g = Inr r" "split_at LF (join [LF] ls) = ls"
proof -
  have ls: "split_at LF (join [LF] ls) = ls" using assms(5,6) by (rule split_at_join [rotated])
  have "set (concat (map getHashlineEditAnchors (replace_op_edits 1 0 (demo_range m n) payload))) \<subseteq> insert (demo_anchor m) (set (expandRange (demo_range m n)))"
    by (auto simp: replace_op_edits_def insert_all_def delete_all_def getHashlineEditAnchors_def demo_range_def dest: enumerate_mem)
  moreover have "\<forall>a \<in> set (expandRange (demo_range m n)). m \<le> a_line a \<and> a_line a \<le> n \<and> a_hash a \<in> {RANGE_INTERIOR_HASH, units ''aa''}"
    by (auto simp: expandRange_def demo_range_def demo_anchor_def simp del: upt_Suc)
  ultimately have "validateHashlineAnchors (\<lambda>_. 0) (replace_op_edits 1 0 (demo_range m n) payload) ls = Inr []"
    using assms(2-4) unfolding validateHashlineAnchors_def validate_anchors_ok list_all_iff by (force simp: demo_anchor_def)
  then show thesis using that ls apply_edits_ok [OF replace_op_edits_ne [OF assms(1)]] by metis
qed

definition overlap_file :: "utext list" where
  "overlap_file = map units [''a'', ''b'', ''x'', ''a'', ''b'']"

text \<open>Where the payload repeats both the lines above and the lines below the range, its only copy stands for both: replacing the
  middle line of \<^verbatim>\<open>a b x a b\<close> by \<^verbatim>\<open>a b\<close> leaves \<^verbatim>\<open>a b\<close>, and two lines outside the range are lost.\<close>

lemma largest_from_2: "largest_from 2 P = (if P 2 then 2 else 0)"
  by (subst largest_from.simps) (simp add: largest_from.simps [of "Suc 0"])

lemma overlap_counts:
  "absorb_counts (op_group 1 0 (demo_range 3 3) (map units [''a'', ''b''])) overlap_file
     (collectAnchorTargetLines (replace_op_edits 1 0 (demo_range 3 3) (map units [''a'', ''b'']))) = (2, 2)"
proof -
  have t: "collectAnchorTargetLines (replace_op_edits 1 0 (demo_range 3 3) (map units [''a'', ''b''])) = {3}"
    by (auto simp: collectAnchorTargetLines_def replace_op_edits_def insert_all_def delete_all_def expandRange_def demo_range_def demo_anchor_def
        List.map_filter_def getAnchorTargetLine_def)
  have p: "countMatchingPrefixBlock overlap_file 3 (map units [''a'', ''b'']) = 2"
    by (simp add: countMatchingPrefixBlock_def overlap_file_def largest_from_2 [unfolded numeral_2_eq_2] numeral_2_eq_2)
  have q: "countMatchingSuffixBlock overlap_file 3 (map units [''a'', ''b'']) = 2"
    by (simp add: countMatchingSuffixBlock_def overlap_file_def largest_from_2 [unfolded numeral_2_eq_2] numeral_2_eq_2)
  show ?thesis unfolding t using p q
    by (simp add: absorb_counts_def op_group_def demo_range_def demo_anchor_def nonzero_def hasExternalTargets_def contiguousRange_def)
qed

lemma overlap_loses_lines:
  assumes "applyHashlineEdits (\<lambda>_. 0) (join [LF] overlap_file) (replace_op_edits 1 0 (demo_range 3 3) (map units [''a'', ''b''])) g = Inr r"
  shows "ar_lines r = join [LF] (map units [''a'', ''b''])"
proof -
  have ls: "overlap_file = split_at LF (join [LF] overlap_file)" by (simp add: overlap_file_def units_def LF_def)
  show ?thesis using replace_op_lines(1) [OF _ _ assms ls overlap_counts] by (simp add: demo_range_def demo_anchor_def overlap_file_def)
qed

definition demo_file :: "utext list" where
  "demo_file = map units [''a'', ''b'', ''c'']"

lemma demo_replaced:
  obtains r where "applyHashlineEdits (\<lambda>_. 0) (join [LF] demo_file) (replace_op_edits 1 0 (demo_range 2 2) [units ''x'']) False = Inr r"
    "split_at LF (join [LF] demo_file) = demo_file"
  by (rule demo_applies [of "[units ''x'']" 2 2 demo_file False]) (simp_all add: demo_file_def units_def LF_def)

theorem hashline_apply_weaves_witness:
  "\<exists>r. applyHashlineEdits (\<lambda>_. 0) (join [LF] demo_file) (replace_op_edits 1 0 (demo_range 2 2) [units ''x'']) False = Inr r
     \<and> (let ls = demo_file;
            es = map (normalize_cursor (\<lambda>_. 0) ls)
                   (fst (absorbReplacementBoundaryDuplicates (\<lambda>_. 0) (replace_op_edits 1 0 (demo_range 2 2) [units ''x'']) ls False));
            middle = concat (map (\<lambda>i. insert_texts (bucket (anchor_edits es) i)
                       @ (if list_ex is_delete (bucket (anchor_edits es) i) then [] else [ls ! (i - 1)])) [1..<Suc (length ls)])
        in ar_lines r = join [LF] (fst (insertAtEnd (insertAtStart middle (cursor_texts Bof es)) (cursor_texts Eof es))))"
proof -
  obtain r where r: "applyHashlineEdits (\<lambda>_. 0) (join [LF] demo_file) (replace_op_edits 1 0 (demo_range 2 2) [units ''x'']) False = Inr r"
    and f: "split_at LF (join [LF] demo_file) = demo_file" by (rule demo_replaced)
  show ?thesis using r hashline_apply_weaves [OF r, unfolded f] replace_op_edits_ne [of "[units ''x'']"] by blast
qed

theorem replacement_keeps_context_witness:
  "\<exists>r. applyHashlineEdits (\<lambda>_. 0) (join [LF] demo_file) (replace_op_edits 1 0 (demo_range 2 2) [units ''x'']) False = Inr r
     \<and> ar_lines r = join [LF] (map units [''a'', ''x'', ''c''])"
proof -
  obtain r where r: "applyHashlineEdits (\<lambda>_. 0) (join [LF] demo_file) (replace_op_edits 1 0 (demo_range 2 2) [units ''x'']) False = Inr r"
    and f: "split_at LF (join [LF] demo_file) = demo_file" by (rule demo_replaced)
  have d: "take (Suc 0) demo_file = [units ''a'']" "drop 2 demo_file = [units ''c'']" by (simp_all add: demo_file_def)
  obtain p q where l: "ar_lines r = join [LF] (take (1 - p) demo_file @ [units ''x''] @ drop (2 + q) demo_file)" "p \<le> 1"
    "take p [units ''x''] = drop (1 - p) [units ''a'']" "drop (1 - q) [units ''x''] = take q [units ''c'']"
    using replacement_keeps_context [OF _ _ r, unfolded f] by (auto simp: demo_range_def demo_anchor_def d)
  have "p = 0" using l(2,3) by (cases p) (auto simp: units_def)
  moreover have "q = 0" using l(4) by (cases q) (auto simp: units_def)
  ultimately show ?thesis using r l(1) by (auto simp: demo_file_def numeral_2_eq_2)
qed

end
