(* ===== verification/Edit_Diff.thy ===== *)
theory Edit_Diff
  imports Hashline_Apply
begin

text \<open>
  The diff that the edit tools show: \<^verbatim>\<open>generateDiffString\<close> of \<^verbatim>\<open>edit/diff.ts\<close> and the preview with fresh anchors of
  \<^verbatim>\<open>hashline/diff-preview.ts\<close>. The line diff itself, a native or library routine, is the parameter \<open>diffLines\<close>.
\<close>

section \<open>The numbered diff\<close>

(* coding-agent/src/edit/diff.ts:59-63 DiffLinePart *)
record diff_part =
  dp_added :: bool
  dp_removed :: bool
  dp_value :: utext

abbreviation dp_changed :: "diff_part \<Rightarrow> bool" where
  "dp_changed p \<equiv> dp_added p \<or> dp_removed p"

type_synonym diff_line = "nat \<times> nat \<times> utext"

abbreviation "PLUS \<equiv> (43 :: nat)"
abbreviation "MINUS \<equiv> (45 :: nat)"
abbreviation "SPACE \<equiv> (32 :: nat)"
abbreviation "BAR \<equiv> (124 :: nat)"

(* coding-agent/src/edit/diff.ts:55-57 formatNumberedDiffLine *)
fun formatNumberedDiffLine :: "diff_line \<Rightarrow> utext" where
  "formatNumberedDiffLine (kind, lineNum, content) = kind # num_text lineNum @ BAR # content"

fun number_lines :: "nat \<Rightarrow> nat \<Rightarrow> utext list \<Rightarrow> diff_line list" where
  "number_lines kind n [] = []"
| "number_lines kind n (l # ls) = (kind, n, l) # number_lines kind (Suc n) ls"

definition dots :: utext where "dots = units ''...''"

definition part_lines :: "diff_part \<Rightarrow> utext list" where
  "part_lines p = (let raw = split_at LF (dp_value p) in if last raw = [] then butlast raw else raw)"

(* coding-agent/src/edit/diff.ts:128-131 generateDiffString *)
record diff_state =
  ds_old :: nat
  ds_new :: nat
  ds_last :: bool
  ds_first :: "nat option"
  ds_out :: "diff_line list"

(* coding-agent/src/edit/diff.ts:140-156 generateDiffString *)
definition diff_change :: "diff_part \<Rightarrow> diff_state \<Rightarrow> diff_state" where
  "diff_change p st =
     (let raw = part_lines p; st1 = st\<lparr>ds_first := (case ds_first st of None \<Rightarrow> Some (ds_new st) | f \<Rightarrow> f), ds_last := True\<rparr>
      in if dp_added p then st1\<lparr>ds_out := ds_out st @ number_lines PLUS (ds_new st) raw, ds_new := ds_new st + length raw\<rparr>
         else st1\<lparr>ds_out := ds_out st @ number_lines MINUS (ds_old st) raw, ds_old := ds_old st + length raw\<rparr>)"

(* coding-agent/src/edit/diff.ts:157-221 generateDiffString *)
definition diff_context :: "nat \<Rightarrow> bool \<Rightarrow> diff_part \<Rightarrow> diff_state \<Rightarrow> diff_state" where
  "diff_context contextLimit nextPartIsChange p st =
     (let raw = part_lines p; n = length raw; old = ds_old st;
          (leadingSkip, middleSkip, trailingSkip, linesToShow) =
            (if ds_last st \<and> nextPartIsChange
             then if contextLimit * 2 < n
                  then (0, n - contextLimit - contextLimit, 0, take contextLimit raw @ drop (n - contextLimit) raw)
                  else (0, 0, 0, raw)
             else if nextPartIsChange then (n - contextLimit, 0, 0, drop (n - contextLimit) raw)
             else (0, 0, n - contextLimit, take contextLimit raw));
          firstChunkLength = (if 0 < middleSkip then contextLimit else length linesToShow);
          chunk1 = take firstChunkLength linesToShow;
          chunk2 = (if 0 < middleSkip then drop firstChunkLength linesToShow else []);
          old1 = old + leadingSkip; old2 = old1 + length chunk1; old3 = old2 + middleSkip + length chunk2;
          out = (if 0 < leadingSkip then [(SPACE, old, dots)] else [])
                @ number_lines SPACE old1 chunk1
                @ (if 0 < middleSkip then (SPACE, old2, dots) # number_lines SPACE (old2 + middleSkip) chunk2 else [])
                @ (if 0 < trailingSkip then [(SPACE, old3, dots)] else []);
          (shown, passed) = (if ds_last st \<or> nextPartIsChange
                             then (out, leadingSkip + length chunk1 + middleSkip + length chunk2 + trailingSkip) else ([], n))
      in st\<lparr>ds_out := ds_out st @ shown, ds_old := old + passed, ds_new := ds_new st + passed, ds_last := False\<rparr>)"

(* coding-agent/src/edit/diff.ts:133-222 generateDiffString *)
fun diff_parts :: "nat \<Rightarrow> diff_part list \<Rightarrow> diff_state \<Rightarrow> diff_state" where
  "diff_parts contextLimit [] st = st"
| "diff_parts contextLimit (p # ps) st =
     diff_parts contextLimit ps
       (if dp_changed p then diff_change p st else diff_context contextLimit (ps \<noteq> [] \<and> dp_changed (hd ps)) p st)"

(* coding-agent/src/edit/diff.ts:122-225 generateDiffString *)
definition generateDiffString :: "(utext \<Rightarrow> utext \<Rightarrow> diff_part list) \<Rightarrow> utext \<Rightarrow> utext \<Rightarrow> nat \<Rightarrow> utext \<times> nat option" where
  "generateDiffString diffLines oldContent newContent contextLines =
     (let st = diff_parts contextLines (diffLines oldContent newContent) \<lparr>ds_old = 1, ds_new = 1, ds_last = False, ds_first = None, ds_out = []\<rparr>
      in (join [LF] (map formatNumberedDiffLine (ds_out st)), ds_first st))"

section \<open>The preview\<close>

text \<open>\<^verbatim>\<open>Number.parseInt\<close> with \<^verbatim>\<open>NaN\<close> as None, and how a number is written.\<close>

definition js_parse_int :: "utext \<Rightarrow> int option" where
  "js_parse_int s =
     (let t = dropWhile space_unit s;
          (sign, u) = (case t of c # r \<Rightarrow> if c = MINUS then (- 1, r) else if c = PLUS then (1, r) else (1, t) | [] \<Rightarrow> (1, []));
          ds = takeWhile digit_unit u
      in if ds = [] then None else Some (sign * int (parse_int ds)))"

definition int_text :: "int option \<Rightarrow> utext" where
  "int_text n = (case n of None \<Rightarrow> units ''NaN'' | Some i \<Rightarrow> if i < 0 then MINUS # num_text (nat (- i)) else num_text (nat i))"

(* coding-agent/src/hashline/diff-preview.ts:17-40 buildCompactHashlineDiffPreview *)
fun preview_lines :: "(utext \<Rightarrow> nat) \<Rightarrow> nat \<Rightarrow> nat \<Rightarrow> utext list \<Rightarrow> utext list \<times> nat \<times> nat" where
  "preview_lines xx added removed [] = ([], added, removed)"
| "preview_lines xx added removed (line # ls) =
     (let keep = (let (r, c) = preview_lines xx added removed ls in (line # r, c))
      in case line of
           [] \<Rightarrow> keep
         | kind # body \<Rightarrow>
             if kind \<notin> {PLUS, MINUS, SPACE} \<or> BAR \<notin> set body then keep
             else let lineNumber = js_parse_int (takeWhile (\<lambda>c. c \<noteq> BAR) body); content = tl (dropWhile (\<lambda>c. c \<noteq> BAR) body)
                  in if kind = PLUS
                     then let (r, c) = preview_lines xx (added + 1) removed ls
                          in ((PLUS # int_text lineNumber @ computeLineHash xx content @ HL_BODY_SEP # content) # r, c)
                     else if kind = MINUS
                     then let (r, c) = preview_lines xx added (removed + 1) ls
                          in ((MINUS # int_text lineNumber @ units ''--'' @ HL_BODY_SEP # content) # r, c)
                     else let (r, c) = preview_lines xx added removed ls
                          in ((SPACE # int_text (map_option (\<lambda>i. i + int added - int removed) lineNumber)
                                @ computeLineHash xx content @ HL_BODY_SEP # content) # r, c))"

(* coding-agent/src/hashline/diff-preview.ts:4-43 buildCompactHashlineDiffPreview *)
definition buildCompactHashlineDiffPreview :: "(utext \<Rightarrow> nat) \<Rightarrow> utext \<Rightarrow> utext \<times> nat \<times> nat" where
  "buildCompactHashlineDiffPreview xx diff =
     (let (ls, c) = preview_lines xx 0 0 (if diff = [] then [] else split_at LF diff) in (join [LF] ls, c))"

section \<open>Fresh anchors\<close>

lemma number_lines_mem:
  "(k, m, l) \<in> set (number_lines kind n ls) \<longleftrightarrow> k = kind \<and> n \<le> m \<and> m < n + length ls \<and> ls ! (m - n) = l"
proof (induction ls arbitrary: n)
  case (Cons x ls)
  have "m - n = Suc (m - Suc n)" if "n < m" using that by simp
  then show ?case using Cons [of "Suc n"] by (cases "n < m") auto
qed simp

lemma number_lines_kind: "e \<in> set (number_lines kind n ls) \<Longrightarrow> fst e = kind"
  by (cases e) (simp add: number_lines_mem)

lemma number_lines_length [simp]: "length (number_lines kind n ls) = length ls"
  by (induction ls arbitrary: n) auto

text \<open>What a context part shows: lines of the part under their old numbers, and marks for what is left out.\<close>

definition shows_part :: "nat \<Rightarrow> utext list \<Rightarrow> diff_line \<Rightarrow> bool" where
  "shows_part old raw e \<longleftrightarrow> fst e = SPACE \<and> old \<le> fst (snd e) \<and> fst (snd e) < old + length raw
     \<and> (raw ! (fst (snd e) - old) = snd (snd e) \<or> snd (snd e) = dots)"

lemma diff_context_shape:
  obtains shown where "diff_context k nx p st =
      st\<lparr>ds_out := ds_out st @ shown, ds_old := ds_old st + length (part_lines p), ds_new := ds_new st + length (part_lines p), ds_last := False\<rparr>"
    "\<forall>e \<in> set shown. shows_part (ds_old st) (part_lines p) e"
proof -
  let ?raw = "part_lines p" and ?o = "ds_old st"
  let ?n = "length ?raw"
  consider (mid) "ds_last st \<and> nx" "k * 2 < ?n" | (whole) "ds_last st \<and> nx" "\<not> k * 2 < ?n"
    | (lead) "\<not> ds_last st" nx | (trail) "ds_last st" "\<not> nx" | (skip) "\<not> ds_last st" "\<not> nx" by blast
  then show thesis
  proof cases
    case mid
    then show thesis
      by (intro that [of "number_lines SPACE ?o (take k ?raw) @ (SPACE, ?o + k, dots) # number_lines SPACE (?o + k + (?n - k - k)) (drop (?n - k) ?raw)"])
        (auto simp: diff_context_def shows_part_def number_lines_mem Let_def)
  next
    case whole
    then show thesis by (intro that [of "number_lines SPACE ?o ?raw"]) (auto simp: diff_context_def shows_part_def number_lines_mem Let_def)
  next
    case lead
    then show thesis
      by (intro that [of "(if k < ?n then [(SPACE, ?o, dots)] else []) @ number_lines SPACE (?o + (?n - k)) (drop (?n - k) ?raw)"])
        (auto simp: diff_context_def shows_part_def number_lines_mem Let_def)
  next
    case trail
    then show thesis
      by (intro that [of "number_lines SPACE ?o (take k ?raw) @ (if k < ?n then [(SPACE, ?o + k, dots)] else [])"])
        (auto simp: diff_context_def shows_part_def number_lines_mem Let_def min_def split: if_splits)
  next
    case skip
    then show thesis by (intro that [of "[]"]) (auto simp: diff_context_def Let_def)
  qed
qed

lemma diff_change_shape:
  "dp_added p \<Longrightarrow> ds_out (diff_change p st) = ds_out st @ number_lines PLUS (ds_new st) (part_lines p)
     \<and> ds_new (diff_change p st) = ds_new st + length (part_lines p) \<and> ds_old (diff_change p st) = ds_old st"
  "\<not> dp_added p \<Longrightarrow> ds_out (diff_change p st) = ds_out st @ number_lines MINUS (ds_old st) (part_lines p)
     \<and> ds_new (diff_change p st) = ds_new st \<and> ds_old (diff_change p st) = ds_old st + length (part_lines p)"
  by (simp_all add: diff_change_def Let_def)

text \<open>The numbers that the preview gives: those of the new text.\<close>

fun fresh :: "int \<Rightarrow> diff_line list \<Rightarrow> (nat \<times> int \<times> utext) list" where
  "fresh d [] = []"
| "fresh d ((k, n, l) # es) =
     (k, if k = SPACE then int n + d else int n, l) # fresh (if k = PLUS then d + 1 else if k = MINUS then d - 1 else d) es"

definition shift :: "diff_line list \<Rightarrow> int" where
  "shift es = int (length (filter (\<lambda>e. fst e = PLUS) es)) - int (length (filter (\<lambda>e. fst e = MINUS) es))"

lemma fresh_append: "fresh d (es @ es') = fresh d es @ fresh (d + shift es) es'"
  by (induction d es rule: fresh.induct) (auto simp: shift_def algebra_simps)

lemma shift_append: "shift (es @ es') = shift es + shift es'"
  by (simp add: shift_def)

lemma shift_number: "shift (number_lines kind n ls) = (if kind = PLUS then int (length ls) else if kind = MINUS then - int (length ls) else 0)"
  by (induction ls arbitrary: n) (auto simp: shift_def)

lemma shift_space: "\<forall>e \<in> set es. fst e = SPACE \<Longrightarrow> shift es = 0"
  by (auto simp: shift_def filter_empty_conv)

lemma fresh_space: "\<forall>e \<in> set es. fst e = SPACE \<Longrightarrow> fresh d es = map (\<lambda>(k, n, l). (k, int n + d, l)) es"
  by (induction d es rule: fresh.induct) auto

lemma fresh_number: "kind \<noteq> SPACE \<Longrightarrow> fresh d (number_lines kind n ls) = map (\<lambda>(k, n, l). (k, int n, l)) (number_lines kind n ls)"
  by (induction ls arbitrary: n d) auto

definition anchors_line :: "utext list \<Rightarrow> nat \<times> int \<times> utext \<Rightarrow> bool" where
  "anchors_line ls e \<longleftrightarrow> (case e of (k, i, l) \<Rightarrow>
     k = MINUS \<or> (1 \<le> i \<and> i \<le> int (length ls) \<and> (ls ! nat (i - 1) = l \<or> k = SPACE \<and> l = dots)))"

definition new_lines :: "diff_part list \<Rightarrow> utext list" where
  "new_lines ps = concat (map part_lines (filter (\<lambda>p. \<not> dp_removed p) ps))"

lemma diff_parts_anchors:
  assumes "\<forall>e \<in> set (fresh 0 (ds_out st)). anchors_line ls e" "int (ds_new st) - int (ds_old st) = shift (ds_out st)"
    and "ls = pre @ new_lines ps" "Suc (length pre) = ds_new st" "\<forall>p \<in> set ps. \<not> (dp_added p \<and> dp_removed p)"
  shows "\<forall>e \<in> set (fresh 0 (ds_out (diff_parts k ps st))). anchors_line ls e"
  using assms
proof (induction ps arbitrary: st pre)
  case (Cons p ps)
  let ?raw = "part_lines p"
  consider (add) "dp_added p" "\<not> dp_removed p" | (rem) "\<not> dp_added p" "dp_removed p" | (ctx) "\<not> dp_changed p" using Cons.prems(5) by auto
  then show ?case
  proof cases
    case add
    note sh = diff_change_shape(1) [OF add(1), of st]
    have ls: "ls = (pre @ ?raw) @ new_lines ps" using Cons.prems(3) add by (simp add: new_lines_def)
    have "anchors_line ls (PLUS, int m, l)" if "(PLUS, m, l) \<in> set (number_lines PLUS (ds_new st) ?raw)" for m l
    proof -
      have m: "ds_new st \<le> m" "m < ds_new st + length ?raw" "?raw ! (m - ds_new st) = l" using that by (simp_all add: number_lines_mem)
      then have "m - Suc 0 - length pre = m - ds_new st" "length pre \<le> m - Suc 0" using Cons.prems(4) by auto
      then have "ls ! (m - Suc 0) = l" using m Cons.prems(4) by (auto simp: ls nth_append)
      moreover have "nat (int m - 1) = m - Suc 0" using m Cons.prems(4) by simp
      ultimately show ?thesis using m Cons.prems(4) by (simp add: anchors_line_def ls)
    qed
    then have "\<forall>e \<in> set (fresh 0 (ds_out (diff_change p st))). anchors_line ls e"
      using Cons.prems(1) sh number_lines_kind by (fastforce simp: fresh_append fresh_number)
    moreover have "int (ds_new (diff_change p st)) - int (ds_old (diff_change p st)) = shift (ds_out (diff_change p st))"
      using sh Cons.prems(2) by (simp add: shift_append shift_number)
    ultimately show ?thesis using Cons.IH [of "diff_change p st" "pre @ ?raw"] ls Cons.prems(4,5) sh add by simp
  next
    case rem
    note sh = diff_change_shape(2) [OF rem(1), of st]
    have ls: "ls = pre @ new_lines ps" using Cons.prems(3) rem by (simp add: new_lines_def)
    have "\<forall>e \<in> set (fresh 0 (ds_out (diff_change p st))). anchors_line ls e"
      using Cons.prems(1) sh number_lines_kind by (fastforce simp: fresh_append fresh_number anchors_line_def)
    moreover have "int (ds_new (diff_change p st)) - int (ds_old (diff_change p st)) = shift (ds_out (diff_change p st))"
      using sh Cons.prems(2) by (simp add: shift_append shift_number)
    ultimately show ?thesis using Cons.IH [of "diff_change p st" pre] ls Cons.prems(4,5) sh rem by simp
  next
    case ctx
    define st' where "st' = diff_context k (ps \<noteq> [] \<and> dp_changed (hd ps)) p st"
    obtain shown where sh: "st' = st\<lparr>ds_out := ds_out st @ shown, ds_old := ds_old st + length ?raw, ds_new := ds_new st + length ?raw, ds_last := False\<rparr>"
      and shp: "\<forall>e \<in> set shown. shows_part (ds_old st) ?raw e" unfolding st'_def by (rule diff_context_shape)
    have ls: "ls = (pre @ ?raw) @ new_lines ps" using Cons.prems(3) ctx by (simp add: new_lines_def)
    have sp: "\<forall>e \<in> set shown. fst e = SPACE" using shp by (simp add: shows_part_def)
    have "anchors_line ls (kd, int m + shift (ds_out st), l)" if "(kd, m, l) \<in> set shown" for kd m l
    proof -
      have m: "ds_old st \<le> m" "m < ds_old st + length ?raw" "?raw ! (m - ds_old st) = l \<or> l = dots" "kd = SPACE"
        using shp that by (auto simp: shows_part_def)
      define j where "j = m - ds_old st"
      have i: "int m + shift (ds_out st) = int (Suc (length pre + j))" using m(1) Cons.prems(2,4) by (simp add: j_def)
      have "j < length ?raw" using m by (simp add: j_def)
      then have "ls ! (length pre + j) = ?raw ! j" "length pre + j < length ls" by (simp_all add: ls nth_append)
      moreover have "nat (int (Suc (length pre + j)) - 1) = length pre + j" by simp
      ultimately show ?thesis using m(3,4) unfolding i anchors_line_def by (auto simp: j_def [symmetric])
    qed
    then have "\<forall>e \<in> set (fresh 0 (ds_out st')). anchors_line ls e"
      using Cons.prems(1) sp by (auto simp: sh fresh_append fresh_space)
    moreover have "int (ds_new st') - int (ds_old st') = shift (ds_out st')"
      using Cons.prems(2) shift_space [OF sp] by (simp add: sh shift_append)
    moreover have "diff_parts k (p # ps) st = diff_parts k ps st'" using ctx by (simp add: st'_def)
    ultimately show ?thesis using Cons.IH [of st' "pre @ ?raw"] ls Cons.prems(4,5) by (simp add: sh)
  qed
qed simp

section \<open>The text of the preview\<close>

lemma letter_lower: "c \<in> set letters \<Longrightarrow> lower_unit (of_char c)"
  by (auto simp: letters_def lower_unit_def)

lemma bigram_lower: "b \<in> set HL_BIGRAMS \<Longrightarrow> length b = 2 \<and> list_all lower_unit b"
  by (auto simp: HL_BIGRAMS_def units_def letter_lower)

lemma hash_lower: "length (computeLineHash xx l) = 2 \<and> list_all lower_unit (computeLineHash xx l)"
proof -
  have "xx (trim_end (filter (\<lambda>c. c \<noteq> CR) l)) mod length HL_BIGRAMS < length HL_BIGRAMS" using bigram_first(2) by simp
  then show ?thesis unfolding computeLineHash_def by (intro bigram_lower nth_mem)
qed

lemma hash_not_interior: "computeLineHash xx l \<noteq> RANGE_INTERIOR_HASH"
  using hash_lower [of xx l] by (auto simp: RANGE_INTERIOR_HASH_def units_def lower_unit_def)

fun preview_text :: "(utext \<Rightarrow> nat) \<Rightarrow> nat \<times> int \<times> utext \<Rightarrow> utext" where
  "preview_text xx (k, i, l) = k # int_text (Some i) @ (if k = MINUS then units ''--'' else computeLineHash xx l) @ HL_BODY_SEP # l"

lemma bar_num: "takeWhile (\<lambda>c. c \<noteq> BAR) (num_text n @ BAR # l) = num_text n"
  "dropWhile (\<lambda>c. c \<noteq> BAR) (num_text n @ BAR # l) = BAR # l"
proof -
  have "\<forall>c \<in> set (num_text n). c \<noteq> BAR" using num_text_digits by (force simp: digit_unit_def)
  then show "takeWhile (\<lambda>c. c \<noteq> BAR) (num_text n @ BAR # l) = num_text n" "dropWhile (\<lambda>c. c \<noteq> BAR) (num_text n @ BAR # l) = BAR # l"
    by (simp_all add: takeWhile_append dropWhile_append)
qed

lemma js_parse_num: "js_parse_int (num_text n) = Some (int n)"
proof -
  obtain c s where c: "num_text n = c # s" by (cases "num_text n") auto
  then have d: "digit_unit c" using num_text_digits [of c n] by simp
  then have "\<not> space_unit c" "c \<noteq> MINUS" "c \<noteq> PLUS" using plain_units(1) by (auto simp: digit_unit_def)
  moreover have "takeWhile digit_unit (num_text n) = num_text n" using num_text_digits by (simp add: takeWhile_eq_all_conv)
  ultimately show ?thesis using c parse_int_num [of n] by (simp add: js_parse_int_def)
qed

lemma preview_formatted:
  "\<forall>e \<in> set es. fst e \<in> {PLUS, MINUS, SPACE} \<Longrightarrow>
   fst (preview_lines xx a r (map formatNumberedDiffLine es)) = map (preview_text xx) (fresh (int a - int r) es)"
proof (induction es arbitrary: a r)
  case (Cons e es)
  obtain k n l where e: "e = (k, n, l)" by (cases e) auto
  have b: "BAR \<in> set (num_text n @ BAR # l)" by simp
  note s = bar_num [of n l] js_parse_num [of n]
  consider "k = PLUS" | "k = MINUS" | "k = SPACE" using Cons.prems e by auto
  then show ?case
  proof cases
    case 1
    then show ?thesis using Cons.IH [of "a + 1" r] Cons.prems by (simp add: e s Let_def split_beta algebra_simps)
  next
    case 2
    then show ?thesis using Cons.IH [of a "r + 1"] Cons.prems by (simp add: e s Let_def split_beta algebra_simps)
  next
    case 3
    then show ?thesis using Cons.IH [of a r] Cons.prems by (simp add: e s Let_def split_beta algebra_simps)
  qed
qed simp

definition parts_whole :: "diff_part list \<Rightarrow> bool" where
  "parts_whole ps \<longleftrightarrow> list_all (\<lambda>p. \<not> (dp_added p \<and> dp_removed p)) ps
     \<and> list_all (\<lambda>p. dp_value p \<noteq> [] \<and> last (dp_value p) = LF) (butlast (filter (\<lambda>p. \<not> dp_removed p) ps))"

lemma new_lines_prefix:
  assumes "list_all (\<lambda>p. dp_value p \<noteq> [] \<and> last (dp_value p) = LF) (butlast ps)"
  shows "prefix (concat (map part_lines ps)) (split_at LF (concat (map dp_value ps)))"
  using assms
proof (induction ps)
  case (Cons p ps)
  show ?case
  proof (cases "ps = []")
    case True
    have "prefix (butlast (split_at LF (dp_value p))) (split_at LF (dp_value p))" by (simp add: prefixeq_butlast)
    then show ?thesis using True by (simp add: part_lines_def Let_def)
  next
    case False
    then obtain v where v: "dp_value p = v @ [LF]" using Cons.prems by (auto simp: append_butlast_last_id) (metis append_butlast_last_id)
    have "split_at LF (v @ [LF]) = butlast (split_at LF v) @ [last (split_at LF v), []]"
      using split_at_app [of LF v "[LF]"] split_at_append_sep [OF last_split_at, of LF v "[]"] by simp
    then have l: "part_lines p = split_at LF v" by (simp add: part_lines_def v butlast_append)
    have "split_at LF (v @ LF # t) = split_at LF v @ split_at LF t" for t
      using split_at_app [of LF v "LF # t"] split_at_append_sep [OF last_split_at, of LF v t] by (metis append_Cons append_Nil append_assoc append_butlast_last_id split_at_not_Nil)
    then show ?thesis using Cons False by (simp add: l v)
  qed
qed simp

definition initial_diff :: diff_state where
  "initial_diff = \<lparr>ds_old = 1, ds_new = 1, ds_last = False, ds_first = None, ds_out = []\<rparr>"

text \<open>Every line of the diff is of one of the three kinds, and holds no line feed.\<close>

definition diff_line_ok :: "diff_line \<Rightarrow> bool" where
  "diff_line_ok e \<longleftrightarrow> fst e \<in> {PLUS, MINUS, SPACE} \<and> LF \<notin> set (snd (snd e))"

lemma part_lines_no_lf: "l \<in> set (part_lines p) \<Longrightarrow> LF \<notin> set l"
  by (auto simp: part_lines_def Let_def dest: in_set_butlastD split_at_pieces split: if_splits)

lemma diff_parts_ok: "list_all diff_line_ok (ds_out st) \<Longrightarrow> list_all diff_line_ok (ds_out (diff_parts k ps st))"
proof (induction ps arbitrary: st)
  case (Cons p ps)
  have n: "list_all diff_line_ok (number_lines kind m (part_lines p))" if "kind \<in> {PLUS, MINUS, SPACE}" for kind m
    using that part_lines_no_lf [of _ p] by (auto simp: list_all_iff diff_line_ok_def number_lines_mem)
  have "list_all diff_line_ok (ds_out (diff_change p st))"
    using Cons.prems n diff_change_shape [of p st] by (cases "dp_added p") simp_all
  moreover have "list_all diff_line_ok (ds_out (diff_context k nx p st))" for nx
  proof -
    obtain shown where "diff_context k nx p st =
        st\<lparr>ds_out := ds_out st @ shown, ds_old := ds_old st + length (part_lines p), ds_new := ds_new st + length (part_lines p), ds_last := False\<rparr>"
      and "\<forall>e \<in> set shown. shows_part (ds_old st) (part_lines p) e" by (rule diff_context_shape)
    moreover have "diff_line_ok e" if "shows_part (ds_old st) (part_lines p) e" for e
    proof -
      have "LF \<notin> set dots" by (simp add: dots_def units_def LF_def)
      moreover have "part_lines p ! (fst (snd e) - ds_old st) \<in> set (part_lines p)" using that by (auto simp: shows_part_def intro!: nth_mem)
      ultimately show ?thesis using that part_lines_no_lf by (auto simp: shows_part_def diff_line_ok_def)
    qed
    ultimately show ?thesis using Cons.prems by (auto simp: list_all_iff)
  qed
  ultimately show ?case using Cons.IH by simp
qed simp

lemma fresh_content: "(k, i, l) \<in> set (fresh d es) \<Longrightarrow> \<exists>n. (k, n, l) \<in> set es"
  by (induction d es rule: fresh.induct) auto

lemma int_text_no_lf: "LF \<notin> set (int_text (Some i))"
  using num_text_digits by (auto simp: int_text_def digit_unit_def LF_def dest!: num_text_digits)

lemma preview_text_no_lf: "k \<in> {PLUS, MINUS, SPACE} \<Longrightarrow> LF \<notin> set l \<Longrightarrow> LF \<notin> set (preview_text xx (k, i, l))"
proof -
  have "LF \<notin> set (computeLineHash xx l)" using hash_lower [of xx l] by (auto simp: list_all_iff lower_unit_def LF_def)
  moreover assume "k \<in> {PLUS, MINUS, SPACE}" "LF \<notin> set l"
  ultimately show ?thesis using int_text_no_lf [of i] by (auto simp: units_def hl_units)
qed

lemma preview_of_diff:
  assumes "list_all diff_line_ok es" "es \<noteq> []"
  shows "split_at LF (fst (buildCompactHashlineDiffPreview xx (join [LF] (map formatNumberedDiffLine es)))) = map (preview_text xx) (fresh 0 es)"
proof -
  have f: "\<forall>t \<in> set (map formatNumberedDiffLine es). LF \<notin> set t"
  proof
    fix t assume "t \<in> set (map formatNumberedDiffLine es)"
    then obtain k n l where "t = k # num_text n @ BAR # l" "(k, n, l) \<in> set es" by auto
    then show "LF \<notin> set t" using assms(1) num_text_digits by (auto simp: list_all_iff diff_line_ok_def digit_unit_def LF_def dest!: num_text_digits)
  qed
  have ne: "join [LF] (map formatNumberedDiffLine es) \<noteq> []" using assms(2) by (cases es; cases "tl es") auto
  have "split_at LF (join [LF] (map formatNumberedDiffLine es)) = map formatNumberedDiffLine es" using assms(2) f by (intro split_at_join) auto
  moreover have "fst (preview_lines xx 0 0 (map formatNumberedDiffLine es)) = map (preview_text xx) (fresh 0 es)"
    using assms(1) preview_formatted [of es xx 0 0] by (auto simp: list_all_iff diff_line_ok_def)
  ultimately have "fst (buildCompactHashlineDiffPreview xx (join [LF] (map formatNumberedDiffLine es))) = join [LF] (map (preview_text xx) (fresh 0 es))"
    using ne by (simp add: buildCompactHashlineDiffPreview_def split_beta)
  moreover have "\<forall>t \<in> set (map (preview_text xx) (fresh 0 es)). LF \<notin> set t"
  proof
    fix t assume "t \<in> set (map (preview_text xx) (fresh 0 es))"
    then obtain k i l where t: "t = preview_text xx (k, i, l)" "(k, i, l) \<in> set (fresh 0 es)" by auto
    then obtain n where "(k, n, l) \<in> set es" using fresh_content by blast
    then have "k \<in> {PLUS, MINUS, SPACE}" "LF \<notin> set l" using assms(1) by (auto simp: list_all_iff diff_line_ok_def)
    then show "LF \<notin> set t" using preview_text_no_lf t(1) by blast
  qed
  moreover have "fresh 0 es \<noteq> []" using assms(2) by (cases es) auto
  ultimately show ?thesis by (simp add: split_at_join)
qed

text \<open>C11. The anchors that an edit reports can be used for the next edit: every added line and every context line of the preview carries
  the number that the line has in the new file and the hash of that line; only the marks for lines left out do not.\<close>

theorem preview_anchors:
  assumes "parts_whole (diffLines old new)" "concat (map dp_value (filter (\<lambda>p. \<not> dp_removed p) (diffLines old new))) = new"
    and "line \<in> set (split_at LF (fst (buildCompactHashlineDiffPreview xx (fst (generateDiffString diffLines old new k)))))"
    and "line \<noteq> []" "hd line \<in> {PLUS, SPACE}"
  shows "\<exists>n l. line = hd line # formatHashLine xx n l \<and> 1 \<le> n \<and> n \<le> length (split_at LF new)
     \<and> (split_at LF new ! (n - 1) = l \<or> hd line = SPACE \<and> l = dots)"
proof -
  let ?es = "ds_out (diff_parts k (diffLines old new) initial_diff)"
  have ok: "list_all diff_line_ok ?es" by (rule diff_parts_ok) (simp add: initial_diff_def)
  have g: "fst (generateDiffString diffLines old new k) = join [LF] (map formatNumberedDiffLine ?es)"
    by (simp add: generateDiffString_def Let_def initial_diff_def)
  have "?es \<noteq> []" using assms(3,4) g by (auto simp: buildCompactHashlineDiffPreview_def)
  then obtain kd i l where e: "line = preview_text xx (kd, i, l)" "(kd, i, l) \<in> set (fresh 0 ?es)"
    using assms(3) preview_of_diff [OF ok] unfolding g by auto
  have "\<forall>e \<in> set (fresh 0 ?es). anchors_line (new_lines (diffLines old new)) e"
    using assms(1) by (intro diff_parts_anchors [of _ _ "[]" ]) (auto simp: initial_diff_def shift_def parts_whole_def list_all_iff)
  then have "anchors_line (new_lines (diffLines old new)) (kd, i, l)" using e(2) by blast
  moreover have "kd \<noteq> MINUS" using e(1) assms(5) by auto
  ultimately have a: "1 \<le> i" "i \<le> int (length (new_lines (diffLines old new)))" "new_lines (diffLines old new) ! nat (i - 1) = l \<or> kd = SPACE \<and> l = dots"
    by (auto simp: anchors_line_def)
  have "prefix (new_lines (diffLines old new)) (split_at LF new)"
    using new_lines_prefix [of "filter (\<lambda>p. \<not> dp_removed p) (diffLines old new)"] assms(1,2) by (simp add: new_lines_def parts_whole_def)
  then obtain zs where z: "split_at LF new = new_lines (diffLines old new) @ zs" by (auto simp: prefix_def)
  define n where "n = nat i"
  have n: "i = int n" "nat (i - 1) = n - 1" using a(1) by (simp_all add: n_def)
  have "line = hd line # formatHashLine xx n l" using e(1) \<open>kd \<noteq> MINUS\<close> by (simp add: n(1) formatHashLine_def formatLineHash_def int_text_def)
  moreover have "1 \<le> n" "n \<le> length (new_lines (diffLines old new))" using a(1,2) n(1) by simp_all
  moreover have "split_at LF new ! (n - 1) = l \<or> hd line = SPACE \<and> l = dots"
    using a(3) n(2) calculation(2,3) e(1) by (auto simp: z nth_append)
  ultimately show ?thesis using z by (intro exI [of _ n] exI [of _ l]) simp
qed

definition demo_diff :: "utext \<Rightarrow> utext \<Rightarrow> diff_part list" where
  "demo_diff old new =
     [\<lparr>dp_added = False, dp_removed = True, dp_value = units ''a'' @ [LF]\<rparr>, \<lparr>dp_added = False, dp_removed = False, dp_value = units ''b''\<rparr>]"

lemma demo_diff_lines: "ds_out (diff_parts 4 (demo_diff old new) initial_diff) = [(MINUS, 1, units ''a''), (SPACE, 2, units ''b'')]"
  by (simp add: demo_diff_def initial_diff_def diff_change_def diff_context_def part_lines_def Let_def units_def LF_def)

lemma demo_preview:
  "split_at LF (fst (buildCompactHashlineDiffPreview (\<lambda>_. 0) (fst (generateDiffString demo_diff old new 4))))
     = [MINUS # num_text 1 @ units ''--|a'', SPACE # num_text 1 @ units ''aa|b'']"
proof -
  have "list_all diff_line_ok [(MINUS, 1, units ''a''), (SPACE, 2, units ''b'')]" by (simp add: diff_line_ok_def units_def LF_def)
  moreover have g: "fst (generateDiffString demo_diff old new 4) = join [LF] (map formatNumberedDiffLine [(MINUS, 1, units ''a''), (SPACE, 2, units ''b'')])"
    unfolding generateDiffString_def Let_def initial_diff_def [symmetric] demo_diff_lines by simp
  ultimately have "split_at LF (fst (buildCompactHashlineDiffPreview (\<lambda>_. 0) (fst (generateDiffString demo_diff old new 4))))
      = map (preview_text (\<lambda>_. 0)) (fresh 0 [(MINUS, 1, units ''a''), (SPACE, 2, units ''b'')])"
    unfolding g by (intro preview_of_diff) simp_all
  then show ?thesis by (simp add: int_text_def) (simp add: units_def HL_BODY_SEP_def)
qed

theorem preview_anchors_witness:
  "\<exists>n l. SPACE # num_text 1 @ units ''aa|b'' = SPACE # formatHashLine (\<lambda>_. 0) n l \<and> 1 \<le> n \<and> n \<le> 1 \<and> ([units ''b''] ! (n - 1) = l \<or> l = dots)"
proof -
  let ?old = "units ''a'' @ LF # units ''b''" and ?line = "SPACE # num_text 1 @ units ''aa|b''"
  have p: "parts_whole (demo_diff ?old (units ''b''))" by (simp add: parts_whole_def demo_diff_def)
  have c: "concat (map dp_value (filter (\<lambda>p. \<not> dp_removed p) (demo_diff ?old (units ''b'')))) = units ''b''" by (simp add: demo_diff_def)
  have l: "?line \<in> set (split_at LF (fst (buildCompactHashlineDiffPreview (\<lambda>_. 0) (fst (generateDiffString demo_diff ?old (units ''b'') 4)))))"
    by (simp add: demo_preview)
  have h: "?line \<noteq> []" "hd ?line \<in> {PLUS, SPACE}" by simp_all
  have s: "split_at LF (units ''b'') = [units ''b'']" by (simp add: units_def LF_def)
  show ?thesis using preview_anchors [OF p c l h] unfolding s by simp
qed

end
