(* ===== verification/Hashline_Tool.thy ===== *)
theory Hashline_Tool
  imports Hashline_Input Hashline_Stream Edit_Diff State_Error
begin

text \<open>
  The edit tool in hashline mode: the read snapshots of a session (\<^verbatim>\<open>edit/file-read-cache.ts\<close>), the recovery from stale
  anchors (\<^verbatim>\<open>hashline/recovery.ts\<close>) and the execution of an input over several files (\<^verbatim>\<open>hashline/execute.ts\<close> with
  \<^verbatim>\<open>edit/read-file.ts\<close>). The LRU store of the snapshots, the patches of the diff library, the notebook converter, the guards
  of the session and the write callback are parameters.
\<close>

section \<open>Read snapshots\<close>

(* coding-agent/src/edit/file-read-cache.ts:23-27 FileReadSnapshot *)
record snapshot =
  sn_lines :: "(nat, utext) jsmap"
  sn_recordedAt :: nat

text \<open>The store of the library: a lookup marks the entry as used, so that it returns the store too.\<close>

record 'c lru =
  lru_get :: "utext \<Rightarrow> 'c \<Rightarrow> snapshot option \<times> 'c"
  lru_set :: "utext \<Rightarrow> snapshot \<Rightarrow> 'c \<Rightarrow> 'c"
  lru_delete :: "utext \<Rightarrow> 'c \<Rightarrow> 'c"
  lru_clear :: "'c \<Rightarrow> 'c"

(* coding-agent/src/edit/file-read-cache.ts:79-85 hasConflict *)
definition hasConflict :: "(nat, utext) jsmap \<Rightarrow> (nat \<times> utext) list \<Rightarrow> bool" where
  "hasConflict existing incoming \<longleftrightarrow>
     list_ex (\<lambda>(lineNum, content). case map_of existing lineNum of None \<Rightarrow> False | Some prior \<Rightarrow> prior \<noteq> content) incoming"

definition set_lines :: "(nat, utext) jsmap \<Rightarrow> (nat \<times> utext) list \<Rightarrow> (nat, utext) jsmap" where
  "set_lines m entries = foldl (\<lambda>m (n, l). AList.update n l m) m entries"

text \<open>The lines of an existing snapshot are set in place; its entry has just been marked as used by the lookup.\<close>

(* coding-agent/src/edit/file-read-cache.ts:61-76 record *)
definition record_entries :: "'c lru \<Rightarrow> nat \<Rightarrow> utext \<Rightarrow> (nat \<times> utext) list \<Rightarrow> 'c \<Rightarrow> 'c" where
  "record_entries ops now absPath entries c =
     (case lru_get ops absPath c of
        (Some existing, c1) \<Rightarrow>
          if hasConflict (sn_lines existing) entries then lru_set ops absPath \<lparr>sn_lines = set_lines [] entries, sn_recordedAt = now\<rparr> c1
          else lru_set ops absPath \<lparr>sn_lines = set_lines (sn_lines existing) entries, sn_recordedAt = now\<rparr> c1
      | (None, c1) \<Rightarrow> lru_set ops absPath \<lparr>sn_lines = set_lines [] entries, sn_recordedAt = now\<rparr> c1)"

(* coding-agent/src/edit/file-read-cache.ts:38-42 recordContiguous *)
definition recordContiguous :: "'c lru \<Rightarrow> nat \<Rightarrow> utext \<Rightarrow> nat \<Rightarrow> utext list \<Rightarrow> 'c \<Rightarrow> 'c" where
  "recordContiguous ops now absPath first lines c = (if lines = [] then c else record_entries ops now absPath (List.enumerate first lines) c)"

(* coding-agent/src/edit/file-read-cache.ts:45-49 recordSparse *)
definition recordSparse :: "'c lru \<Rightarrow> nat \<Rightarrow> utext \<Rightarrow> (nat \<times> utext) list \<Rightarrow> 'c \<Rightarrow> 'c" where
  "recordSparse ops now absPath entries c = (if entries = [] then c else record_entries ops now absPath entries c)"

(* coding-agent/src/edit/file-read-cache.ts:52-54 invalidate *)
definition invalidate :: "'c lru \<Rightarrow> utext \<Rightarrow> 'c \<Rightarrow> 'c" where
  "invalidate ops absPath c = lru_delete ops absPath c"

(* coding-agent/src/edit/file-read-cache.ts:57-59 clear *)
definition clear_snapshots :: "'c lru \<Rightarrow> 'c \<Rightarrow> 'c" where
  "clear_snapshots ops c = lru_clear ops c"

section \<open>The environment of the tool\<close>

datatype tool_error =
    InputError input_error
  | ParseError parse_error
  | ApplyError apply_error
  | FileNotFound utext
  | FileTooLarge utext
  | NoChange utext
  | Refused utext

text \<open>What the tool calls outside the modelled files.\<close>

record ('c, 'p) tool_env =
  te_xx :: "utext \<Rightarrow> nat"
  te_pcwd :: utext
  te_cwd :: utext
  te_generic :: bool
  te_now :: nat
  te_lru :: "'c lru"
  te_structuredPatch :: "utext \<Rightarrow> utext \<Rightarrow> 'p"
  te_applyPatch :: "utext \<Rightarrow> 'p \<Rightarrow> utext option"
  te_diffLines :: "utext \<Rightarrow> utext \<Rightarrow> diff_part list"
  te_resolvePlanPath :: "utext \<Rightarrow> utext"
  te_enforcePlanModeWrite :: "utext \<Rightarrow> tool_error option"
  te_assertEditable :: "utext \<Rightarrow> utext \<Rightarrow> tool_error option"
  te_readNotebook :: "utext \<Rightarrow> utext \<Rightarrow> tool_error + utext"
  te_serializeNotebook :: "utext \<Rightarrow> utext \<Rightarrow> tool_error + utext"
  te_writethrough :: "utext \<Rightarrow> utext \<Rightarrow> tool_error + utext"

record 'c tool_state =
  ts_files :: "utext \<Rightarrow> utext option"
  ts_cache :: 'c

type_synonym ('c, 'a) tool_run = "('c tool_state, tool_error, 'a) run"

definition lift :: "('e \<Rightarrow> tool_error) \<Rightarrow> 'e + 'a \<Rightarrow> ('c, 'a) tool_run" where
  "lift f r = (case r of Inl e \<Rightarrow> throw (f e) | Inr x \<Rightarrow> ret x)"

definition check :: "tool_error option \<Rightarrow> ('c, unit) tool_run" where
  "check e = (case e of None \<Rightarrow> ret () | Some e \<Rightarrow> throw e)"

section \<open>Recovery from stale anchors\<close>

(* coding-agent/src/hashline/recovery.ts:28-29 HASHLINE_RECOVERY_WARNING *)
datatype recovery_warning = RecoveredFromSnapshot | Applied apply_warning

(* coding-agent/src/hashline/recovery.ts:32-45 collectEditAnchors *)
definition collectEditAnchors :: "edit list \<Rightarrow> anchor list" where
  "collectEditAnchors edits = concat (map getHashlineEditAnchors edits)"

definition anchor_vouched :: "(utext \<Rightarrow> nat) \<Rightarrow> (nat, utext) jsmap \<Rightarrow> anchor \<Rightarrow> bool" where
  "anchor_vouched xx lines a \<longleftrightarrow> (case map_of lines (a_line a) of None \<Rightarrow> False | Some l \<Rightarrow> computeLineHash xx l = a_hash a)"

text \<open>The current text with the lines of the snapshot over it.\<close>

(* coding-agent/src/hashline/recovery.ts:75-84 tryRecoverHashlineWithCache *)
definition overlay :: "utext \<Rightarrow> (nat, utext) jsmap \<Rightarrow> utext" where
  "overlay currentText lines =
     (let current = split_at LF currentText; maxCachedLine = foldl max 0 (map fst lines);
          padded = current @ replicate (maxCachedLine - length current) []
      in join [LF] (foldl (\<lambda>ls (n, l). if n = 0 then ls else ls[n - 1 := l]) padded lines))"

(* coding-agent/src/hashline/recovery.ts:59-113 tryRecoverHashlineWithCache *)
definition tryRecoverHashlineWithCache ::
  "('c, 'p) tool_env \<Rightarrow> snapshot option \<Rightarrow> utext \<Rightarrow> edit list \<Rightarrow> apply_error + (utext \<times> nat option \<times> recovery_warning list) option"
where
  "tryRecoverHashlineWithCache env snap currentText edits =
     (case snap of
        None \<Rightarrow> Inr None
      | Some sn \<Rightarrow>
          if sn_lines sn = [] \<or> \<not> list_all (anchor_vouched (te_xx env) (sn_lines sn)) (collectEditAnchors edits) then Inr None
          else let previousText = overlay currentText (sn_lines sn)
               in if previousText = currentText then Inr None
                  else (case applyHashlineEdits (te_xx env) previousText edits (te_generic env) of
                          Inl (HashlineMismatch _) \<Rightarrow> Inr None
                        | Inl e \<Rightarrow> Inl e
                        | Inr applied \<Rightarrow>
                            if ar_lines applied = previousText then Inr None
                            else (case te_applyPatch env currentText (te_structuredPatch env previousText (ar_lines applied)) of
                                    None \<Rightarrow> Inr None
                                  | Some merged \<Rightarrow>
                                      if merged = currentText then Inr None
                                      else let firstChanged = snd (generateDiffString (te_diffLines env) currentText merged 4)
                                           in Inr (Some (merged,
                                                (case firstChanged of None \<Rightarrow> ar_firstChangedLine applied | f \<Rightarrow> f),
                                                (if firstChanged \<noteq> None then [RecoveredFromSnapshot] else []) @ map Applied (ar_warnings applied))))))"

section \<open>Reading and writing\<close>

(* coding-agent/src/edit/read-file.ts:15-15 MAX_EDIT_FILE_BYTES *)
definition MAX_EDIT_FILE_BYTES :: nat where
  "MAX_EDIT_FILE_BYTES = 8 * 1024 * 1024"

text \<open>\<^verbatim>\<open>path.extname\<close>: from the last dot of the base name, unless the name begins with it.\<close>

definition base_name :: "utext \<Rightarrow> utext" where
  "base_name p = last (split_at SLASH (rev (dropWhile (\<lambda>c. c = SLASH) (rev p))))"

definition ext_name :: "utext \<Rightarrow> utext" where
  "ext_name p =
     (let b = base_name p; e = rev (takeWhile (\<lambda>c. c \<noteq> 46) (rev b))
      in if 46 \<notin> set b \<or> b = units ''..'' \<or> length e + 1 = length b then [] else 46 # e)"

definition to_lower :: "nat \<Rightarrow> nat" where
  "to_lower c = (if 65 \<le> c \<and> c \<le> 90 then c + 32 else c)"

(* coding-agent/src/edit/notebook.ts:25-27 isNotebookPath *)
definition isNotebookPath :: "utext \<Rightarrow> bool" where
  "isNotebookPath p \<longleftrightarrow> map to_lower (ext_name p) = units ''.ipynb''"

(* coding-agent/src/edit/read-file.ts:24-46 readEditFileText *)
definition readEditFileText :: "('c, 'p) tool_env \<Rightarrow> utext \<Rightarrow> utext \<Rightarrow> ('c, utext) tool_run" where
  "readEditFileText env absolutePath path =
     bindr (gets (\<lambda>s. ts_files s absolutePath)) (\<lambda>f. case f of
        None \<Rightarrow> throw (FileNotFound path)
      | Some raw \<Rightarrow>
          if MAX_EDIT_FILE_BYTES < byte_length raw then throw (FileTooLarge path)
          else if isNotebookPath absolutePath then lift id (te_readNotebook env absolutePath raw)
          else ret raw)"

(* coding-agent/src/edit/read-file.ts:48-51 serializeEditFileText *)
definition serializeEditFileText :: "('c, 'p) tool_env \<Rightarrow> utext \<Rightarrow> utext \<Rightarrow> ('c, utext) tool_run" where
  "serializeEditFileText env absolutePath content =
     (if isNotebookPath absolutePath then lift id (te_serializeNotebook env absolutePath content) else ret content)"

(* coding-agent/src/hashline/execute.ts:31-40 readHashlineFile *)
definition readHashlineFile :: "('c, 'p) tool_env \<Rightarrow> utext \<Rightarrow> utext \<Rightarrow> ('c, bool \<times> utext) tool_run" where
  "readHashlineFile env absolutePath pathText =
     tryr (bindr (readEditFileText env absolutePath pathText) (\<lambda>t. ret (True, t)))
       (\<lambda>e. if e = FileNotFound pathText then ret (False, []) else throw e)"

(* coding-agent/src/hashline/execute.ts:42-47 hasAnchorScopedEdit *)
definition hasAnchorScopedEdit :: "edit list \<Rightarrow> bool" where
  "hasAnchorScopedEdit edits \<longleftrightarrow>
     list_ex (\<lambda>e. case e of Delete _ _ _ \<Rightarrow> True | Insert c _ _ _ \<Rightarrow> is_before c \<or> is_after c) edits"

section \<open>One section\<close>

(* coding-agent/src/hashline/execute.ts:73-98 applyHashlineEditsWithRecovery *)
definition applyHashlineEditsWithRecovery ::
  "('c, 'p) tool_env \<Rightarrow> utext \<Rightarrow> utext \<Rightarrow> edit list \<Rightarrow> ('c, utext \<times> nat option \<times> recovery_warning list) tool_run"
where
  "applyHashlineEditsWithRecovery env absolutePath s edits =
     (case applyHashlineEdits (te_xx env) s edits (te_generic env) of
        Inr r \<Rightarrow> ret (ar_lines r, ar_firstChangedLine r, map Applied (ar_warnings r))
      | Inl (HashlineMismatch ms) \<Rightarrow>
          bindr (gets (\<lambda>st. lru_get (te_lru env) absolutePath (ts_cache st))) (\<lambda>(snap, c).
          bindr (modify (\<lambda>st. st\<lparr>ts_cache := c\<rparr>)) (\<lambda>_.
          bindr (lift ApplyError (tryRecoverHashlineWithCache env snap s edits)) (\<lambda>recovered.
          case recovered of None \<Rightarrow> throw (ApplyError (HashlineMismatch ms)) | Some r \<Rightarrow> ret r)))
      | Inl e \<Rightarrow> throw (ApplyError e))"

text \<open>What both passes do before they differ: the edits and the content of the file, after all checks.\<close>

(* coding-agent/src/hashline/execute.ts:141-147 executeHashlineSection *)
definition section_source :: "('c, 'p) tool_env \<Rightarrow> hl_section \<Rightarrow> ('c, edit list \<times> parse_warning list \<times> bool \<times> utext) tool_run" where
  "section_source env sec =
     bindr (lift ParseError (parseHashlineWithWarnings (te_xx env) (sec_diff sec))) (\<lambda>(edits, warnings).
     bindr (check (te_enforcePlanModeWrite env (sec_path sec))) (\<lambda>_.
     bindr (readHashlineFile env (te_resolvePlanPath env (sec_path sec)) (sec_path sec)) (\<lambda>(exists, raw).
     bindr (if \<not> exists \<and> hasAnchorScopedEdit edits then throw (FileNotFound (sec_path sec)) else ret ()) (\<lambda>_.
     bindr (if exists then check (te_assertEditable env raw (sec_path sec)) else ret ()) (\<lambda>_.
     ret (edits, warnings, exists, raw))))))"

(* coding-agent/src/hashline/execute.ts:105-126 preflightHashlineSection *)
definition preflightHashlineSection :: "('c, 'p) tool_env \<Rightarrow> hl_section \<Rightarrow> ('c, unit) tool_run" where
  "preflightHashlineSection env sec =
     bindr (section_source env sec) (\<lambda>(edits, _, _, raw).
     let normalized = normalizeToLF (snd (stripBom raw))
     in bindr (applyHashlineEditsWithRecovery env (te_resolvePlanPath env (sec_path sec)) normalized edits) (\<lambda>(lines, _, _).
        if normalized = lines then throw (NoChange (sec_path sec)) else ret ()))"

datatype headline = NoChangesMade | Previewed | Updated | Created

record tool_result =
  tr_path :: utext
  tr_headline :: headline
  tr_preview :: utext
  tr_parseWarnings :: "parse_warning list"
  tr_warnings :: "recovery_warning list"
  tr_diff :: utext
  tr_firstChangedLine :: "nat option"
  tr_created :: bool

(* coding-agent/src/hashline/execute.ts:128-212 executeHashlineSection *)
definition executeHashlineSection :: "('c, 'p) tool_env \<Rightarrow> hl_section \<Rightarrow> ('c, tool_result) tool_run" where
  "executeHashlineSection env sec =
     (let absolutePath = te_resolvePlanPath env (sec_path sec)
      in bindr (section_source env sec) (\<lambda>(edits, parseWarnings, exists, raw).
         let (bom, s) = stripBom raw; originalEnding = detectLineEnding s; originalNormalized = normalizeToLF s
         in bindr (applyHashlineEditsWithRecovery env absolutePath originalNormalized edits) (\<lambda>(lines, first, warnings).
            if originalNormalized = lines
            then ret \<lparr>tr_path = sec_path sec, tr_headline = NoChangesMade, tr_preview = [], tr_parseWarnings = [], tr_warnings = [],
                      tr_diff = [], tr_firstChangedLine = None, tr_created = False\<rparr>
            else bindr (serializeEditFileText env absolutePath (bom @ restoreLineEndings lines originalEnding)) (\<lambda>finalContent.
                 bindr (lift id (te_writethrough env absolutePath finalContent)) (\<lambda>written.
                 bindr (modify (\<lambda>st. st\<lparr>ts_files := (ts_files st)(absolutePath := Some written)\<rparr>)) (\<lambda>_.
                 bindr (modify (\<lambda>st. st\<lparr>ts_cache := recordContiguous (te_lru env) (te_now env) absolutePath 1 (split_at LF lines) (ts_cache st)\<rparr>)) (\<lambda>_.
                 let (diff, firstDiff) = generateDiffString (te_diffLines env) originalNormalized lines 4;
                     (preview, _) = buildCompactHashlineDiffPreview (te_xx env) diff
                 in ret \<lparr>tr_path = sec_path sec,
                         tr_headline = (if preview \<noteq> [] then Previewed else if exists then Updated else Created),
                         tr_preview = preview, tr_parseWarnings = parseWarnings, tr_warnings = warnings, tr_diff = diff,
                         tr_firstChangedLine = (case first of None \<Rightarrow> firstDiff | f \<Rightarrow> f), tr_created = (\<not> exists)\<rparr>)))))))"

section \<open>All sections\<close>

fun each :: "('a \<Rightarrow> ('c, 'b) tool_run) \<Rightarrow> 'a list \<Rightarrow> ('c, 'b list) tool_run" where
  "each f [] = ret []"
| "each f (x # xs) = bindr (f x) (\<lambda>y. bindr (each f xs) (\<lambda>ys. ret (y # ys)))"

(* coding-agent/src/hashline/execute.ts:221-230 executeHashlineSingle *)
definition run_sections :: "('c, 'p) tool_env \<Rightarrow> hl_section list \<Rightarrow> ('c, tool_result list) tool_run" where
  "run_sections env sections =
     (if length sections = 1 then each (executeHashlineSection env) sections
      else bindr (each (preflightHashlineSection env) sections) (\<lambda>_. each (executeHashlineSection env) sections))"

(* coding-agent/src/hashline/execute.ts:214-250 executeHashlineSingle *)
definition executeHashlineSingle :: "('c, 'p) tool_env \<Rightarrow> utext \<Rightarrow> utext option \<Rightarrow> ('c, tool_result list) tool_run" where
  "executeHashlineSingle env input path =
     bindr (lift InputError (splitHashlineInputs (te_pcwd env) input \<lparr>so_cwd = Some (te_cwd env), so_path = path\<rparr>)) (\<lambda>ss.
     run_sections env (mergeSamePathSections ss))"

section \<open>Batches\<close>

interpretation same_files: run_relation "\<lambda>s t. ts_files t = ts_files s"
  by unfold_locales simp_all

lemma lift_apply: "lift f r st = (st, map_sum f id r)"
  by (cases r) (simp_all add: lift_def run_defs)

lemma check_apply: "check e st = (st, case e of None \<Rightarrow> Inr () | Some e \<Rightarrow> Inl e)"
  by (cases e) (simp_all add: check_def run_defs)

lemma readEditFileText_pure:
  "readEditFileText env a p st =
     (st, case ts_files st a of
            None \<Rightarrow> Inl (FileNotFound p)
          | Some raw \<Rightarrow> if MAX_EDIT_FILE_BYTES < byte_length raw then Inl (FileTooLarge p)
              else if isNotebookPath a then te_readNotebook env a raw else Inr raw)"
  by (simp add: readEditFileText_def run_defs lift_apply sum.map_id split: option.split)

text \<open>Preparing a section does not touch the state, and depends on one file only.\<close>

definition source_result :: "('c, 'p) tool_env \<Rightarrow> hl_section \<Rightarrow> 'c tool_state \<Rightarrow> tool_error + (edit list \<times> parse_warning list \<times> bool \<times> utext)" where
  "source_result env sec st = snd (section_source env sec st)"

lemmas source_defs = source_result_def section_source_def readHashlineFile_def

lemma section_source_pure: "section_source env sec st = (st, source_result env sec st)"
  unfolding source_defs by (simp add: run_defs lift_apply check_apply readEditFileText_pure split: sum.split option.split prod.split)

lemma source_result_local:
  "ts_files st (te_resolvePlanPath env (sec_path sec)) = ts_files st' (te_resolvePlanPath env (sec_path sec)) \<Longrightarrow>
   source_result env sec st = source_result env sec st'"
  unfolding source_defs by (simp add: run_defs lift_apply check_apply readEditFileText_pure split: sum.split option.split prod.split)

lemma recovery_keeps: "keeps (\<lambda>s t. ts_files t = ts_files s) (applyHashlineEditsWithRecovery env a s es)"
  by (auto simp: keeps_def applyHashlineEditsWithRecovery_def run_defs lift_apply split: sum.splits apply_error.splits prod.splits option.splits)

lemma preflight_keeps: "keeps (\<lambda>s t. ts_files t = ts_files s) (preflightHashlineSection env sec)"
proof -
  have "keeps (\<lambda>s t. ts_files t = ts_files s) (section_source env sec)" by (simp add: keeps_def section_source_pure)
  then show ?thesis unfolding preflightHashlineSection_def Let_def
    by (intro same_files.keeps_bind) (auto intro!: same_files.keeps_bind same_files.keeps_if same_files.keeps_throw same_files.keeps_ret recovery_keeps split: prod.splits)
qed

lemma each_preflight_keeps: "keeps (\<lambda>s t. ts_files t = ts_files s) (each (preflightHashlineSection env) secs)"
  by (induction secs) (auto intro!: same_files.keeps_bind same_files.keeps_ret preflight_keeps)

lemma preflight_source: "preflightHashlineSection env sec st = (st', Inr u) \<Longrightarrow> \<not> isl (source_result env sec st)"
  by (auto simp: preflightHashlineSection_def section_source_pure bindr_def split: sum.splits)

lemma each_preflight_source:
  "each (preflightHashlineSection env) secs st = (st', Inr us) \<Longrightarrow> sec \<in> set secs \<Longrightarrow> \<not> isl (source_result env sec st)"
proof (induction secs arbitrary: st us)
  case (Cons x secs)
  obtain st1 u where p: "preflightHashlineSection env x st = (st1, Inr u)" and q: "bindr (each (preflightHashlineSection env) secs) (\<lambda>ys. ret (u # ys)) st1 = (st', Inr us)"
    using Cons.prems(1) by (auto elim: bindr_Inr)
  obtain st2 ys where e: "each (preflightHashlineSection env) secs st1 = (st2, Inr ys)" using q by (auto elim: bindr_Inr)
  then have e': "each (preflightHashlineSection env) secs st1 = (st', Inr ys)" using q by (simp add: ret_def)
  have f: "ts_files st1 = ts_files st" using preflight_keeps [of env x] p by (auto simp: keeps_def dest!: spec [of _ st])
  show ?case
  proof (cases "sec = x")
    case True
    then show ?thesis using preflight_source [OF p] by simp
  next
    case False
    then show ?thesis using Cons.IH [OF e'] Cons.prems(2) source_result_local [of st1 env sec st] f by auto
  qed
qed simp

text \<open>The session writes what it is told to, and the edits of a section apply to the file as it is, without recovery.\<close>

definition writes_faithfully :: "('c, 'p) tool_env \<Rightarrow> bool" where
  "writes_faithfully env \<longleftrightarrow> (\<forall>a c. te_writethrough env a c = Inr c)"

definition section_result :: "('c, 'p) tool_env \<Rightarrow> hl_section \<Rightarrow> 'c tool_state \<Rightarrow> tool_error + (utext \<times> utext)" where
  "section_result env sec st =
     (case source_result env sec st of
        Inl e \<Rightarrow> Inl e
      | Inr (edits, _, _, raw) \<Rightarrow>
          map_sum ApplyError (\<lambda>r. (raw, ar_lines r)) (applyHashlineEdits (te_xx env) (normalizeToLF (snd (stripBom raw))) edits (te_generic env)))"

definition applies_directly :: "('c, 'p) tool_env \<Rightarrow> 'c tool_state \<Rightarrow> hl_section \<Rightarrow> bool" where
  "applies_directly env st sec \<longleftrightarrow> (isl (section_result env sec st) \<longrightarrow> isl (source_result env sec st)) \<and> \<not> isNotebookPath (te_resolvePlanPath env (sec_path sec))"

text \<open>The content of the file of a section afterwards: unchanged if its lines are, else the new lines in the form of the file.\<close>

definition section_content :: "('c, 'p) tool_env \<Rightarrow> hl_section \<Rightarrow> 'c tool_state \<Rightarrow> utext option" where
  "section_content env sec st =
     (case section_result env sec st of
        Inl _ \<Rightarrow> ts_files st (te_resolvePlanPath env (sec_path sec))
      | Inr (raw, lines) \<Rightarrow>
          if normalizeToLF (snd (stripBom raw)) = lines then ts_files st (te_resolvePlanPath env (sec_path sec))
          else Some (edit_content (\<lambda>_. lines) raw))"

lemma section_result_local:
  "ts_files st (te_resolvePlanPath env (sec_path sec)) = ts_files st' (te_resolvePlanPath env (sec_path sec)) \<Longrightarrow>
   section_result env sec st = section_result env sec st' \<and> section_content env sec st = section_content env sec st'
   \<and> (applies_directly env st sec \<longleftrightarrow> applies_directly env st' sec)"
proof -
  assume a: "ts_files st (te_resolvePlanPath env (sec_path sec)) = ts_files st' (te_resolvePlanPath env (sec_path sec))"
  note s = source_result_local [of st env sec st', OF a]
  have r: "section_result env sec st = section_result env sec st'" unfolding section_result_def s by simp
  show ?thesis unfolding section_content_def applies_directly_def r s a by simp
qed

lemma execute_section:
  assumes "writes_faithfully env" "applies_directly env st sec" "\<not> isl (source_result env sec st)"
  shows "\<exists>st' r. executeHashlineSection env sec st = (st', Inr r)
    \<and> ts_files st' = (ts_files st)(te_resolvePlanPath env (sec_path sec) := section_content env sec st)"
proof -
  obtain edits ws ex raw where src: "source_result env sec st = Inr (edits, ws, ex, raw)" using assms(3) by (cases "source_result env sec st") auto
  obtain r where ap: "applyHashlineEdits (te_xx env) (normalizeToLF (snd (stripBom raw))) edits (te_generic env) = Inr r"
    using assms(2) src by (cases "applyHashlineEdits (te_xx env) (normalizeToLF (snd (stripBom raw))) edits (te_generic env)")
      (auto simp: applies_directly_def section_result_def)
  have nb: "\<not> isNotebookPath (te_resolvePlanPath env (sec_path sec))" using assms(2) by (simp add: applies_directly_def)
  obtain bom s where b: "stripBom raw = (bom, s)" by fastforce
  have a: "applyHashlineEditsWithRecovery env (te_resolvePlanPath env (sec_path sec)) (normalizeToLF s) edits =
      ret (ar_lines r, ar_firstChangedLine r, map Applied (ar_warnings r))"
    using ap b by (simp add: applyHashlineEditsWithRecovery_def)
  have w: "te_writethrough env p c = Inr c" for p c using assms(1) by (simp add: writes_faithfully_def)
  show ?thesis
  proof (cases "normalizeToLF s = ar_lines r")
    case True
    then show ?thesis using src ap b a by (simp add: executeHashlineSection_def section_source_pure section_content_def section_result_def ret_def fun_upd_idem Let_def)
  next
    case False
    then show ?thesis using src ap b a nb w
      by (simp add: executeHashlineSection_def section_source_pure section_content_def section_result_def edit_content_def
          serializeEditFileText_def lift_apply modify_def ret_def split_beta Let_def)
  qed
qed

abbreviation target :: "('c, 'p) tool_env \<Rightarrow> hl_section \<Rightarrow> utext" where
  "target env sec \<equiv> te_resolvePlanPath env (sec_path sec)"

lemma execute_all:
  assumes "writes_faithfully env" "distinct (map (target env) secs)"
    and "\<forall>sec \<in> set secs. applies_directly env st sec \<and> \<not> isl (source_result env sec st)"
  shows "\<exists>st' rs. each (executeHashlineSection env) secs st = (st', Inr rs)
    \<and> (\<forall>sec \<in> set secs. ts_files st' (target env sec) = section_content env sec st)
    \<and> (\<forall>p. p \<notin> target env ` set secs \<longrightarrow> ts_files st' p = ts_files st p)"
  using assms(2,3)
proof (induction secs arbitrary: st)
  case Nil
  then show ?case by (simp add: ret_def)
next
  case (Cons sec secs)
  obtain st1 r where x: "executeHashlineSection env sec st = (st1, Inr r)" "ts_files st1 = (ts_files st)(target env sec := section_content env sec st)"
    using execute_section [OF assms(1), of st sec] Cons.prems(2) by auto
  have ne: "target env sec' \<noteq> target env sec" if "sec' \<in> set secs" for sec'
  proof
    assume "target env sec' = target env sec"
    then have "target env sec \<in> target env ` set secs" using that by (metis image_eqI)
    then show False using Cons.prems(1) by simp
  qed
  have loc: "ts_files st1 (target env sec') = ts_files st (target env sec')" if "sec' \<in> set secs" for sec' using ne [OF that] x(2) by simp
  have "applies_directly env st1 sec' \<and> \<not> isl (source_result env sec' st1)" if "sec' \<in> set secs" for sec'
    using section_result_local [OF loc [OF that]] source_result_local [OF loc [OF that]] Cons.prems(2) that by simp
  then obtain st2 rs where e: "each (executeHashlineSection env) secs st1 = (st2, Inr rs)"
    "\<forall>sec' \<in> set secs. ts_files st2 (target env sec') = section_content env sec' st1"
    "\<forall>p. p \<notin> target env ` set secs \<longrightarrow> ts_files st2 p = ts_files st1 p"
    using Cons.IH [of st1] Cons.prems(1) by auto
  have "each (executeHashlineSection env) (sec # secs) st = (st2, Inr (r # rs))" using x(1) e(1) by (simp add: ret_def)
  moreover have "\<forall>sec' \<in> set secs. ts_files st2 (target env sec') = section_content env sec' st"
    using e(2) section_result_local [OF loc] by simp
  moreover have "ts_files st2 (target env sec) = section_content env sec st" using e(3) x(2) Cons.prems(1) by auto
  moreover have "ts_files st2 p = ts_files st p" if "p \<notin> target env ` set (sec # secs)" for p using e(3) x(2) that by simp
  ultimately show ?case by (intro exI [of _ st2] exI [of _ "r # rs"]) simp
qed

lemma execute_section_fails: "source_result env sec st = Inl e \<Longrightarrow> executeHashlineSection env sec st = (st, Inl e)"
  by (simp add: executeHashlineSection_def section_source_pure Let_def)

lemma run_sections_atomic:
  assumes "writes_faithfully env" "distinct (map (target env) secs)" "list_all (applies_directly env st) secs"
  shows "case run_sections env secs st of
           (st', Inl e) \<Rightarrow> ts_files st' = ts_files st
         | (st', Inr rs) \<Rightarrow> (\<forall>sec \<in> set secs. \<not> isl (section_result env sec st) \<and> ts_files st' (target env sec) = section_content env sec st)
             \<and> (\<forall>p. p \<notin> target env ` set secs \<longrightarrow> ts_files st' p = ts_files st p)"
proof -
  have d: "\<not> isl (section_result env sec st')" if "applies_directly env st' sec" "\<not> isl (source_result env sec st')" for sec st'
    using that by (simp add: applies_directly_def)
  show ?thesis
  proof (cases "length secs = 1")
    case True
    then obtain sec where sec: "secs = [sec]" by (cases secs) auto
    show ?thesis
    proof (cases "source_result env sec st")
      case (Inl e)
      then show ?thesis by (simp add: run_sections_def sec execute_section_fails)
    next
      case (Inr r)
      then show ?thesis using execute_all [OF assms(1,2), of st] assms(3) d by (auto simp: run_sections_def sec)
    qed
  next
    case False
    obtain st1 r where p: "each (preflightHashlineSection env) secs st = (st1, r)" by fastforce
    have f: "ts_files st1 = ts_files st" using each_preflight_keeps [of env secs] p by (auto simp: keeps_def dest!: spec [of _ st])
    show ?thesis
    proof (cases r)
      case (Inl e)
      then show ?thesis using False p f by (simp add: run_sections_def)
    next
      case (Inr us)
      have ok: "applies_directly env st sec \<and> \<not> isl (source_result env sec st)" if "sec \<in> set secs" for sec
        using assms(3) each_preflight_source [OF p [unfolded Inr] that] that by (simp add: list_all_iff)
      have l: "ts_files st1 (target env sec) = ts_files st (target env sec)" for sec using f by simp
      have ok1: "\<forall>sec \<in> set secs. applies_directly env st1 sec \<and> \<not> isl (source_result env sec st1)"
        using ok section_result_local [OF l] source_result_local [OF l] by simp
      have e: "\<exists>st' rs. each (executeHashlineSection env) secs st1 = (st', Inr rs) \<and> (\<forall>sec \<in> set secs. ts_files st' (target env sec) = section_content env sec st1)
          \<and> (\<forall>p. p \<notin> target env ` set secs \<longrightarrow> ts_files st' p = ts_files st1 p)" by (rule execute_all [OF assms(1,2) ok1])
      then show ?thesis using False p Inr ok d f section_result_local [OF l] by (auto simp: run_sections_def)
    qed
  qed
qed


section \<open>Recovery\<close>

text \<open>What the read and search tools record: lines by their numbers from one.\<close>

definition snapshot_ok :: "snapshot \<Rightarrow> bool" where
  "snapshot_ok sn \<longleftrightarrow> keys_distinct (sn_lines sn) \<and> list_all (\<lambda>(n, l). 1 \<le> n \<and> LF \<notin> set l) (sn_lines sn)"

abbreviation overlay_lines :: "utext list \<Rightarrow> (nat, utext) jsmap \<Rightarrow> utext list" where
  "overlay_lines ls m \<equiv> foldl (\<lambda>ls (n, l). if n = 0 then ls else ls[n - 1 := l]) ls m"

lemma overlay_lines_length [simp]: "length (overlay_lines ls m) = length ls"
  by (induction m arbitrary: ls) auto

lemma overlay_lines_other: "n \<notin> set (map fst m) \<Longrightarrow> 1 \<le> n \<Longrightarrow> overlay_lines ls m ! (n - 1) = ls ! (n - 1)"
proof (induction m arbitrary: ls)
  case (Cons e m)
  obtain k l where e: "e = (k, l)" by (cases e)
  have "ls[k - 1 := l] ! (n - 1) = ls ! (n - 1)" if "k \<noteq> 0" using Cons.prems that by (intro nth_list_update_neq) (auto simp: e)
  then show ?case using Cons by (simp add: e)
qed simp

lemma overlay_lines_nth:
  "(n, l) \<in> set m \<Longrightarrow> keys_distinct m \<Longrightarrow> 1 \<le> n \<Longrightarrow> n \<le> length ls \<Longrightarrow> overlay_lines ls m ! (n - 1) = l"
proof (induction m arbitrary: ls)
  case (Cons e m)
  obtain k x where e: "e = (k, x)" by (cases e)
  show ?case
  proof (cases "(n, l) \<in> set m")
    case True
    then show ?thesis using Cons by (simp add: e)
  next
    case False
    then have "k = n" "x = l" using Cons.prems(1) e by auto
    then show ?thesis using Cons.prems overlay_lines_other [of n m "ls[n - 1 := l]"] by (simp add: e)
  qed
qed simp

lemma overlay_lines_set: "set (overlay_lines ls m) \<subseteq> set ls \<union> snd ` set m"
proof (induction m arbitrary: ls)
  case (Cons e m)
  obtain k l where e: "e = (k, l)" by (cases e)
  have "set (ls[k - 1 := l]) \<subseteq> insert l (set ls)" by (rule set_update_subset_insert)
  then show ?case using Cons [of "if k = 0 then ls else ls[k - 1 := l]"] by (auto simp: e split: if_splits)
qed simp

lemma foldl_max_start: "(a :: nat) \<le> foldl max a ns"
proof (induction ns arbitrary: a)
  case (Cons x ns)
  have "a \<le> max a x" by simp
  also have "max a x \<le> foldl max (max a x) ns" by (rule Cons)
  finally show ?case by simp
qed simp

lemma foldl_max_ge: "(n :: nat) \<in> set ns \<Longrightarrow> n \<le> foldl max a ns"
proof (induction ns arbitrary: a)
  case (Cons x ns)
  then show ?case using foldl_max_start [of "max a x" ns] by (cases "n = x") auto
qed simp

lemma overlay_split:
  assumes "snapshot_ok sn" "map_of (sn_lines sn) n = Some l"
  shows "1 \<le> n \<and> n \<le> length (split_at LF (overlay cur (sn_lines sn))) \<and> split_at LF (overlay cur (sn_lines sn)) ! (n - 1) = l"
proof -
  let ?m = "foldl max 0 (map fst (sn_lines sn))" and ?cur = "split_at LF cur"
  let ?pad = "?cur @ replicate (?m - length ?cur) []"
  have mem: "(n, l) \<in> set (sn_lines sn)" using assms(2) by (rule map_of_SomeD)
  then have n: "1 \<le> n" using assms(1) by (auto simp: snapshot_ok_def list_all_iff)
  have "n \<in> set (map fst (sn_lines sn))" using mem by force
  then have "n \<le> ?m" by (rule foldl_max_ge)
  then have len: "n \<le> length ?pad" by simp
  have "\<forall>x \<in> set (overlay_lines ?pad (sn_lines sn)). LF \<notin> set x"
    using overlay_lines_set [of ?pad "sn_lines sn"] assms(1) split_at_pieces [of _ LF cur] by (fastforce simp: snapshot_ok_def list_all_iff)
  moreover have "0 < length (overlay_lines ?pad (sn_lines sn))" using n len by (simp only: overlay_lines_length)
  then have "overlay_lines ?pad (sn_lines sn) \<noteq> []" by (rule length_greater_0_conv [THEN iffD1])
  ultimately have "split_at LF (overlay cur (sn_lines sn)) = overlay_lines ?pad (sn_lines sn)"
    unfolding overlay_def Let_def by (intro split_at_join)
  then show ?thesis using n len overlay_lines_nth [OF mem _ n len] assms(1) by (simp add: snapshot_ok_def)
qed

lemma overlay_applies:
  assumes "snapshot_ok sn" "list_all (anchor_vouched xx (sn_lines sn)) (collectEditAnchors edits)"
  shows "\<not> isl (applyHashlineEdits xx (overlay cur (sn_lines sn)) edits g)"
proof (cases "edits = []")
  case True
  then show ?thesis by (simp add: applyHashlineEdits_def)
next
  case False
  let ?ls = "split_at LF (overlay cur (sn_lines sn))"
  have "1 \<le> a_line a \<and> a_line a \<le> length ?ls \<and> a_hash a = computeLineHash xx (?ls ! (a_line a - 1))" if "a \<in> set (collectEditAnchors edits)" for a
    using assms(2) that overlay_split [OF assms(1), of "a_line a" _ cur] by (fastforce simp: list_all_iff anchor_vouched_def split: option.splits)
  then have "validateHashlineAnchors xx edits ?ls = Inr []"
    unfolding validateHashlineAnchors_def validate_anchors_ok list_all_iff collectEditAnchors_def by simp
  then show ?thesis using apply_edits_ok [OF False, of xx "overlay cur (sn_lines sn)" g] by auto
qed

text \<open>C12. Recovery from stale anchors never fails by itself, and never guesses: it gives up, or every anchor of the edits is vouched
  for by the snapshot with its hash, the edits apply to the file as it was read, and the result is what the patch of these changes
  makes of the file as it is now.\<close>

theorem recovery_sound:
  assumes "snapshot_ok sn"
  shows "\<exists>res. tryRecoverHashlineWithCache env (Some sn) cur edits = Inr res
    \<and> (\<forall>merged. map_option fst res = Some merged \<longrightarrow>
         (\<forall>a \<in> set (collectEditAnchors edits). \<exists>l. map_of (sn_lines sn) (a_line a) = Some l \<and> computeLineHash (te_xx env) l = a_hash a)
         \<and> (\<exists>r. applyHashlineEdits (te_xx env) (overlay cur (sn_lines sn)) edits (te_generic env) = Inr r
              \<and> te_applyPatch env cur (te_structuredPatch env (overlay cur (sn_lines sn)) (ar_lines r)) = Some merged \<and> merged \<noteq> cur))"
proof (cases "list_all (anchor_vouched (te_xx env) (sn_lines sn)) (collectEditAnchors edits)")
  case True
  obtain r where r: "applyHashlineEdits (te_xx env) (overlay cur (sn_lines sn)) edits (te_generic env) = Inr r"
    using overlay_applies [OF assms True, of cur "te_generic env"] by (cases "applyHashlineEdits (te_xx env) (overlay cur (sn_lines sn)) edits (te_generic env)") auto
  have "\<forall>a \<in> set (collectEditAnchors edits). \<exists>l. map_of (sn_lines sn) (a_line a) = Some l \<and> computeLineHash (te_xx env) l = a_hash a"
    using True by (auto simp: list_all_iff anchor_vouched_def split: option.splits)
  then show ?thesis using r by (auto simp: tryRecoverHashlineWithCache_def Let_def split: option.split)
next
  case False
  then show ?thesis by (simp add: tryRecoverHashlineWithCache_def)
qed

text \<open>An edit with an inner line of a range is never recovered: the filler hash is no hash of a line.\<close>

lemma range_never_recovered:
  assumes "a \<in> set (collectEditAnchors edits)" "a_hash a = RANGE_INTERIOR_HASH"
  shows "tryRecoverHashlineWithCache env snap cur edits = Inr None"
proof -
  have "\<not> anchor_vouched xx m a" for xx m using assms(2) hash_not_interior by (auto simp: anchor_vouched_def split: option.split)
  then have "\<not> list_all (anchor_vouched (te_xx env) m) (collectEditAnchors edits)" for m using assms(1) by (auto simp: list_all_iff)
  then show ?thesis by (simp add: tryRecoverHashlineWithCache_def split: option.split)
qed

lemma long_range_interior: "a_line (pr_start r) + 1 < a_line (pr_end r) \<Longrightarrow> \<exists>a \<in> set (expandRange r). a_hash a = RANGE_INTERIOR_HASH"
  by (rule bexI [of _ "\<lparr>a_line = a_line (pr_start r) + 1, a_hash = RANGE_INTERIOR_HASH\<rparr>"])
    (auto simp: expandRange_def image_iff simp del: upt_Suc intro!: bexI [of _ "a_line (pr_start r) + 1"])

section \<open>What is recorded\<close>

lemma set_lines_lookup: "map_of (set_lines m es) n = (case map_of (rev es) n of Some l \<Rightarrow> Some l | None \<Rightarrow> map_of m n)"
  by (induction es arbitrary: m) (auto simp: set_lines_def map_add_def map_of_update split: option.splits)

lemma set_lines_keys: "keys_distinct m \<Longrightarrow> keys_distinct (set_lines m es)"
  by (induction es arbitrary: m) (auto simp: set_lines_def distinct_update)

lemma set_lines_all: "list_all P m \<Longrightarrow> list_all P es \<Longrightarrow> keys_distinct m \<Longrightarrow> list_all P (set_lines m es)"
proof (induction es arbitrary: m)
  case (Cons e es)
  obtain n l where e: "e = (n, l)" by (cases e)
  have "list_all P (AList.update n l m)" using Cons.prems(1,2) by (induction m) (auto simp: e)
  then show ?case using Cons by (simp add: set_lines_def e distinct_update)
qed (simp add: set_lines_def)

text \<open>Recording lines leaves a snapshot that holds all of them; what it held before stays, unless one of the lines contradicts it.\<close>

lemma record_entries_snapshot:
  assumes "lru_get ops p c = (snap, c1)" "\<forall>sn. snap = Some sn \<longrightarrow> snapshot_ok sn" "list_all (\<lambda>(n, l). 1 \<le> n \<and> LF \<notin> set l) es"
  obtains sn where "record_entries ops now p es c = lru_set ops p sn c1" "snapshot_ok sn"
    "map_of (sn_lines sn) n = (case map_of (rev es) n of Some l \<Rightarrow> Some l
       | None \<Rightarrow> (case snap of None \<Rightarrow> None | Some old \<Rightarrow> if hasConflict (sn_lines old) es then None else map_of (sn_lines old) n))"
proof -
  have ok: "snapshot_ok \<lparr>sn_lines = set_lines m es, sn_recordedAt = now\<rparr>" if "keys_distinct m" "list_all (\<lambda>(n, l). 1 \<le> n \<and> LF \<notin> set l) m" for m
    using that set_lines_keys set_lines_all assms(3) by (simp add: snapshot_ok_def)
  have e: "snapshot_ok \<lparr>sn_lines = set_lines [] es, sn_recordedAt = now\<rparr>" by (rule ok) simp_all
  show thesis
  proof (cases snap)
    case None
    then show thesis using assms(1) e by (intro that [OF _ e]) (simp_all add: record_entries_def set_lines_lookup split: option.split)
  next
    case (Some old)
    then have o: "keys_distinct (sn_lines old)" "list_all (\<lambda>(n, l). 1 \<le> n \<and> LF \<notin> set l) (sn_lines old)" using assms(2) by (simp_all add: snapshot_ok_def)
    show thesis
    proof (cases "hasConflict (sn_lines old) es")
      case True
      then show thesis using assms(1) Some by (intro that [OF _ e]) (simp_all add: record_entries_def set_lines_lookup split: option.split)
    next
      case False
      then show thesis using assms(1) Some by (intro that [OF _ ok [OF o]]) (simp_all add: record_entries_def set_lines_lookup split: option.split)
    qed
  qed
qed

section \<open>A concrete session\<close>

definition demo_lru :: "(utext, snapshot) jsmap lru" where
  "demo_lru = \<lparr>lru_get = (\<lambda>p c. (map_of c p, c)), lru_set = (\<lambda>p s c. take 30 ((p, s) # AList.delete p c)),
     lru_delete = AList.delete, lru_clear = (\<lambda>_. [])\<rparr>"

definition demo_tool :: "((utext, snapshot) jsmap, utext) tool_env" where
  "demo_tool = \<lparr>te_xx = (\<lambda>_. 0), te_pcwd = units ''/w'', te_cwd = units ''/w'', te_generic = False, te_now = 0, te_lru = demo_lru,
     te_structuredPatch = (\<lambda>old new. new), te_applyPatch = (\<lambda>cur new. Some new), te_diffLines = (\<lambda>_ _. []),
     te_resolvePlanPath = (\<lambda>p. units ''/w/'' @ p), te_enforcePlanModeWrite = (\<lambda>_. None), te_assertEditable = (\<lambda>_ _. None),
     te_readNotebook = (\<lambda>_ raw. Inr raw), te_serializeNotebook = (\<lambda>_ t. Inr t), te_writethrough = (\<lambda>_ t. Inr t)\<rparr>"

definition demo_session :: "(utext, snapshot) jsmap tool_state" where
  "demo_session = \<lparr>ts_files = [units ''/w/a'' \<mapsto> units ''1'', units ''/w/b'' \<mapsto> units ''2''], ts_cache = []\<rparr>"

definition demo_sections :: "hl_section list" where
  "demo_sections = map (\<lambda>f. as_section (file_section f)) demo_files"

lemma demo_split:
  "splitHashlineInputs (te_pcwd demo_tool) (input_text (map file_section demo_files)) opts = Inr demo_sections"
  "mergeSamePathSections demo_sections = demo_sections"
proof -
  have "list_all section_ok (map file_section demo_files)" using demo_files_ok file_section_ok by (auto simp: list_all_iff)
  then show "splitHashlineInputs (te_pcwd demo_tool) (input_text (map file_section demo_files)) opts = Inr demo_sections"
    unfolding demo_sections_def by (subst split_input) (simp_all add: demo_files_def)
  show "mergeSamePathSections demo_sections = demo_sections"
    by (rule merge_distinct) (simp add: demo_sections_def demo_files_def as_section_def file_section_def units_def)
qed

lemma unanchored_applies: "edits \<noteq> [] \<Longrightarrow> collectEditAnchors edits = [] \<Longrightarrow> \<not> isl (applyHashlineEdits xx s edits g)"
proof -
  assume e: "edits \<noteq> []" "collectEditAnchors edits = []"
  have "validateHashlineAnchors xx edits (split_at LF s) = Inr []"
    using e(2) unfolding validateHashlineAnchors_def validate_anchors_ok collectEditAnchors_def by (simp only: list.pred_inject)
  then show ?thesis using apply_edits_ok [OF e(1), of xx s g] by auto
qed

lemma map_sum_Inr: "map_sum f id r = Inr x \<longleftrightarrow> r = Inr x"
  by (cases r) simp_all

lemma source_edits: "source_result env sec st = Inr (edits, ws, ex, raw) \<Longrightarrow> parseHashlineWithWarnings (te_xx env) (sec_diff sec) = Inr (edits, ws)"
  unfolding source_defs by (auto simp: run_defs lift_apply check_apply readEditFileText_pure map_sum_Inr split: sum.splits option.splits prod.splits if_splits)

lemma isl_map_sum: "isl (map_sum f g r) \<longleftrightarrow> isl r"
  by (cases r) simp_all

lemma demo_direct: "list_all (applies_directly demo_tool demo_session) demo_sections"
proof -
  have "applies_directly demo_tool demo_session (as_section (file_section f))" if f: "f \<in> set demo_files" for f
  proof -
    have p: "parseHashlineWithWarnings (\<lambda>_. 0) (sec_diff (as_section (file_section f))) = Inr (script_edits 1 0 (snd f), [])"
      using f demo_files_ok by (intro file_parsed) (simp add: list_all_iff)
    have "script_edits 1 0 (snd f) \<noteq> [] \<and> collectEditAnchors (script_edits 1 0 (snd f)) = []"
      using f by (auto simp: demo_files_def insert_all_def collectEditAnchors_def getHashlineEditAnchors_def)
    then have a: "\<not> isl (applyHashlineEdits (\<lambda>_. 0) s (script_edits 1 0 (snd f)) False)" for s using unanchored_applies by blast
    have nb: "\<not> isNotebookPath (te_resolvePlanPath demo_tool (sec_path (as_section (file_section f))))"
      using f by (auto simp: demo_files_def demo_tool_def as_section_def file_section_def isNotebookPath_def ext_name_def base_name_def units_def SLASH_def)
    have x: "te_xx demo_tool = (\<lambda>_. 0)" "te_generic demo_tool = False" by (simp_all add: demo_tool_def)
    show ?thesis
    proof (cases "source_result demo_tool (as_section (file_section f)) demo_session")
      case (Inl e)
      then show ?thesis using nb by (simp add: applies_directly_def)
    next
      case (Inr t)
      obtain edits ws ex raw where t: "t = (edits, ws, ex, raw)" by (cases t)
      then have "edits = script_edits 1 0 (snd f)" using source_edits [OF Inr [unfolded t]] p x by simp
      then have "\<not> isl (section_result demo_tool (as_section (file_section f)) demo_session)" using a Inr t x by (simp add: section_result_def isl_map_sum)
      then show ?thesis using nb by (simp add: applies_directly_def)
    qed
  qed
  then show ?thesis by (simp add: demo_sections_def list_all_iff)
qed


definition demo_snapshot :: snapshot where
  "demo_snapshot = \<lparr>sn_lines = [(1, units ''a'')], sn_recordedAt = 0\<rparr>"

theorem recovery_sound_witness:
  "\<exists>res. tryRecoverHashlineWithCache demo_tool (Some demo_snapshot) (units ''b'') [Delete \<lparr>a_line = 1, a_hash = units ''aa''\<rparr> 1 0] = Inr res
    \<and> (\<forall>merged. map_option fst res = Some merged \<longrightarrow> merged \<noteq> units ''b'')"
proof -
  have "snapshot_ok demo_snapshot" by (simp add: snapshot_ok_def demo_snapshot_def units_def LF_def)
  from recovery_sound [OF this, of demo_tool "units ''b''" "[Delete \<lparr>a_line = 1, a_hash = units ''aa''\<rparr> 1 0]"] show ?thesis by blast
qed

end
