(* ===== verification/Spec2Isabelle.thy ===== *)
theory Spec2Isabelle
  imports Harness_Ingest Owner_Evidence Owner_Teardown Goal_Runtime Fallback_Chain Session_Queues Ring_Buffer
    Hashline_Tool
begin

text \<open>
  \<^bold>\<open>Verification of the control plane, the session policies and the hashline edit tool of the coding agent.\<close>

  The repository is a coding agent in TypeScript (\<^verbatim>\<open>packages/\<close>) with native helpers (\<^verbatim>\<open>crates/\<close>). This development models
  the parts whose correctness is a matter of state and evidence: the harness control plane
  (\<^verbatim>\<open>packages/coding-agent/src/harness-control-plane/\<close>), which starts, observes, recovers and finalizes agent sessions, and
  policies inside a session: goal mode, the tool choice and yield queues, the model fallback chain, and two
  data structures below them; and the edit tool in hashline mode (\<^verbatim>\<open>packages/coding-agent/src/hashline/\<close>), whose line
  anchors carry a hash of the line.

  \<^bold>\<open>How the parts interact.\<close> An owner process holds the lease of a session (\<^verbatim>\<open>session-lease.ts\<close>). It observes the session,
  classifies what it sees (\<^verbatim>\<open>classifier.ts\<close>) and acts: it re-injects the prompt, restarts, or stops
  (\<^verbatim>\<open>operate.ts\<close>). Every claim it makes is a receipt (\<^verbatim>\<open>receipts.ts\<close>), a hashed JSON record written once to the session
  store (\<^verbatim>\<open>storage.ts\<close>) and appended to a spool (\<^verbatim>\<open>receipt-spool.ts\<close>). A session completes only through the finalizer
  (\<^verbatim>\<open>finalize.ts\<close>), which runs validations and checks commit, branch and pull request; receipts of other processes
  are taken in by \<^verbatim>\<open>receipt-ingest.ts\<close>. Inside the session, goal mode accounts usage to the active goal, the yield
  queue injects messages between turns, the tool choice queue forces tools, and the fallback chain picks the model
  of the next attempt. The model reads files with anchors (\<^verbatim>\<open>stream.ts\<close>) and answers with an input for the edit tool: it is
  split into one script per file (\<^verbatim>\<open>input.ts\<close>), the scripts are parsed (\<^verbatim>\<open>parser.ts\<close>), checked against the files and applied
  (\<^verbatim>\<open>apply.ts\<close>), if need be by way of what the session has read before (\<^verbatim>\<open>recovery.ts\<close>), and the result shows fresh
  anchors (\<^verbatim>\<open>diff-preview.ts\<close>).

  \<^bold>\<open>Theories.\<close>
  \<^item> \<open>GJC_Prelude\<close>: JavaScript maps as association lists, strings and decimal numerals; labelled transition systems; the
    contracts \<open>invariant_system\<close>, \<open>monotone_system\<close>, \<open>fifo_source\<close> and \<open>growing_store\<close>, which the components below
    interpret on their own operations.
  \<^item> \<open>JS_Values\<close>, \<open>Canonical_Json\<close>, \<open>Node_Path\<close>: dynamic values with truthiness, comparison and conversion; canonical JSON
    with its unique readability (\<^verbatim>\<open>canonicalJson\<close>); POSIX path resolution.
  \<^item> \<open>Harness_Lifecycle\<close>: \<^verbatim>\<open>types.ts\<close>, \<^verbatim>\<open>state-machine.ts\<close>, \<^verbatim>\<open>classifier.ts\<close>, \<^verbatim>\<open>seams.ts\<close>, \<^verbatim>\<open>lifecycle-reconciliation.ts\<close>. The
    transition table, the allowed actions, the classifier, the verdict extractor, the reconciliation of a stored
    session. Shown: completion is reachable only through finalizing, the extractor finds the last whole-word
    verdict, what reconciliation does on every branch.
  \<^item> \<open>Harness_Receipts\<close>: \<^verbatim>\<open>receipts.ts\<close>, \<^verbatim>\<open>phase-rollup.ts\<close>, \<^verbatim>\<open>task/receipt.ts\<close>. Building, hashing and validating receipts.
    Shown: round trip, tamper evidence up to hash collisions, soundness of rollups, the vanish gate.
  \<^item> \<open>Receipt_Spool\<close>: \<^verbatim>\<open>receipt-spool.ts\<close> as a file shared by processes with caches. Shown: consecutive cursors along every
    interleaving, cursor text; and that a torn last line breaks this.
  \<^item> \<open>Harness_Storage\<close>: \<^verbatim>\<open>storage.ts\<close> over typed files. Shown: paths stay below the root, receipts are immutable and written
    once (an interpretation of \<open>growing_store\<close>), the resolved root matches the workspace, sockets are exclusive.
  \<^item> \<open>Harness_Lease\<close>: \<^verbatim>\<open>session-lease.ts\<close> among processes that may die. Shown: a live owner keeps its lease, epochs fence
    earlier owners.
  \<^item> \<open>Harness_Ingest\<close>: \<^verbatim>\<open>receipt-ingest.ts\<close>. Shown: every receipt is accounted for once, and only evidence moves the
    lifecycle.
  \<^item> \<open>Harness_Finalize\<close>: \<^verbatim>\<open>finalize.ts\<close>. Shown: the completion gate as an equivalence, the review gate, and that the
    finalizer returns.
  \<^item> \<open>Harness_Operate\<close>: \<^verbatim>\<open>operate.ts\<close>, \<^verbatim>\<open>session-transport.ts\<close>, \<^verbatim>\<open>preserve.ts\<close>. The state of the loop records its actions in
    order. Shown: no restart without stored evidence, bounded budgets, honest results.
  \<^item> \<open>Agent_Wire\<close>: \<^verbatim>\<open>modes/shared/agent-wire/event-observation.ts\<close>, \<^verbatim>\<open>event-envelope.ts\<close>. What an owner keeps of a wire frame, and the
    compact encoder. Shown: no message text, tool argument or result reaches the evidence; numbering, trimming and
    checkpoints of compact frames.
  \<^item> \<open>State_Error\<close>: computations on a state that may throw, with triples and the contract \<open>run_relation\<close> of a relation between
    the states before and after that every statement keeps.
  \<^item> \<open>Harness_Owner\<close>: \<^verbatim>\<open>owner.ts\<close>, the class \<^verbatim>\<open>RuntimeOwner\<close> as a record and one computation per method: the start, the verbs,
    the single event writer, the frame pump, the heartbeat. One request runs at one reading of the clock and of the
    host, without interleaving inside it; the events of an operate run are appended after the run instead of during it.
  \<^item> \<open>Owner_Log\<close>, \<open>Owner_Evidence\<close>, \<open>Owner_Teardown\<close>: the owner among its rivals. \<open>owner_relation\<close> is the contract of a relation
    that every request keeps; it is interpreted for the log, for what teardown controls and for reads. Shown: events are
    appended by the lease holder only, and their cursors grow over the whole life of a session; completion is stored only
    with valid evidence; an observation has persisted every frame queued before it or says that it could not; the
    lease is given up only by an owner that can no longer act; the teardown returns once its surroundings answer; a
    failed start leaves nothing behind.
  \<^item> \<open>Goal_Runtime\<close>: \<^verbatim>\<open>goals/state.ts\<close>, \<^verbatim>\<open>goals/runtime.ts\<close>, \<^verbatim>\<open>goals/continuation-timeout-guard.ts\<close>. Shown: the runtime invariant
    over all sequences of operations, exact accounting, finality of completed goals, escaping, the timeout hold.
  \<^item> \<open>Fallback_Chain\<close>: \<^verbatim>\<open>session/fallback-chain-controller.ts\<close>. Shown: retries of a request end, no entry is cut short, delays
    stay in range.
  \<^item> \<open>Session_Queues\<close>: \<^verbatim>\<open>session/tool-choice-queue.ts\<close>, \<^verbatim>\<open>session/yield-queue.ts\<close>. Shown: order, replay of lost turns, exact
    and timely flushes.
  \<^item> \<open>Ring_Buffer\<close>: \<^verbatim>\<open>utils/src/ring.ts\<close> refines a bounded list deque; \<^verbatim>\<open>tui/src/kill-ring.ts\<close>.
  \<^item> \<open>Hashline_Text\<close>, \<open>Hashline_Stream\<close>: text as UTF-16 code units, anchors and line hashes (\<^verbatim>\<open>hash.ts\<close>, \<^verbatim>\<open>types.ts\<close>), the stream of a
    file with anchors. Shown: every line comes once, in order, in chunks within their limits, however the file is read.
  \<^item> \<open>Hashline_Parser\<close>, \<open>Hashline_Input\<close>: \<^verbatim>\<open>parser.ts\<close>, \<^verbatim>\<open>input.ts\<close>, \<^verbatim>\<open>edit/normalize.ts\<close>. Shown: scripts and inputs over several files
    are read back as they are written, sections of one file are merged, files keep line endings and byte order mark; and that
    the warning about a cut-off input is never given.
  \<^item> \<open>Hashline_Apply\<close>: \<^verbatim>\<open>apply.ts\<close>. Shown: edits are applied exactly when all anchors are valid; splicing bottom up is weaving all edits
    at once; a replacement keeps the lines around it; and that this needs the absorbed borders not to overlap.
  \<^item> \<open>Edit_Diff\<close>: \<^verbatim>\<open>generateDiffString\<close> of \<^verbatim>\<open>edit/diff.ts\<close> and \<^verbatim>\<open>diff-preview.ts\<close>. Shown: the anchors of a preview are those of the new file.
  \<^item> \<open>Hashline_Tool\<close>: \<^verbatim>\<open>edit/file-read-cache.ts\<close>, \<^verbatim>\<open>recovery.ts\<close>, \<^verbatim>\<open>execute.ts\<close>, \<^verbatim>\<open>edit/read-file.ts\<close>, as computations of \<open>State_Error\<close> on the
    files and the snapshots. Shown: a batch is applied to all files or to none; recovery never guesses and never fails by
    itself; and that it refuses every range of three or more lines.

  \<^bold>\<open>Conventions.\<close> A class is a \<open>record\<close> of its fields and one function per method; a method that may throw returns a sum with the
  error on the left. A comment before each definition names the file and lines it translates. What the code takes
  from its surroundings is an argument: the clock, random bytes, generated identifiers, git and shell answers, the
  transport, SHA-256, xxHash32, the line diff and patch routines, the LRU store of snapshots, the text of numbers. Hypotheses on such arguments are stated where they are used, and
  each theorem that has any is followed by one that applies it to a concrete instance. Operations that hold a
  file lock or run in a serialised section are one step.

  \<^bold>\<open>Bounds.\<close> No definition uses fuel. Loops over data are structural recursions; the operate loop recurses on the iterations
  left, which \<^verbatim>\<open>maxIterations\<close> bounds in the code as well. The teardown loop of the owner may run forever and is a
  \<open>partial_function\<close>; that it returns is a theorem.

  \<^bold>\<open>Not modelled.\<close> IEEE rounding (numbers are exact rationals), characters above 255 outside the hashline theories, concurrent callbacks that re-enter a queue
  while it runs. Of the owner: the promise that concurrent calls of \<^verbatim>\<open>stop\<close> share and the capability handed
  to \<^verbatim>\<open>transport.close\<close>. Of the edit tool: the other edit modes, the notebook converter, the plan mode and generated file guards,
  which are parameters, the texts of error messages, and the stripping of echoed prefixes (\<^verbatim>\<open>prefixes.ts\<close>). Of the repository: the socket server and client, model providers, the other tools, the terminal interface, the workflow runtimes and the SDK bus, which are input and output or
  remain to be done.
\<close>

end
